(* ===== verification/Wyrd_Prelude.thy ===== *)
theory Wyrd_Prelude
  imports Main "HOL-Library.Word" "HOL-Library.List_Lexorder" "HOL-Library.Finite_Map"
    "HOL-Library.Sublist"
begin

text \<open>
  Shared vocabulary of the development: the machine types, byte strings and
  their little/big-endian readings, Rust's \<open>Result\<close> as a sum with a bind, the
  bounds check every decoder uses, slices and counted vectors, UTF-8 validity,
  and the two interface locales the wire formats are stated against
  (\<open>wire_item\<close>: one self-delimiting field at a cursor; \<open>canonical_codec\<close>: a
  whole document with exactly one byte form).

  Lengths and cursors (\<open>usize\<close>) are natural numbers.  The decoders guard every
  cursor movement by \<open>pos.checked_add(n).is_none_or(|end| end > len)\<close> and every
  count by \<open>checked_mul\<close>; an overflowing sum or product is larger than any slice
  length, so both report truncation exactly when the mathematical sum exceeds
  the length.  That is the test \<open>need\<close> makes, on every pointer width.
\<close>

unbundle bit_operations_syntax

type_synonym u8 = "8 word"
type_synonym u32 = "32 word"
type_synonym u64 = "64 word"
type_synonym bytes = "u8 list"
type_synonym array32 = "256 word"
type_synonym array64 = "512 word"

named_theorems wire_simps \<open>reading back what an encoder wrote at a cursor\<close>
named_theorems result_simps \<open>case analysis of fallible code\<close>

section \<open>Saturating arithmetic\<close>

definition saturating_add :: "u64 \<Rightarrow> u64 \<Rightarrow> u64" where
  "saturating_add a b = (if unat a + unat b < 2 ^ 64 then a + b else - 1)"

definition saturating_sub :: "u64 \<Rightarrow> u64 \<Rightarrow> u64" where
  "saturating_sub a b = (if b \<le> a then a - b else 0)"

lemma unat_saturating_add: "unat (saturating_add a b) = min (unat a + unat b) (2 ^ 64 - 1)"
proof (cases "unat a + unat b < 2 ^ 64")
  case True
  then show ?thesis by (simp add: saturating_add_def unat_add_lem [THEN iffD1])
next
  case False
  have "unat (- 1 :: u64) = 2 ^ 64 - 1" by (simp add: unsigned_minus_1_eq_mask mask_eq_exp_minus_1)
  with False show ?thesis by (simp add: saturating_add_def)
qed

lemma unat_saturating_sub: "unat (saturating_sub a b) = unat a - unat b"
  by (simp add: saturating_sub_def unat_sub word_le_nat_alt)

section \<open>Results\<close>

definition result_bind :: "'e + 'a \<Rightarrow> ('a \<Rightarrow> 'e + 'b) \<Rightarrow> 'e + 'b" where
  "result_bind m f = (case m of Inl e \<Rightarrow> Inl e | Inr x \<Rightarrow> f x)"

definition map_err :: "('e \<Rightarrow> 'f) \<Rightarrow> 'e + 'a \<Rightarrow> 'f + 'a" where
  "map_err f m = (case m of Inl e \<Rightarrow> Inl (f e) | Inr x \<Rightarrow> Inr x)"

definition ok_or :: "'a option \<Rightarrow> 'e \<Rightarrow> 'e + 'a" where
  "ok_or m e = (case m of None \<Rightarrow> Inl e | Some x \<Rightarrow> Inr x)"

definition ensure :: "bool \<Rightarrow> 'e \<Rightarrow> 'e + unit" where
  "ensure b e = (if b then Inr () else Inl e)"

lemma result_bind_simps [simp]:
  "result_bind (Inl e) f = Inl e"
  "result_bind (Inr x) f = f x"
  by (simp_all add: result_bind_def)

lemma result_bind_Inr_iff [result_simps]:
  "result_bind m f = Inr y \<longleftrightarrow> (\<exists>x. m = Inr x \<and> f x = Inr y)"
  by (cases m) auto

lemma result_bind_Inl_iff [result_simps]:
  "result_bind m f = Inl e \<longleftrightarrow> m = Inl e \<or> (\<exists>x. m = Inr x \<and> f x = Inl e)"
  by (cases m) auto

lemma result_bind_cong [fundef_cong]:
  "m = m' \<Longrightarrow> (\<And>x. m' = Inr x \<Longrightarrow> f x = g x) \<Longrightarrow> result_bind m f = result_bind m' g"
  by (cases m') auto

lemma map_err_simps [simp]:
  "map_err f (Inl e) = Inl (f e)"
  "map_err f (Inr x) = Inr x"
  by (simp_all add: map_err_def)

lemma map_err_Inr_iff [result_simps]: "map_err f m = Inr x \<longleftrightarrow> m = Inr x"
  by (cases m) auto

lemma ok_or_simps [simp]:
  "ok_or None e = Inl e"
  "ok_or (Some x) e = Inr x"
  by (simp_all add: ok_or_def)

lemma ok_or_Inr_iff [result_simps]: "ok_or m e = Inr x \<longleftrightarrow> m = Some x"
  by (cases m) auto

lemma ok_or_Inl_iff [result_simps]: "ok_or m e = Inl e' \<longleftrightarrow> m = None \<and> e' = e"
  by (cases m) auto

lemma ensure_Inr_iff [result_simps]: "ensure b e = Inr u \<longleftrightarrow> b"
  by (simp add: ensure_def)

lemma ensure_Inl_iff [result_simps]: "ensure b e = Inl e' \<longleftrightarrow> \<not> b \<and> e' = e"
  by (auto simp add: ensure_def)

lemma ensure_simps [simp]:
  "ensure True e = Inr ()"
  "ensure False e = Inl e"
  by (simp_all add: ensure_def)

section \<open>Fixed-width integers as bytes\<close>

fun le_bytes :: "nat \<Rightarrow> nat \<Rightarrow> bytes" where
  "le_bytes 0 n = []"
| "le_bytes (Suc k) n = word_of_nat (n mod 256) # le_bytes k (n div 256)"

fun le_value :: "bytes \<Rightarrow> nat" where
  "le_value [] = 0"
| "le_value (b # bs) = unat b + 256 * le_value bs"

definition be_bytes :: "nat \<Rightarrow> nat \<Rightarrow> bytes" where
  "be_bytes k n = rev (le_bytes k n)"

definition be_value :: "bytes \<Rightarrow> nat" where
  "be_value bs = le_value (rev bs)"

lemma length_le_bytes [simp]: "length (le_bytes k n) = k"
  by (induction k arbitrary: n) auto

lemma length_be_bytes [simp]: "length (be_bytes k n) = k"
  by (simp add: be_bytes_def)

lemma unat_u8_less: "unat (b :: u8) < 256"
  using unsigned_less [of b, where ?'a = nat] by simp

lemma unat_byte [simp]: "unat (word_of_nat (n mod 256) :: u8) = n mod 256"
  by (simp add: unat_of_nat)

lemma le_value_le_bytes: "n < 256 ^ k \<Longrightarrow> le_value (le_bytes k n) = n"
proof (induction k arbitrary: n)
  case 0
  then show ?case by simp
next
  case (Suc k)
  then have "n div 256 < 256 ^ k"
    by (simp add: less_mult_imp_div_less mult.commute)
  with Suc.IH show ?case by simp
qed

lemma le_value_less: "le_value bs < 256 ^ length bs"
proof (induction bs)
  case Nil
  then show ?case by simp
next
  case (Cons b bs)
  have "unat b < 256" by (rule unat_u8_less)
  with Cons show ?case by simp
qed

lemma le_bytes_le_value: "length bs = k \<Longrightarrow> le_bytes k (le_value bs) = bs"
proof (induction bs arbitrary: k)
  case Nil
  then show ?case by simp
next
  case (Cons b bs)
  have "unat b < 256" by (rule unat_u8_less)
  then have "(unat b + 256 * le_value bs) mod 256 = unat b"
    "(unat b + 256 * le_value bs) div 256 = le_value bs"
    by simp_all
  with Cons show ?case by auto
qed

lemma be_value_be_bytes: "n < 256 ^ k \<Longrightarrow> be_value (be_bytes k n) = n"
  by (simp add: be_value_def be_bytes_def le_value_le_bytes)

lemma be_bytes_be_value: "length bs = k \<Longrightarrow> be_bytes k (be_value bs) = bs"
  by (simp add: be_value_def be_bytes_def le_bytes_le_value)

lemma be_value_less: "be_value bs < 256 ^ length bs"
  using le_value_less [of "rev bs"] by (simp add: be_value_def)

lemma le_value_append: "le_value (xs @ ys) = le_value xs + 256 ^ length xs * le_value ys"
  by (induction xs) (simp_all add: algebra_simps)

lemma be_value_Cons: "be_value (b # bs) = unat b * 256 ^ length bs + be_value bs"
  by (simp add: be_value_def le_value_append)

text \<open>Comparing equally long byte strings first-byte-first is comparing the big-endian numbers.\<close>

lemma be_value_less_iff:
  "length xs = length ys \<Longrightarrow> be_value xs < be_value ys \<longleftrightarrow> xs < ys"
proof (induction xs ys rule: list_induct2)
  case Nil
  then show ?case by simp
next
  case (Cons x xs y ys)
  let ?k = "256 ^ length ys :: nat"
  have bx: "be_value xs < ?k" and by': "be_value ys < ?k"
    using be_value_less [of xs] be_value_less [of ys] Cons.hyps by simp_all
  have lt: "unat a * ?k + p < unat b * ?k + q" if "unat a < unat b" "p < ?k" for a b :: u8 and p q
  proof -
    have "unat a * ?k + p < Suc (unat a) * ?k" using that(2) by simp
    also have "\<dots> \<le> unat b * ?k" using that(1) by (intro mult_le_mono1) simp
    finally show ?thesis by simp
  qed
  consider "x < y" | "x = y" | "y < x" by (metis linorder_neqE)
  then show ?case
  proof cases
    case 1
    then show ?thesis using lt [of x y "be_value xs" "be_value ys"] bx Cons.hyps
      by (simp add: be_value_Cons word_less_nat_alt)
  next
    case 2
    then show ?thesis using Cons by (simp add: be_value_Cons)
  next
    case 3
    then have "\<not> be_value (x # xs) < be_value (y # ys)"
      using lt [of y x "be_value ys" "be_value xs"] by' Cons.hyps
      by (simp add: be_value_Cons word_less_nat_alt)
    then show ?thesis using 3 by auto
  qed
qed

section \<open>Fixed-width fields\<close>

text \<open>
  \<open>u32\<close> and \<open>u64\<close> travel little-endian; a \<open>[u8; 32]\<close> is read as the 256-bit number
  with its first byte most significant, a \<open>[u8; 64]\<close> as a 512-bit number, so that
  the derived bytewise order of the arrays is the numeric order.
\<close>

definition u32_bytes :: "u32 \<Rightarrow> bytes" where
  "u32_bytes w = le_bytes 4 (unat w)"

definition u32_of :: "bytes \<Rightarrow> u32" where
  "u32_of bs = word_of_nat (le_value bs)"

definition u64_bytes :: "u64 \<Rightarrow> bytes" where
  "u64_bytes w = le_bytes 8 (unat w)"

definition u64_of :: "bytes \<Rightarrow> u64" where
  "u64_of bs = word_of_nat (le_value bs)"

definition array32_bytes :: "array32 \<Rightarrow> bytes" where
  "array32_bytes w = be_bytes 32 (unat w)"

definition array32_of :: "bytes \<Rightarrow> array32" where
  "array32_of bs = word_of_nat (be_value bs)"

definition array64_bytes :: "array64 \<Rightarrow> bytes" where
  "array64_bytes w = be_bytes 64 (unat w)"

definition array64_of :: "bytes \<Rightarrow> array64" where
  "array64_of bs = word_of_nat (be_value bs)"

lemma field_lengths [simp]:
  "length (u32_bytes a) = 4" "length (u64_bytes b) = 8"
  "length (array32_bytes c) = 32" "length (array64_bytes d) = 64"
  by (simp_all add: u32_bytes_def u64_bytes_def array32_bytes_def array64_bytes_def)

lemma unat_u32_less: "unat (w :: u32) < 4294967296"
  using unsigned_less [of w, where ?'a = nat] by simp

lemma unat_less_pow256:
  "unat (a :: u32) < 256 ^ 4" "unat (b :: u64) < 256 ^ 8"
  "unat (c :: array32) < 256 ^ 32" "unat (d :: array64) < 256 ^ 64"
  using unsigned_less [of a, where ?'a = nat] unsigned_less [of b, where ?'a = nat]
    unsigned_less [of c, where ?'a = nat] unsigned_less [of d, where ?'a = nat]
  by simp_all

lemma field_of_bytes [simp]:
  "u32_of (u32_bytes a) = a" "u64_of (u64_bytes b) = b"
  "array32_of (array32_bytes c) = c" "array64_of (array64_bytes d) = d"
  using unat_less_pow256
  by (simp_all add: u32_of_def u32_bytes_def u64_of_def u64_bytes_def array32_of_def
      array32_bytes_def array64_of_def array64_bytes_def le_value_le_bytes be_value_be_bytes)

lemma unat_of_value:
  "length bs = 4 \<Longrightarrow> unat (word_of_nat (le_value bs) :: u32) = le_value bs"
  "length bs = 8 \<Longrightarrow> unat (word_of_nat (le_value bs) :: u64) = le_value bs"
  "length bs = 32 \<Longrightarrow> unat (word_of_nat (be_value bs) :: array32) = be_value bs"
  "length bs = 64 \<Longrightarrow> unat (word_of_nat (be_value bs) :: array64) = be_value bs"
  using le_value_less [of bs] be_value_less [of bs]
  by (simp_all add: unat_of_nat take_bit_eq_mod)

lemma bytes_of_field:
  "length bs = 4 \<Longrightarrow> u32_bytes (u32_of bs) = bs"
  "length bs = 8 \<Longrightarrow> u64_bytes (u64_of bs) = bs"
  "length bs = 32 \<Longrightarrow> array32_bytes (array32_of bs) = bs"
  "length bs = 64 \<Longrightarrow> array64_bytes (array64_of bs) = bs"
  by (simp_all add: u32_of_def u32_bytes_def u64_of_def u64_bytes_def array32_of_def
      array32_bytes_def array64_of_def array64_bytes_def unat_of_value
      le_bytes_le_value be_bytes_be_value)

lemma array32_bytes_inj [simp]: "array32_bytes a = array32_bytes b \<longleftrightarrow> a = b"
  by (metis field_of_bytes(3))

lemma array32_bytes_less: "array32_bytes a < array32_bytes b \<longleftrightarrow> a < b"
  using be_value_less_iff [of "array32_bytes a" "array32_bytes b"] unat_less_pow256(3)
  by (simp add: array32_bytes_def be_value_be_bytes word_less_nat_alt)

section \<open>Slices and cursors\<close>

definition subslice :: "'a list \<Rightarrow> nat \<Rightarrow> nat \<Rightarrow> 'a list" where
  "subslice xs pos n = take n (drop pos xs)"

text \<open>
  The bounds closure of the decoders,
  \<open>pos.checked_add(n).is_none_or(|end| end > len)\<close> reports truncation.
\<close>

definition need :: "'e \<Rightarrow> nat \<Rightarrow> nat \<Rightarrow> nat \<Rightarrow> 'e + unit" where
  "need truncated len pos n = (if len < pos + n then Inl truncated else Inr ())"

lemma need_Inr_iff [result_simps]: "need e len pos n = Inr u \<longleftrightarrow> pos + n \<le> len"
  by (auto simp: need_def)

lemma need_Inl_iff [result_simps]: "need e len pos n = Inl e' \<longleftrightarrow> len < pos + n \<and> e' = e"
  by (auto simp: need_def)

lemma need_ok [wire_simps]: "pos + n \<le> len \<Longrightarrow> need e len pos n = Inr ()"
  by (simp add: need_def)

lemma length_slice: "pos + n \<le> length xs \<Longrightarrow> length (subslice xs pos n) = n"
  by (simp add: subslice_def)

lemma slice_at [wire_simps]: "length pre = pos \<Longrightarrow> length xs = n \<Longrightarrow> subslice (pre @ xs @ post) pos n = xs"
  by (simp add: subslice_def)

lemma take_slice: "take pos xs @ subslice xs pos n = take (pos + n) xs"
  by (simp add: subslice_def take_add)

lemma slice_nth: "pos < length xs \<Longrightarrow> subslice xs pos 1 = [xs ! pos]"
  by (simp add: subslice_def take_Suc_conv_app_nth Cons_nth_drop_Suc [symmetric])

lemma slice_split: "subslice xs pos (m + n) = subslice xs pos m @ subslice xs (pos + m) n"
  by (simp add: subslice_def take_add drop_drop add.commute)

lemma slice_all: "subslice xs 0 (length xs) = xs"
  by (simp add: subslice_def)

lemma slice_append_left: "pos + n \<le> length xs \<Longrightarrow> subslice (xs @ ys) pos n = subslice xs pos n"
  by (simp add: subslice_def)

lemma slice_slice: "i + m \<le> n \<Longrightarrow> subslice (subslice xs pos n) i m = subslice xs (pos + i) m"
  by (simp add: subslice_def drop_take min_def add.commute)

lemma slice_0 [simp]: "subslice xs pos 0 = []"
  by (simp add: subslice_def)

lemma slice_Suc: "pos < length xs \<Longrightarrow> subslice xs pos (Suc n) = xs ! pos # subslice xs (Suc pos) n"
  by (simp add: subslice_def flip: Cons_nth_drop_Suc)

lemma slice_here [wire_simps]: "length xs = n \<Longrightarrow> subslice (xs @ ys) 0 n = xs"
  by (simp add: subslice_def)

lemma slice_whole [wire_simps]: "length xs = n \<Longrightarrow> subslice xs 0 n = xs"
  by (simp add: subslice_def)

lemma slice_skip [wire_simps]:
  "length xs \<le> pos \<Longrightarrow> subslice (xs @ ys) pos n = subslice ys (pos - length xs) n"
  by (simp add: subslice_def)

lemma slice_skip_Cons [wire_simps]:
  "0 < pos \<Longrightarrow> subslice (x # ys) pos n = subslice ys (pos - 1) n"
  by (cases pos) (simp_all add: subslice_def)

lemma slice_join:
  "q = pos + m \<Longrightarrow> subslice xs pos m @ subslice xs q n = subslice xs pos (m + n)"
  "q = pos + m \<Longrightarrow> subslice xs pos m @ subslice xs q n @ zs = subslice xs pos (m + n) @ zs"
  by (simp_all add: slice_split)

lemma slice_cons_join:
  "pos < length xs \<Longrightarrow> q = Suc pos \<Longrightarrow> xs ! pos # subslice xs q n = subslice xs pos (Suc n)"
  "pos < length xs \<Longrightarrow> q = Suc pos \<Longrightarrow> xs ! pos # subslice xs q n @ zs = subslice xs pos (Suc n) @ zs"
  by (simp_all add: subslice_def take_Suc_conv_app_nth flip: Cons_nth_drop_Suc)

text \<open>\<open>[T]::chunks_exact(n)\<close>: whole blocks of \<open>n\<close>, a short tail is dropped.\<close>

function chunks_exact :: "nat \<Rightarrow> 'a list \<Rightarrow> 'a list list" where
  "chunks_exact n xs =
     (if n = 0 \<or> length xs < n then [] else take n xs # chunks_exact n (drop n xs))"
  by pat_completeness auto
termination
  by (relation "measure (\<lambda>(n, xs). length xs)") auto

declare chunks_exact.simps [simp del]

lemma chunks_exact_Nil [simp]: "chunks_exact n [] = []"
  by (cases n) (simp_all add: chunks_exact.simps)

lemma chunks_exact_append [simp]:
  "0 < n \<Longrightarrow> length x = n \<Longrightarrow> chunks_exact n (x @ xs) = x # chunks_exact n xs"
  by (simp add: chunks_exact.simps [of n "x @ xs"])

lemma chunks_exact_concat:
  "0 < n \<Longrightarrow> (\<And>x. x \<in> set xss \<Longrightarrow> length x = n) \<Longrightarrow> chunks_exact n (concat xss) = xss"
  by (induction xss) auto

lemma concat_chunks_exact:
  "length xs = k * n \<Longrightarrow> 0 < n \<Longrightarrow> concat (chunks_exact n xs) = xs"
proof (induction k arbitrary: xs)
  case 0
  then show ?case by simp
next
  case (Suc k)
  then have "concat (chunks_exact n (drop n xs)) = drop n xs" by simp
  with Suc.prems show ?case by (simp add: chunks_exact.simps [of n xs])
qed

lemma chunks_exact_lengths: "x \<in> set (chunks_exact n xs) \<Longrightarrow> length x = n"
proof (induction n xs rule: chunks_exact.induct)
  case (1 n xs)
  then show ?case
    by (cases "n = 0 \<or> length xs < n") (auto simp: chunks_exact.simps [of n xs])
qed

lemma length_chunks_exact: "0 < n \<Longrightarrow> length xs = k * n \<Longrightarrow> length (chunks_exact n xs) = k"
proof (induction k arbitrary: xs)
  case 0
  then show ?case by simp
next
  case (Suc k)
  then have "length (chunks_exact n (drop n xs)) = k" by simp
  with Suc.prems show ?case by (simp add: chunks_exact.simps [of n xs])
qed

section \<open>Sorting and deduplicating\<close>

lemma distinct_remdups_adj_sorted:
  fixes xs :: "'a::linorder list"
  shows "sorted xs \<Longrightarrow> distinct (remdups_adj xs)"
  by (induction xs rule: remdups_adj.induct) (auto simp: less_le_not_le)

lemma remdups_adj_sort:
  fixes xs :: "'a::linorder list"
  shows "remdups_adj (sort xs) = sorted_list_of_set (set xs)"
  by (rule sorted_distinct_set_unique) (simp_all add: distinct_remdups_adj_sorted)

lemma distinct_singleton_list:
  assumes "distinct xs" "set xs = {x}"
  shows "xs = [x]"
proof -
  have "length xs = Suc 0" using distinct_card [OF assms(1)] assms(2) by simp
  then obtain y where "xs = [y]" by (auto simp: length_Suc_conv)
  with assms(2) show ?thesis by simp
qed

section \<open>Maps\<close>

lemma in_set_map_filter: "x \<in> set (List.map_filter f xs) \<longleftrightarrow> (\<exists>y \<in> set xs. f y = Some x)"
  by (induction xs) (auto simp: map_filter_simps split: option.splits)

lemma map_le_Some: "m \<subseteq>\<^sub>m m' \<Longrightarrow> m i = Some x \<Longrightarrow> m' i = Some x"
  by (metis domI map_le_def)

lemma map_le_present: "m \<subseteq>\<^sub>m m' \<Longrightarrow> m i \<noteq> None \<Longrightarrow> m' i \<noteq> None"
  using map_le_Some [of m m' i] by auto

lemma map_le_upd: "m i = None \<Longrightarrow> m \<subseteq>\<^sub>m m(i \<mapsto> x)"
  by (auto simp: map_le_def)

section \<open>Text\<close>

text \<open>
  A Rust \<open>str\<close> is a byte string that satisfies \<open>utf8_valid\<close> (the well-formed byte
  sequences of the Unicode standard, the test of \<open>std::str::from_utf8\<close>).
  Source literals are written as HOL strings and read through \<open>ascii\<close>.
\<close>

definition ascii :: "string \<Rightarrow> bytes" where
  "ascii s = map of_char s"

definition continuation :: "u8 \<Rightarrow> bool" where
  "continuation b \<longleftrightarrow> 0x80 \<le> b \<and> b \<le> 0xBF"

fun utf8_valid :: "bytes \<Rightarrow> bool" where
  "utf8_valid [] = True"
| "utf8_valid (b # rest) =
    (if b \<le> 0x7F then utf8_valid rest
     else if 0xC2 \<le> b \<and> b \<le> 0xDF then
       (case rest of c1 # r \<Rightarrow> continuation c1 \<and> utf8_valid r | _ \<Rightarrow> False)
     else if 0xE0 \<le> b \<and> b \<le> 0xEF then
       (case rest of c1 # c2 # r \<Rightarrow>
          continuation c1 \<and> (b = 0xE0 \<longrightarrow> 0xA0 \<le> c1) \<and> (b = 0xED \<longrightarrow> c1 \<le> 0x9F)
          \<and> continuation c2 \<and> utf8_valid r
        | _ \<Rightarrow> False)
     else if 0xF0 \<le> b \<and> b \<le> 0xF4 then
       (case rest of c1 # c2 # c3 # r \<Rightarrow>
          continuation c1 \<and> (b = 0xF0 \<longrightarrow> 0x90 \<le> c1) \<and> (b = 0xF4 \<longrightarrow> c1 \<le> 0x8F)
          \<and> continuation c2 \<and> continuation c3 \<and> utf8_valid r
        | _ \<Rightarrow> False)
     else False)"

text \<open>\<open>str::split\<close> on a one-byte separator: always at least one part.\<close>

fun split_on :: "u8 \<Rightarrow> bytes \<Rightarrow> bytes list" where
  "split_on c [] = [[]]"
| "split_on c (b # bs) =
    (if b = c then [] # split_on c bs
     else (case split_on c bs of p # ps \<Rightarrow> (b # p) # ps | [] \<Rightarrow> [[b]]))"

lemma split_on_nonempty [simp]: "split_on c bs \<noteq> []"
  by (cases bs) (auto split: list.splits)

lemma split_on_no_sep: "p \<in> set (split_on c bs) \<Longrightarrow> c \<notin> set p"
  by (induction bs arbitrary: p) (auto split: list.splits if_splits)

fun join_with :: "u8 \<Rightarrow> bytes list \<Rightarrow> bytes" where
  "join_with c [] = []"
| "join_with c [p] = p"
| "join_with c (p # ps) = p @ c # join_with c ps"

lemma join_split: "join_with c (split_on c bs) = bs"
proof (induction bs)
  case Nil
  then show ?case by simp
next
  case (Cons b bs)
  obtain p ps where "split_on c bs = p # ps" by (cases "split_on c bs") auto
  with Cons show ?case by (cases ps) auto
qed

lemma split_on_sepfree: "c \<notin> set p \<Longrightarrow> split_on c p = [p]"
  by (induction p) auto

lemma split_join:
  "ps \<noteq> [] \<Longrightarrow> (\<And>p. p \<in> set ps \<Longrightarrow> c \<notin> set p) \<Longrightarrow> split_on c (join_with c ps) = ps"
proof (induction c ps rule: join_with.induct)
  case (1 c)
  then show ?case by simp
next
  case (2 c p)
  then show ?case by (simp add: split_on_sepfree)
next
  case (3 c p q qs)
  have "split_on c (p @ c # r) = p # split_on c r" if "c \<notin> set p" for p r
    using that by (induction p) auto
  with 3 show ?case by simp
qed

section \<open>Interfaces of the wire formats\<close>

text \<open>
  One field of an encoding: \<open>enc\<close> writes it, \<open>parse payload pos\<close> reads it at a
  cursor and moves past it.  The two laws are the two directions of a round
  trip for a field inside a longer payload; the lemmas lift them to counted
  vectors, which is how every format here nests fields.
\<close>

fun parse_many :: "(bytes \<Rightarrow> nat \<Rightarrow> 'e + 'a \<times> nat) \<Rightarrow> bytes \<Rightarrow> nat \<Rightarrow> nat \<Rightarrow> 'e + 'a list \<times> nat" where
  "parse_many p payload 0 pos = Inr ([], pos)"
| "parse_many p payload (Suc n) pos =
     result_bind (p payload pos) (\<lambda>(x, pos').
       result_bind (parse_many p payload n pos') (\<lambda>(xs, pos''). Inr (x # xs, pos'')))"

locale wire_item =
  fixes enc :: "'a \<Rightarrow> bytes"
    and parse :: "bytes \<Rightarrow> nat \<Rightarrow> 'e + 'a \<times> nat"
    and valid :: "'a \<Rightarrow> bool"
  assumes parse_enc: "valid x \<Longrightarrow> length pre = pos \<Longrightarrow>
      parse (pre @ enc x @ post) pos = Inr (x, pos + length (enc x))"
    and parse_sound: "parse payload pos = Inr (x, pos') \<Longrightarrow>
      valid x \<and> pos' = pos + length (enc x) \<and> pos' \<le> length payload \<and>
      subslice payload pos (length (enc x)) = enc x"
begin

lemma parse_many_enc:
  "(\<And>x. x \<in> set xs \<Longrightarrow> valid x) \<Longrightarrow> length pre = pos \<Longrightarrow>
   parse_many parse (pre @ concat (map enc xs) @ post) (length xs) pos
     = Inr (xs, pos + length (concat (map enc xs)))"
proof (induction xs arbitrary: pre pos)
  case Nil
  then show ?case by simp
next
  case (Cons x xs)
  let ?rest = "concat (map enc xs) @ post"
  have first: "parse (pre @ enc x @ ?rest) pos = Inr (x, pos + length (enc x))"
    using Cons.prems by (intro parse_enc) auto
  have "parse_many parse ((pre @ enc x) @ concat (map enc xs) @ post) (length xs) (pos + length (enc x))
      = Inr (xs, pos + length (enc x) + length (concat (map enc xs)))"
    using Cons.prems by (intro Cons.IH) auto
  with first show ?case by (simp add: add.assoc)
qed

lemma parse_many_sound:
  "parse_many parse payload n pos = Inr (xs, pos') \<Longrightarrow> pos \<le> length payload \<Longrightarrow>
   (\<forall>x \<in> set xs. valid x) \<and> length xs = n \<and> pos' = pos + length (concat (map enc xs)) \<and>
   pos' \<le> length payload \<and>
   subslice payload pos (length (concat (map enc xs))) = concat (map enc xs)"
proof (induction n arbitrary: pos xs)
  case 0
  then show ?case by (simp add: subslice_def)
next
  case (Suc n)
  from Suc.prems obtain x p1 ys where
    one: "parse payload pos = Inr (x, p1)" and
    rest: "parse_many parse payload n p1 = Inr (ys, pos')" and xs: "xs = x # ys"
    by (auto simp: result_simps)
  have x: "valid x" "p1 = pos + length (enc x)" "p1 \<le> length payload"
    "subslice payload pos (length (enc x)) = enc x"
    using parse_sound [OF one] by auto
  have ys: "\<forall>y \<in> set ys. valid y" "length ys = n"
    "pos' = p1 + length (concat (map enc ys))" "pos' \<le> length payload"
    "subslice payload p1 (length (concat (map enc ys))) = concat (map enc ys)"
    using Suc.IH [OF rest x(3)] by blast+
  have "subslice payload pos (length (enc x) + length (concat (map enc ys)))
      = enc x @ concat (map enc ys)"
    using x ys by (simp add: slice_split)
  with x ys xs show ?case by simp
qed

end

text \<open>
  A document with one byte form: decoding inverts encoding on the valid
  documents, and whatever decodes is valid and re-encodes to the same bytes.
\<close>

locale canonical_codec =
  fixes encode :: "'a \<Rightarrow> bytes"
    and decode :: "bytes \<Rightarrow> 'e + 'a"
    and valid :: "'a \<Rightarrow> bool"
  assumes decode_encode: "valid x \<Longrightarrow> decode (encode x) = Inr x"
    and decode_sound: "decode b = Inr x \<Longrightarrow> valid x \<and> encode x = b"
begin

lemma decode_iff: "decode b = Inr x \<longleftrightarrow> valid x \<and> b = encode x"
  using decode_encode decode_sound by blast

lemma encode_inj: "valid x \<Longrightarrow> valid y \<Longrightarrow> encode x = encode y \<Longrightarrow> x = y"
  by (metis decode_encode Inr_inject)

lemma decode_unique_bytes: "decode b = Inr x \<Longrightarrow> decode b' = Inr x \<Longrightarrow> b = b'"
  using decode_sound by blast

lemma rejected_iff: "(\<exists>e. decode b = Inl e) \<longleftrightarrow> (\<forall>x. valid x \<longrightarrow> encode x \<noteq> b)"
  using decode_encode decode_sound by (metis Inl_Inr_False sum.exhaust)

end

end
