(* ===== verification/Wyrd_Identity.thy ===== *)
theory Wyrd_Identity
  imports Wyrd_Prelude
begin

text \<open>
  Identifiers, signing domains and the object envelope
  (\<open>crates/wyrd-format/src/identity.rs\<close>, \<open>signing.rs\<close>, \<open>envelope.rs\<close>).

  The macro \<open>define_id!\<close> declares one newtype over \<open>RawId([u8; 32])\<close> per identifier
  world.  Here that is one type constructor \<open>'k ident\<close> with a phantom parameter,
  so the eight identifier types stay distinct while sharing their laws.
  BLAKE3's keyed derivation \<open>blake3::derive_key\<close> is a parameter \<open>dk\<close> of every
  definition that hashes.
\<close>

section \<open>Identifiers\<close>

datatype 'k ident = Ident (raw: array32)

datatype content_tag = ContentTag
datatype storage_tag = StorageTag
datatype snapshot_tag = SnapshotTag
datatype drive_tag = DriveTag
datatype device_tag = DeviceTag
datatype transition_tag = TransitionTag
datatype encryption_key_tag = EncryptionKeyTag
datatype bao_root_tag = BaoRootTag

type_synonym content_id = "content_tag ident"
type_synonym storage_id = "storage_tag ident"
type_synonym snapshot_id = "snapshot_tag ident"
type_synonym drive_id = "drive_tag ident"
type_synonym device_id = "device_tag ident"
type_synonym transition_id = "transition_tag ident"
type_synonym device_encryption_key = "encryption_key_tag ident"
type_synonym bao_root = "bao_root_tag ident"

type_synonym kdf = "string \<Rightarrow> bytes \<Rightarrow> array32"

definition ID_LEN :: nat where
  "ID_LEN = 32"

definition as_bytes :: "'k ident \<Rightarrow> bytes" where
  "as_bytes i = array32_bytes (raw i)"

definition from_bytes :: "bytes \<Rightarrow> 'k ident" where
  "from_bytes bs = Ident (array32_of bs)"

text \<open>The derived \<open>Ord\<close> of the newtypes: the order of the 32 bytes.\<close>

instantiation ident :: (type) linorder
begin

definition less_ident :: "'a ident \<Rightarrow> 'a ident \<Rightarrow> bool" where
  "less_ident x y \<longleftrightarrow> raw x < raw y"

definition less_eq_ident :: "'a ident \<Rightarrow> 'a ident \<Rightarrow> bool" where
  "less_eq_ident x y \<longleftrightarrow> raw x \<le> raw y"

instance
  by standard (auto simp: less_ident_def less_eq_ident_def ident.expand)

end

lemma ident_order_simps [simp]:
  "Ident a < Ident b \<longleftrightarrow> a < b"
  "Ident a \<le> Ident b \<longleftrightarrow> a \<le> b"
  by (simp_all add: less_ident_def less_eq_ident_def)

lemma length_as_bytes [simp]: "length (as_bytes i) = 32"
  by (simp add: as_bytes_def)

lemma from_as_bytes_retyped [simp]: "from_bytes (as_bytes (Ident w)) = Ident w"
  by (simp add: as_bytes_def from_bytes_def)

lemma from_as_bytes [simp]: "from_bytes (as_bytes i) = i"
  by (simp add: as_bytes_def from_bytes_def)

lemma as_from_bytes: "length bs = 32 \<Longrightarrow> as_bytes (from_bytes bs) = bs"
  by (simp add: as_bytes_def from_bytes_def bytes_of_field)

lemma as_bytes_inj [simp]: "as_bytes i = as_bytes j \<longleftrightarrow> i = j"
  by (metis from_as_bytes)

lemma as_bytes_less: "as_bytes i < as_bytes j \<longleftrightarrow> i < j"
  by (simp add: as_bytes_def array32_bytes_less less_ident_def)

section \<open>Object kinds and derivations\<close>

datatype object_kind = Chunk | Tree | Snapshot | Manifest

fun content_context :: "object_kind \<Rightarrow> string" where
  "content_context Chunk = ''wyrd content v1/chunk''"
| "content_context Tree = ''wyrd content v1/tree''"
| "content_context Snapshot = ''wyrd content v1/snapshot''"
| "content_context Manifest = ''wyrd content v1/manifest''"

fun kind_byte :: "object_kind \<Rightarrow> u8" where
  "kind_byte Chunk = 0x00"
| "kind_byte Tree = 0x01"
| "kind_byte Snapshot = 0x02"
| "kind_byte Manifest = 0x03"

definition kind_from_byte :: "u8 \<Rightarrow> object_kind option" where
  "kind_from_byte b =
    (if b = 0x00 then Some Chunk
     else if b = 0x01 then Some Tree
     else if b = 0x02 then Some Snapshot
     else if b = 0x03 then Some Manifest
     else None)"

definition content_derive :: "kdf \<Rightarrow> object_kind \<Rightarrow> bytes \<Rightarrow> content_id" where
  "content_derive dk kind plaintext = Ident (dk (content_context kind) plaintext)"

definition storage_derive :: "kdf \<Rightarrow> bytes \<Rightarrow> storage_id" where
  "storage_derive dk ciphertext = Ident (dk ''wyrd storage v1'' ciphertext)"

lemma kind_from_byte_byte [simp]: "kind_from_byte (kind_byte k) = Some k"
  by (cases k) (simp_all add: kind_from_byte_def)

lemma kind_from_byte_Some: "kind_from_byte b = Some k \<longleftrightarrow> b = kind_byte k"
  by (cases k) (auto simp: kind_from_byte_def)

lemma content_context_inj [simp]: "content_context k = content_context k' \<longleftrightarrow> k = k'"
  by (cases k; cases k') simp_all

section \<open>Wire counts\<close>

datatype count_overflow = CountOverflow nat

definition U32_MAX :: nat where
  "U32_MAX = 4294967295"

definition u32_len :: "nat \<Rightarrow> count_overflow + u32" where
  "u32_len len = (if len \<le> U32_MAX then Inr (word_of_nat len) else Inl (CountOverflow len))"

text \<open>
  \<open>u32_le\<close> panics on a length the wire count cannot hold (\<open>expect\<close>); that branch is
  left unspecified, so nothing can be concluded about an encoding that reaches
  it.  Every constructor of an encodable value refuses such lengths first, and
  the well-formedness predicates of the formats carry the bound.
\<close>

definition u32_le :: "nat \<Rightarrow> bytes" where
  "u32_le len = (case u32_len len of Inr w \<Rightarrow> u32_bytes w | Inl _ \<Rightarrow> undefined)"

text \<open>The decoders' \<open>u32::from_le_bytes(..) as usize\<close>.\<close>

definition read_count :: "bytes \<Rightarrow> nat \<Rightarrow> nat" where
  "read_count payload pos = unat (u32_of (subslice payload pos 4))"

lemma u32_len_fits: "len \<le> U32_MAX \<Longrightarrow> \<exists>w. u32_len len = Inr w \<and> unat w = len"
  by (simp add: u32_len_def U32_MAX_def unat_of_nat take_bit_eq_mod)

lemma length_u32_le: "len \<le> U32_MAX \<Longrightarrow> length (u32_le len) = 4"
  by (simp add: u32_le_def u32_len_def)

lemma u32_of_u32_le: "len \<le> U32_MAX \<Longrightarrow> unat (u32_of (u32_le len)) = len"
  using u32_len_fits [of len] by (auto simp: u32_le_def)

lemma read_count_bound: "read_count payload pos \<le> U32_MAX"
  using unat_u32_less [of "u32_of (subslice payload pos 4)"]
  by (simp add: read_count_def U32_MAX_def)

lemma u32_le_read_count:
  "pos + 4 \<le> length payload \<Longrightarrow> u32_le (read_count payload pos) = subslice payload pos 4"
  using unat_u32_less [of "u32_of (subslice payload pos 4)"]
  by (simp add: u32_le_def u32_len_def U32_MAX_def read_count_def bytes_of_field length_slice)

lemmas count_simps = length_u32_le u32_of_u32_le read_count_def

section \<open>Vectors of identifiers\<close>

text \<open>
  A counted id vector is written as the concatenation of the ids; the decoders
  read \<open>count * ID_LEN\<close> bytes and split them with \<open>chunks_exact(ID_LEN)\<close>.
\<close>

definition ids_bytes :: "'k ident list \<Rightarrow> bytes" where
  "ids_bytes ids = concat (map as_bytes ids)"

definition ids_of :: "bytes \<Rightarrow> 'k ident list" where
  "ids_of bs = map from_bytes (chunks_exact ID_LEN bs)"

lemma length_ids_bytes [simp]: "length (ids_bytes ids) = length ids * 32"
  by (induction ids) (simp_all add: ids_bytes_def)

lemma ids_of_ids_bytes [simp]: "ids_of (ids_bytes ids) = ids"
proof -
  have "chunks_exact 32 (concat (map as_bytes ids)) = map as_bytes ids"
    by (rule chunks_exact_concat) auto
  then show ?thesis by (simp add: ids_of_def ids_bytes_def ID_LEN_def comp_def)
qed

lemma ids_bytes_ids_of:
  assumes len: "length bs = n * 32"
  shows "ids_bytes (ids_of bs :: 'k ident list) = bs"
proof -
  have "map (as_bytes \<circ> (from_bytes :: bytes \<Rightarrow> 'k ident)) (chunks_exact 32 bs) = chunks_exact 32 bs"
    by (rule map_idI) (simp add: as_from_bytes chunks_exact_lengths)
  then show ?thesis
    using concat_chunks_exact [OF len] by (simp add: ids_of_def ids_bytes_def ID_LEN_def)
qed

lemma length_ids_of: "length bs = n * 32 \<Longrightarrow> length (ids_of bs) = n"
  by (simp add: ids_of_def ID_LEN_def length_chunks_exact)

section \<open>Signing domains and challenges\<close>

datatype sign_domain = MembershipTransitionV1 | SnapshotV1 | OwnerProofV1

fun domain_byte :: "sign_domain \<Rightarrow> u8" where
  "domain_byte MembershipTransitionV1 = 0x00"
| "domain_byte SnapshotV1 = 0x01"
| "domain_byte OwnerProofV1 = 0x02"

definition domain_from_byte :: "u8 \<Rightarrow> sign_domain option" where
  "domain_from_byte b =
    (if b = 0x00 then Some MembershipTransitionV1
     else if b = 0x01 then Some SnapshotV1
     else if b = 0x02 then Some OwnerProofV1
     else None)"

definition CHALLENGE_CONTEXT :: string where
  "CHALLENGE_CONTEXT = ''wyrd membership challenge v1''"

definition SNAPSHOT_CHALLENGE_CONTEXT :: string where
  "SNAPSHOT_CHALLENGE_CONTEXT = ''wyrd snapshot challenge v1''"

definition PROOF_CONTEXT :: string where
  "PROOF_CONTEXT = ''wyrd owner proof v1''"

definition membership_challenge :: "kdf \<Rightarrow> bytes \<Rightarrow> array32" where
  "membership_challenge dk preimage = dk CHALLENGE_CONTEXT preimage"

definition snapshot_challenge :: "kdf \<Rightarrow> bytes \<Rightarrow> array32" where
  "snapshot_challenge dk preimage = dk SNAPSHOT_CHALLENGE_CONTEXT preimage"

definition owner_proof_challenge :: "kdf \<Rightarrow> bytes \<Rightarrow> array32" where
  "owner_proof_challenge dk preimage = dk PROOF_CONTEXT preimage"

lemma domain_from_byte_Some: "domain_from_byte b = Some d \<longleftrightarrow> b = domain_byte d"
  by (cases d) (auto simp: domain_from_byte_def)

text \<open>
  All derivation contexts of the format layer, content identities, storage
  identities, transition ids, set roots and challenges, in one list: they are
  pairwise different, so no two derivations share a key.
\<close>

definition derivation_contexts :: "string list" where
  "derivation_contexts =
     map content_context [Chunk, Tree, Snapshot, Manifest] @
     [''wyrd storage v1'', ''wyrd transition id v1'', ''wyrd member set v1'',
      ''wyrd owner set v1'', ''wyrd reader set v1'',
      CHALLENGE_CONTEXT, SNAPSHOT_CHALLENGE_CONTEXT, PROOF_CONTEXT]"

section \<open>The object envelope\<close>

definition MAGIC :: bytes where
  "MAGIC = ascii ''wyrd''"

definition VERSION :: u8 where
  "VERSION = 0x00"

definition HEADER_LEN :: nat where
  "HEADER_LEN = 6"

record envelope =
  env_kind :: object_kind
  env_payload :: bytes

datatype envelope_error = EnvTruncated | BadMagic | UnknownVersion u8 | EnvUnknownKind u8

definition envelope_encode :: "envelope \<Rightarrow> bytes" where
  "envelope_encode e = MAGIC @ [VERSION] @ [kind_byte (env_kind e)] @ env_payload e"

definition envelope_decode :: "bytes \<Rightarrow> envelope_error + envelope" where
  "envelope_decode bs =
    (if length bs < HEADER_LEN then Inl EnvTruncated
     else if take 4 bs \<noteq> MAGIC then Inl BadMagic
     else if bs ! 4 \<noteq> VERSION then Inl (UnknownVersion (bs ! 4))
     else result_bind (ok_or (kind_from_byte (bs ! 5)) (EnvUnknownKind (bs ! 5))) (\<lambda>kind.
       Inr \<lparr>env_kind = kind, env_payload = drop HEADER_LEN bs\<rparr>))"

lemma MAGIC_simp: "MAGIC = [0x77, 0x79, 0x72, 0x64]"
  by (simp add: MAGIC_def ascii_def of_char_def)

lemma envelope_decode_encode: "envelope_decode (envelope_encode e) = Inr e"
  by (simp add: envelope_decode_def envelope_encode_def MAGIC_simp HEADER_LEN_def)

lemma list_head6:
  "6 \<le> length bs \<Longrightarrow> bs = take 4 bs @ [bs ! 4] @ [bs ! 5] @ drop 6 bs"
proof -
  assume len: "6 \<le> length bs"
  have "drop 4 bs = bs ! 4 # bs ! 5 # drop 6 bs"
    using len Cons_nth_drop_Suc [of 4 bs] Cons_nth_drop_Suc [of 5 bs] by simp
  then show ?thesis by (metis append_Cons append_Nil append_take_drop_id)
qed

lemma envelope_decode_sound: "envelope_decode bs = Inr e \<Longrightarrow> envelope_encode e = bs"
  using list_head6 [of bs]
  by (auto simp: envelope_decode_def envelope_encode_def HEADER_LEN_def result_simps
      kind_from_byte_Some split: if_splits)

interpretation envelope_codec: canonical_codec envelope_encode envelope_decode "\<lambda>_. True"
  by unfold_locales (auto simp: envelope_decode_encode dest: envelope_decode_sound)

end
