(* ===== verification/Wyrd_Snapshot.thy ===== *)
theory Wyrd_Snapshot
  imports Wyrd_Identity
begin

text \<open>
  Snapshots (\<open>crates/wyrd-format/src/snapshot.rs\<close>): the record, its constructor
  and flag setter, the signing message, the canonical payload and its decoder,
  the SnapshotId, and the snapshot challenge of \<open>signing.rs\<close>.
\<close>

section \<open>Data\<close>

definition RECOVERY_FLAG :: u8 where
  "RECOVERY_FLAG = 0x01"

definition RESERVED_FLAG_MASK :: u8 where
  "RESERVED_FLAG_MASK = NOT RECOVERY_FLAG"

record snapshot =
  sn_parents :: "snapshot_id list"
  sn_tree :: content_id
  sn_author :: device_id
  sn_membership :: transition_id
  sn_epoch :: u64
  sn_flags :: u8
  sn_timestamp :: u64
  sn_signature :: array64

datatype snapshot_error =
    SnTruncated
  | SnTrailingBytes
  | ReservedFlags u8
  | SnCountOverflow nat

section \<open>Construction and flags\<close>

definition snapshot_new ::
  "snapshot_id list \<Rightarrow> content_id \<Rightarrow> device_id \<Rightarrow> transition_id \<Rightarrow> u64 \<Rightarrow> u8 \<Rightarrow> u64
    \<Rightarrow> snapshot_error + snapshot" where
  "snapshot_new parents tree author membership epoch flags timestamp =
    (if flags AND RESERVED_FLAG_MASK \<noteq> 0 then Inl (ReservedFlags flags)
     else if length parents > U32_MAX then Inl (SnCountOverflow (length parents))
     else Inr \<lparr>sn_parents = parents, sn_tree = tree, sn_author = author,
               sn_membership = membership, sn_epoch = epoch, sn_flags = flags,
               sn_timestamp = timestamp, sn_signature = 0\<rparr>)"

definition snapshot_set_flags :: "snapshot \<Rightarrow> u8 \<Rightarrow> (snapshot_error + unit) \<times> snapshot" where
  "snapshot_set_flags s flags =
    (if flags AND RESERVED_FLAG_MASK \<noteq> 0 then (Inl (ReservedFlags flags), s)
     else (Inr (), s\<lparr>sn_flags := flags\<rparr>))"

definition is_recovery :: "snapshot \<Rightarrow> bool" where
  "is_recovery s \<longleftrightarrow> sn_flags s AND RECOVERY_FLAG \<noteq> 0"

section \<open>Encoding\<close>

definition snapshot_signing_preimage :: "snapshot \<Rightarrow> bytes" where
  "snapshot_signing_preimage s =
     u32_le (length (sn_parents s)) @ ids_bytes (sn_parents s) @ as_bytes (sn_tree s)
     @ as_bytes (sn_author s) @ as_bytes (sn_membership s) @ u64_bytes (sn_epoch s)
     @ [sn_flags s] @ u64_bytes (sn_timestamp s)"

definition snapshot_signing_message :: "snapshot \<Rightarrow> drive_id \<Rightarrow> bytes" where
  "snapshot_signing_message s drive =
     ascii ''wyrd snapshot v1'' @ as_bytes drive @ snapshot_signing_preimage s"

definition snapshot_encode :: "snapshot \<Rightarrow> bytes" where
  "snapshot_encode s = snapshot_signing_preimage s @ array64_bytes (sn_signature s)"

definition snapshot_decode :: "bytes \<Rightarrow> snapshot_error + snapshot" where
  "snapshot_decode payload =
    (let len = length payload; pos = 0 in
     result_bind (need SnTruncated len pos 4) (\<lambda>_.
     let parent_count = read_count payload pos;
         pos = pos + 4;
         parent_bytes = parent_count * ID_LEN in
     result_bind (need SnTruncated len pos parent_bytes) (\<lambda>_.
     let parents = ids_of (subslice payload pos parent_bytes);
         pos = pos + parent_bytes in
     result_bind (need SnTruncated len pos (32 * 3 + 8 + 1 + 8 + 64)) (\<lambda>_.
     let tree = from_bytes (subslice payload pos 32);
         author = from_bytes (subslice payload (pos + 32) 32);
         membership = from_bytes (subslice payload (pos + 64) 32);
         pos = pos + 96;
         epoch = u64_of (subslice payload pos 8);
         pos = pos + 8;
         flags = payload ! pos;
         pos = pos + 1 in
     if flags AND RESERVED_FLAG_MASK \<noteq> 0 then Inl (ReservedFlags flags)
     else
       let timestamp = u64_of (subslice payload pos 8);
           pos = pos + 8;
           signature = array64_of (subslice payload pos 64);
           pos = pos + 64 in
       if pos \<noteq> len then Inl SnTrailingBytes
       else Inr \<lparr>sn_parents = parents, sn_tree = tree, sn_author = author,
                 sn_membership = membership, sn_epoch = epoch, sn_flags = flags,
                 sn_timestamp = timestamp, sn_signature = signature\<rparr>))))"

definition snapshot_id_of :: "kdf \<Rightarrow> snapshot \<Rightarrow> snapshot_id" where
  "snapshot_id_of dk s = from_bytes (as_bytes (content_derive dk Snapshot (snapshot_encode s)))"

definition snapshot_challenge_for :: "kdf \<Rightarrow> snapshot \<Rightarrow> drive_id \<Rightarrow> array32" where
  "snapshot_challenge_for dk s drive = snapshot_challenge dk (snapshot_signing_message s drive)"

section \<open>The codec laws\<close>

definition snapshot_valid :: "snapshot \<Rightarrow> bool" where
  "snapshot_valid s \<longleftrightarrow>
     length (sn_parents s) \<le> U32_MAX \<and> sn_flags s AND RESERVED_FLAG_MASK = 0"

lemma snapshot_decode_encode: "snapshot_valid s \<Longrightarrow> snapshot_decode (snapshot_encode s) = Inr s"
  by (simp add: snapshot_decode_def snapshot_encode_def snapshot_signing_preimage_def
      snapshot_valid_def Let_def wire_simps count_simps ID_LEN_def nth_append)

lemma snapshot_decode_sound:
  assumes "snapshot_decode payload = Inr s"
  shows "snapshot_valid s \<and> snapshot_encode s = payload"
proof -
  let ?n = "read_count payload 0"
  from assms have len: "length payload = 4 + ?n * 32 + 96 + 8 + 1 + 8 + 64"
    and flags: "payload ! (4 + ?n * 32 + 104) AND RESERVED_FLAG_MASK = 0"
    and s: "s = \<lparr>sn_parents = ids_of (subslice payload 4 (?n * 32)),
      sn_tree = from_bytes (subslice payload (4 + ?n * 32) 32),
      sn_author = from_bytes (subslice payload (4 + ?n * 32 + 32) 32),
      sn_membership = from_bytes (subslice payload (4 + ?n * 32 + 64) 32),
      sn_epoch = u64_of (subslice payload (4 + ?n * 32 + 96) 8),
      sn_flags = payload ! (4 + ?n * 32 + 104),
      sn_timestamp = u64_of (subslice payload (4 + ?n * 32 + 105) 8),
      sn_signature = array64_of (subslice payload (4 + ?n * 32 + 113) 64)\<rparr>"
    by (auto simp: snapshot_decode_def Let_def result_simps ID_LEN_def split: if_splits)
  have parents: "length (sn_parents s) = ?n" "ids_bytes (sn_parents s) = subslice payload 4 (?n * 32)"
    using len by (simp_all add: s length_ids_of ids_bytes_ids_of length_slice)
  have "snapshot_encode s = subslice payload 0 (length payload)"
    using len parents
    by (simp add: snapshot_encode_def snapshot_signing_preimage_def u32_le_read_count)
      (simp add: s as_from_bytes bytes_of_field length_slice slice_join slice_cons_join)
  then show ?thesis
    using flags parents read_count_bound by (simp add: slice_all snapshot_valid_def s)
qed

interpretation snapshot_codec: canonical_codec snapshot_encode snapshot_decode snapshot_valid
  by unfold_locales (simp_all add: snapshot_decode_encode snapshot_decode_sound)

section \<open>Properties\<close>

text \<open>
  Snapshots have one byte form: a payload decodes to a snapshot exactly when
  the snapshot is well-formed (an encodable number of parents, no reserved flag
  bits) and the payload is its encoding.
\<close>

theorem snapshot_canonical:
  "snapshot_decode payload = Inr s \<longleftrightarrow> snapshot_valid s \<and> payload = snapshot_encode s"
  by (rule snapshot_codec.decode_iff)

end
