(* ===== verification/Wyrd_Transition.thy ===== *)
theory Wyrd_Transition
  imports Wyrd_Identity
begin

text \<open>
  Membership transition documents (\<open>crates/wyrd-format/src/membership.rs\<close>): set
  roots, changes, the transition record with its validated mutators, the
  signing message, the transition id, and the canonical encoding with its
  decoder.
\<close>

section \<open>Data\<close>

definition MEMBER_SET_CONTEXT :: string where
  "MEMBER_SET_CONTEXT = ''wyrd member set v1''"

definition OWNER_SET_CONTEXT :: string where
  "OWNER_SET_CONTEXT = ''wyrd owner set v1''"

definition READER_SET_CONTEXT :: string where
  "READER_SET_CONTEXT = ''wyrd reader set v1''"

record admission =
  adm_device :: device_id
  adm_encryption_key :: device_encryption_key

datatype change =
    Admit admission
  | Remove device_id
  | Rotate
  | SetOwners "device_id list"
  | AdmitReader admission

fun change_tag :: "change \<Rightarrow> u8" where
  "change_tag (Admit _) = 0x00"
| "change_tag (Remove _) = 0x01"
| "change_tag Rotate = 0x02"
| "change_tag (SetOwners _) = 0x03"
| "change_tag (AdmitReader _) = 0x04"

record membership_transition =
  mt_epoch :: u64
  mt_prev :: "transition_id option"
  mt_resolves :: "transition_id list"
  mt_changes :: "change list"
  mt_members_root :: array32
  mt_owners_root :: array32
  mt_readers_root :: array32
  mt_author :: device_id
  mt_signature :: array64

datatype membership_error =
    MtTruncated
  | MtTrailingBytes
  | InvalidPrevFlag u8
  | UnknownChangeTag u8
  | MtCountOverflow nat

section \<open>Set roots\<close>

definition set_root :: "kdf \<Rightarrow> string \<Rightarrow> device_id list \<Rightarrow> membership_error + array32" where
  "set_root dk context devices =
    (let sorted = remdups_adj (sort devices) in
     if length sorted > U32_MAX then Inl (MtCountOverflow (length sorted))
     else Inr (dk context (u32_le (length sorted) @ ids_bytes sorted)))"

section \<open>Construction\<close>

text \<open>The wire-count guards of \<open>check_counts\<close>, in source order; the loop reports the first offender.\<close>

fun check_owner_counts :: "change list \<Rightarrow> membership_error + unit" where
  "check_owner_counts [] = Inr ()"
| "check_owner_counts (SetOwners owners # changes) =
     (if length owners > U32_MAX then Inl (MtCountOverflow (length owners))
      else check_owner_counts changes)"
| "check_owner_counts (_ # changes) = check_owner_counts changes"

definition check_counts :: "transition_id list \<Rightarrow> change list \<Rightarrow> membership_error + unit" where
  "check_counts resolves changes =
    (if length resolves > U32_MAX then Inl (MtCountOverflow (length resolves))
     else if length changes > U32_MAX then Inl (MtCountOverflow (length changes))
     else check_owner_counts changes)"

definition transition_new ::
  "u64 \<Rightarrow> transition_id option \<Rightarrow> transition_id list \<Rightarrow> change list \<Rightarrow> array32 \<Rightarrow> array32 \<Rightarrow> array32
    \<Rightarrow> device_id \<Rightarrow> membership_error + membership_transition" where
  "transition_new epoch prev resolves changes members_root owners_root readers_root author =
    result_bind (check_counts resolves changes) (\<lambda>_.
      Inr \<lparr>mt_epoch = epoch, mt_prev = prev, mt_resolves = resolves, mt_changes = changes,
           mt_members_root = members_root, mt_owners_root = owners_root,
           mt_readers_root = readers_root, mt_author = author, mt_signature = 0\<rparr>)"

definition with_resolves ::
  "membership_transition \<Rightarrow> transition_id list \<Rightarrow> membership_error + membership_transition" where
  "with_resolves t resolves =
    result_bind (check_counts resolves (mt_changes t)) (\<lambda>_. Inr (t\<lparr>mt_resolves := resolves\<rparr>))"

definition with_changes ::
  "membership_transition \<Rightarrow> change list \<Rightarrow> membership_error + membership_transition" where
  "with_changes t changes =
    result_bind (check_counts (mt_resolves t) changes) (\<lambda>_. Inr (t\<lparr>mt_changes := changes\<rparr>))"

section \<open>Encoding\<close>

fun change_body :: "change \<Rightarrow> bytes" where
  "change_body (Admit a) = as_bytes (adm_device a) @ as_bytes (adm_encryption_key a)"
| "change_body (Remove d) = as_bytes d"
| "change_body Rotate = []"
| "change_body (SetOwners owners) = u32_le (length owners) @ ids_bytes owners"
| "change_body (AdmitReader a) = as_bytes (adm_device a) @ as_bytes (adm_encryption_key a)"

definition change_bytes :: "change \<Rightarrow> bytes" where
  "change_bytes c = change_tag c # change_body c"

definition prev_bytes :: "transition_id option \<Rightarrow> bytes" where
  "prev_bytes prev = (case prev of Some i \<Rightarrow> 0x01 # as_bytes i | None \<Rightarrow> [0x00])"

definition transition_signing_preimage :: "membership_transition \<Rightarrow> bytes" where
  "transition_signing_preimage t =
     prev_bytes (mt_prev t)
     @ u32_le (length (mt_resolves t)) @ ids_bytes (mt_resolves t)
     @ u32_le (length (mt_changes t)) @ concat (map change_bytes (mt_changes t))
     @ array32_bytes (mt_members_root t) @ array32_bytes (mt_owners_root t)
     @ array32_bytes (mt_readers_root t) @ as_bytes (mt_author t) @ u64_bytes (mt_epoch t)"

definition transition_signing_message :: "membership_transition \<Rightarrow> drive_id \<Rightarrow> bytes" where
  "transition_signing_message t drive =
     ascii ''wyrd membership v1'' @ as_bytes drive @ transition_signing_preimage t"

definition transition_canonical_bytes :: "membership_transition \<Rightarrow> bytes" where
  "transition_canonical_bytes t =
     transition_signing_preimage t @ array64_bytes (mt_signature t)"

definition transition_id_of :: "kdf \<Rightarrow> membership_transition \<Rightarrow> transition_id" where
  "transition_id_of dk t =
     from_bytes (array32_bytes (dk ''wyrd transition id v1''
       (transition_signing_preimage t @ array64_bytes (mt_signature t))))"

definition membership_challenge_for :: "kdf \<Rightarrow> membership_transition \<Rightarrow> drive_id \<Rightarrow> array32" where
  "membership_challenge_for dk t drive = membership_challenge dk (transition_signing_message t drive)"

section \<open>Decoding\<close>

definition parse_prev :: "bytes \<Rightarrow> nat \<Rightarrow> membership_error + transition_id option \<times> nat" where
  "parse_prev bs pos =
    (let len = length bs in
     result_bind (need MtTruncated len pos 1) (\<lambda>_.
     result_bind
       (if bs ! pos = 0x00 then Inr None
        else if bs ! pos = 0x01 then
          result_bind (need MtTruncated len (pos + 1) 32) (\<lambda>_.
            Inr (Some (from_bytes (subslice bs (pos + 1) 32))))
        else Inl (InvalidPrevFlag (bs ! pos)))
       (\<lambda>prev. Inr (prev, pos + 1 + (if prev = None then 0 else 1) * 32))))"

definition parse_admission :: "bytes \<Rightarrow> nat \<Rightarrow> membership_error + admission \<times> nat" where
  "parse_admission bs pos =
    result_bind (need MtTruncated (length bs) pos 64) (\<lambda>_.
      Inr (\<lparr>adm_device = from_bytes (subslice bs pos 32),
            adm_encryption_key = from_bytes (subslice bs (pos + 32) 32)\<rparr>, pos + 64))"

definition parse_ids :: "bytes \<Rightarrow> nat \<Rightarrow> membership_error + 'k ident list \<times> nat" where
  "parse_ids bs pos =
    (let len = length bs in
     result_bind (need MtTruncated len pos 4) (\<lambda>_.
     let count = read_count bs pos;
         pos = pos + 4;
         byte_count = count * ID_LEN in
     result_bind (need MtTruncated len pos byte_count) (\<lambda>_.
       Inr (ids_of (subslice bs pos byte_count), pos + byte_count))))"

definition parse_change :: "bytes \<Rightarrow> nat \<Rightarrow> membership_error + change \<times> nat" where
  "parse_change bs pos =
    (let len = length bs in
     result_bind (need MtTruncated len pos 1) (\<lambda>_.
     let tag = bs ! pos; pos = pos + 1 in
     if tag = 0x00 then
       result_bind (parse_admission bs pos) (\<lambda>(a, pos). Inr (Admit a, pos))
     else if tag = 0x01 then
       result_bind (need MtTruncated len pos 32) (\<lambda>_.
         Inr (Remove (from_bytes (subslice bs pos 32)), pos + 32))
     else if tag = 0x02 then Inr (Rotate, pos)
     else if tag = 0x03 then
       result_bind (parse_ids bs pos) (\<lambda>(owners, pos). Inr (SetOwners owners, pos))
     else if tag = 0x04 then
       result_bind (parse_admission bs pos) (\<lambda>(a, pos). Inr (AdmitReader a, pos))
     else Inl (UnknownChangeTag tag)))"

definition transition_from_canonical_bytes ::
  "bytes \<Rightarrow> membership_error + membership_transition" where
  "transition_from_canonical_bytes bs =
    (let len = length bs in
     result_bind (parse_prev bs 0) (\<lambda>(prev, pos).
     result_bind (parse_ids bs pos) (\<lambda>(resolves, pos).
     result_bind (need MtTruncated len pos 4) (\<lambda>_.
     let changes_count = read_count bs pos; pos = pos + 4 in
     result_bind (parse_many parse_change bs changes_count pos) (\<lambda>(changes, pos).
     result_bind (need MtTruncated len pos (32 + 32 + 32 + 32 + 8 + 64)) (\<lambda>_.
     let members_root = array32_of (subslice bs pos 32);
         owners_root = array32_of (subslice bs (pos + 32) 32);
         readers_root = array32_of (subslice bs (pos + 64) 32);
         author = from_bytes (subslice bs (pos + 96) 32);
         epoch = u64_of (subslice bs (pos + 128) 8);
         pos = pos + 136;
         signature = array64_of (subslice bs pos 64);
         pos = pos + 64 in
     if pos \<noteq> len then Inl MtTrailingBytes
     else Inr \<lparr>mt_epoch = epoch, mt_prev = prev, mt_resolves = resolves, mt_changes = changes,
               mt_members_root = members_root, mt_owners_root = owners_root,
               mt_readers_root = readers_root, mt_author = author,
               mt_signature = signature\<rparr>))))))"

section \<open>The codec laws\<close>

fun change_valid :: "change \<Rightarrow> bool" where
  "change_valid (SetOwners owners) = (length owners \<le> U32_MAX)"
| "change_valid _ = True"

definition transition_valid :: "membership_transition \<Rightarrow> bool" where
  "transition_valid t \<longleftrightarrow>
     length (mt_resolves t) \<le> U32_MAX \<and> length (mt_changes t) \<le> U32_MAX
     \<and> (\<forall>c \<in> set (mt_changes t). change_valid c)"

definition ids_field :: "'k ident list \<Rightarrow> bytes" where
  "ids_field ids = u32_le (length ids) @ ids_bytes ids"

interpretation prev_item: wire_item prev_bytes parse_prev "\<lambda>_. True"
proof (unfold_locales, goal_cases)
  case (1 x pre pos post)
  then show ?case
    by (cases x)
      (auto simp: parse_prev_def prev_bytes_def Let_def need_def subslice_def nth_append)
next
  case (2 payload pos x pos')
  then show ?case
    using slice_Suc [of pos payload 0] slice_Suc [of pos payload 32]
    by (auto simp: parse_prev_def prev_bytes_def Let_def result_simps as_from_bytes length_slice
        split: if_splits)
qed

interpretation ids_item: wire_item ids_field parse_ids "\<lambda>ids. length ids \<le> U32_MAX"
proof (unfold_locales, goal_cases)
  case (1 x pre pos post)
  then show ?case
    by (simp add: parse_ids_def ids_field_def Let_def need_def wire_simps count_simps ID_LEN_def)
next
  case (2 payload pos x pos')
  let ?n = "read_count payload pos"
  from 2 have len: "pos + 4 + ?n * 32 \<le> length payload" and pos': "pos' = pos + 4 + ?n * 32"
    and x: "x = ids_of (subslice payload (pos + 4) (?n * 32))"
    by (auto simp: parse_ids_def Let_def result_simps ID_LEN_def)
  have "length x = ?n" "ids_bytes x = subslice payload (pos + 4) (?n * 32)"
    using len by (simp_all add: x length_ids_of ids_bytes_ids_of length_slice)
  then have enc: "ids_field x = subslice payload pos (4 + ?n * 32)"
    using len by (simp add: ids_field_def u32_le_read_count slice_split)
  moreover have "length (ids_field x) = 4 + ?n * 32"
    using enc len by (simp add: length_slice)
  ultimately show ?case
    using len pos' \<open>length x = ?n\<close> read_count_bound [of payload pos] by simp
qed

lemma parse_admission_at:
  "length pre = pos \<Longrightarrow>
   parse_admission (pre @ as_bytes (adm_device a) @ as_bytes (adm_encryption_key a) @ post) pos
     = Inr (a, pos + 64)"
  by (simp add: parse_admission_def need_def wire_simps)

lemma parse_admission_sound:
  "parse_admission bs pos = Inr (a, pos') \<Longrightarrow>
   pos' = pos + 64 \<and> pos + 64 \<le> length bs \<and>
   as_bytes (adm_device a) @ as_bytes (adm_encryption_key a) = subslice bs pos 64"
  by (auto simp: parse_admission_def result_simps as_from_bytes length_slice slice_join)

lemma change_bytes_parts: "change_bytes c = [change_tag c] @ change_body c"
  by (simp add: change_bytes_def)

interpretation change_item: wire_item change_bytes parse_change change_valid
proof (unfold_locales, goal_cases)
  case (1 c pre pos post)
  have nth: "(pre @ change_bytes c @ post) ! pos = change_tag c"
    using 1 by (simp add: change_bytes_def nth_append)
  have shift: "pre @ change_bytes c @ post = (pre @ [change_tag c]) @ change_body c @ post"
    by (simp add: change_bytes_def)
  have pos1: "length (pre @ [change_tag c]) = pos + 1" using 1 by simp
  have here: "need MtTruncated (length (pre @ change_bytes c @ post)) pos 1 = Inr ()"
    using 1 by (simp add: need_def change_bytes_def)
  show ?case
  proof (cases c)
    case (SetOwners owners)
    have "parse_ids ((pre @ [change_tag c]) @ ids_field owners @ post) (pos + 1)
        = Inr (owners, pos + 1 + length (ids_field owners))"
      using 1 SetOwners pos1 by (intro ids_item.parse_enc) auto
    with here nth shift SetOwners show ?thesis
      by (simp add: parse_change_def Let_def ids_field_def change_bytes_def)
  qed (use 1 here nth in \<open>simp_all add: parse_change_def Let_def parse_admission_def need_def
        change_bytes_def wire_simps subslice_def\<close>)
next
  case (2 payload pos c pos')
  then have one: "pos + 1 \<le> length payload"
    by (auto simp: parse_change_def Let_def result_simps)
  have tag: "change_tag c = payload ! pos" and
    body: "change_valid c \<and> pos' = pos + 1 + length (change_body c) \<and> pos' \<le> length payload \<and>
      subslice payload (pos + 1) (length (change_body c)) = change_body c"
    using 2
    by (auto simp: parse_change_def Let_def result_simps ids_field_def as_from_bytes length_slice
        dest!: parse_admission_sound ids_item.parse_sound split: if_splits prod.splits)
  have "subslice payload pos (1 + length (change_body c)) = change_bytes c"
    using one tag body slice_Suc [of pos payload "length (change_body c)"]
    by (simp add: change_bytes_def)
  with body show ?case by (simp add: change_bytes_def)
qed

lemma transition_decode_encode:
  assumes "transition_valid t"
  shows "transition_from_canonical_bytes (transition_canonical_bytes t) = Inr t"
proof -
  let ?pv = "prev_bytes (mt_prev t)" and ?rs = "ids_field (mt_resolves t)"
  let ?cn = "u32_le (length (mt_changes t))" and ?cs = "concat (map change_bytes (mt_changes t))"
  let ?tail = "array32_bytes (mt_members_root t) @ array32_bytes (mt_owners_root t)
     @ array32_bytes (mt_readers_root t) @ as_bytes (mt_author t) @ u64_bytes (mt_epoch t)
     @ array64_bytes (mt_signature t)"
  define bs where "bs = ?pv @ ?rs @ ?cn @ ?cs @ ?tail"
  define p1 where "p1 = length ?pv"
  define p2 where "p2 = p1 + length ?rs"
  define p3 where "p3 = p2 + 4 + length ?cs"
  have bs: "transition_canonical_bytes t = bs"
    by (simp add: transition_canonical_bytes_def transition_signing_preimage_def ids_field_def bs_def)
  have counts: "length (mt_resolves t) \<le> U32_MAX" "length (mt_changes t) \<le> U32_MAX"
    "\<And>c. c \<in> set (mt_changes t) \<Longrightarrow> change_valid c"
    using assms by (auto simp: transition_valid_def)
  have prev: "parse_prev bs 0 = Inr (mt_prev t, p1)"
    using prev_item.parse_enc [where x = "mt_prev t" and pre = "[]" and post = "?rs @ ?cn @ ?cs @ ?tail"]
    by (simp add: bs_def p1_def)
  have resolves: "parse_ids bs p1 = Inr (mt_resolves t, p2)"
    using ids_item.parse_enc [of "mt_resolves t" ?pv p1 "?cn @ ?cs @ ?tail"] counts
    by (simp add: bs_def p1_def p2_def)
  have count: "read_count bs p2 = length (mt_changes t)"
    using counts by (simp add: bs_def p1_def p2_def wire_simps count_simps)
  have changes: "parse_many parse_change bs (length (mt_changes t)) (p2 + 4) = Inr (mt_changes t, p3)"
    using change_item.parse_many_enc [of "mt_changes t" "?pv @ ?rs @ ?cn" "p2 + 4" ?tail] counts
    by (simp add: bs_def p1_def p2_def p3_def length_u32_le)
  have len: "length bs = p3 + 200"
    using counts by (simp add: bs_def p1_def p2_def p3_def length_u32_le)
  have tail: "subslice bs (p3 + i) n = subslice ?tail i n" for i n
    using counts by (simp add: bs_def p1_def p2_def p3_def wire_simps length_u32_le)
  have fits: "p2 + 4 \<le> length bs" by (simp add: len p3_def)
  show ?thesis
    using prev resolves count changes fits tail [of 0]
    by (simp add: bs transition_from_canonical_bytes_def Let_def need_def tail len)
      (simp add: wire_simps)
qed

lemma transition_decode_sound:
  assumes "transition_from_canonical_bytes bs = Inr t"
  shows "transition_valid t \<and> transition_canonical_bytes t = bs"
proof -
  from assms obtain p1 p2 p3 where
    prev: "parse_prev bs 0 = Inr (mt_prev t, p1)" and
    resolves: "parse_ids bs p1 = Inr (mt_resolves t, p2)" and
    len4: "p2 + 4 \<le> length bs" and
    changes: "parse_many parse_change bs (read_count bs p2) (p2 + 4) = Inr (mt_changes t, p3)" and
    len: "200 + p3 = length bs" and
    roots: "mt_members_root t = array32_of (subslice bs p3 32)"
      "mt_owners_root t = array32_of (subslice bs (p3 + 32) 32)"
      "mt_readers_root t = array32_of (subslice bs (p3 + 64) 32)"
      "mt_author t = from_bytes (subslice bs (p3 + 96) 32)"
      "mt_epoch t = u64_of (subslice bs (p3 + 128) 8)"
      "mt_signature t = array64_of (subslice bs (p3 + 136) 64)"
    by (auto simp: transition_from_canonical_bytes_def Let_def result_simps split: if_splits)
  let ?cs = "concat (map change_bytes (mt_changes t))"
  have 1: "p1 = length (prev_bytes (mt_prev t))" "subslice bs 0 p1 = prev_bytes (mt_prev t)"
    using prev_item.parse_sound [OF prev] by auto
  have 2: "length (mt_resolves t) \<le> U32_MAX" "p2 = p1 + length (ids_field (mt_resolves t))"
    "subslice bs p1 (length (ids_field (mt_resolves t))) = ids_field (mt_resolves t)"
    using ids_item.parse_sound [OF resolves] by auto
  have 3: "\<forall>c \<in> set (mt_changes t). change_valid c" "length (mt_changes t) = read_count bs p2"
    "p3 = p2 + 4 + length ?cs" "subslice bs (p2 + 4) (length ?cs) = ?cs"
    using change_item.parse_many_sound [OF changes len4] by auto
  have tail: "array32_bytes (mt_members_root t) @ array32_bytes (mt_owners_root t)
     @ array32_bytes (mt_readers_root t) @ as_bytes (mt_author t) @ u64_bytes (mt_epoch t)
     @ array64_bytes (mt_signature t) = subslice bs p3 200"
    using len by (simp add: roots as_from_bytes bytes_of_field length_slice slice_join)
  have "transition_canonical_bytes t =
      subslice bs 0 p1 @ subslice bs p1 (p2 - p1) @ subslice bs p2 4
      @ subslice bs (p2 + 4) (p3 - (p2 + 4)) @ subslice bs p3 200"
    using 1 2 3 tail len4
    by (simp add: transition_canonical_bytes_def transition_signing_preimage_def ids_field_def
        u32_le_read_count)
  also have "\<dots> = subslice bs 0 (length bs)"
    using 2(2) 3(3) by (simp add: slice_join flip: len) (simp add: ac_simps)
  finally show ?thesis
    using 2(1) 3(1,2) read_count_bound [of bs p2] by (simp add: slice_all transition_valid_def)
qed

interpretation transition_codec:
  canonical_codec transition_canonical_bytes transition_from_canonical_bytes transition_valid
  by unfold_locales (simp_all add: transition_decode_encode transition_decode_sound)

section \<open>Facts about ids, constructors and set roots\<close>

lemma transition_id_of_alt:
  "transition_id_of dk t = Ident (dk ''wyrd transition id v1'' (transition_canonical_bytes t))"
  by (simp add: transition_id_of_def transition_canonical_bytes_def from_bytes_def)

lemma check_owner_counts_iff:
  "check_owner_counts cs = Inr u \<longleftrightarrow> (\<forall>c \<in> set cs. change_valid c)"
  by (induction cs rule: check_owner_counts.induct) auto

lemma check_counts_iff:
  "check_counts rs cs = Inr u \<longleftrightarrow>
     length rs \<le> U32_MAX \<and> length cs \<le> U32_MAX \<and> (\<forall>c \<in> set cs. change_valid c)"
  by (auto simp: check_counts_def check_owner_counts_iff)

lemma set_root_sets:
  "set_root dk ctx ds =
    (let sorted = sorted_list_of_set (set ds) in
     if length sorted > U32_MAX then Inl (MtCountOverflow (length sorted))
     else Inr (dk ctx (u32_le (length sorted) @ ids_bytes sorted)))"
  by (simp add: set_root_def remdups_adj_sort)

section \<open>Properties\<close>

text \<open>
  C39. Membership transitions have one byte form: bytes decode to a transition
  exactly when its counts fit the wire and the bytes are its canonical encoding.
\<close>

theorem transition_canonical:
  "transition_from_canonical_bytes bs = Inr t \<longleftrightarrow>
     transition_valid t \<and> bs = transition_canonical_bytes t"
  by (rule transition_codec.decode_iff)

end
