(* ===== verification/Wyrd_Members.thy ===== *)
theory Wyrd_Members
  imports Wyrd_Transition
begin

text \<open>
  Membership state and per-link validation
  (\<open>crates/wyrd-sync/src/membership/state.rs\<close> and \<open>validate.rs\<close>): the member, owner
  and reader sets, change application, signatures over the pinned challenge, the
  intrinsic checks, the genesis shape, owner authority and the derive-the-roots
  rule.

  The curve library \<open>secp256k1\<close> is a parameter: a record of the functions the code
  calls.
\<close>

section \<open>Cryptography the code calls\<close>

record crypto =
  cr_derive_key :: kdf
  cr_xonly_from_slice :: "array32 \<Rightarrow> bool"
  cr_signature_from_slice :: "array64 \<Rightarrow> bool"
  cr_verify_schnorr :: "array64 \<Rightarrow> array32 \<Rightarrow> array32 \<Rightarrow> bool"
  cr_sign_schnorr :: "array32 \<Rightarrow> array32 \<Rightarrow> array64"

section \<open>State and change application\<close>

record membership_state =
  st_members :: "device_id set"
  st_owners :: "device_id set"
  st_readers :: "device_id set"
  st_encryption_keys :: "device_id \<rightharpoonup> device_encryption_key"

definition state_default :: membership_state where
  "state_default = \<lparr>st_members = {}, st_owners = {}, st_readers = {}, st_encryption_keys = Map.empty\<rparr>"

datatype apply_error =
    AdmitExistingMember
  | AdmitExistingReaderAsMember
  | AdmitReaderExisting
  | RemoveThenAdmitSameDevice
  | RemoveUnknownMember
  | RemovingOwner
  | DanglingOwner
  | SetOwnersNotSingleton

definition encryption_key_of :: "membership_state \<Rightarrow> device_id \<Rightarrow> device_encryption_key option" where
  "encryption_key_of state device = st_encryption_keys state device"

fun removed_device :: "change \<Rightarrow> device_id option" where
  "removed_device (Remove d) = Some d"
| "removed_device _ = None"

fun admitted_device :: "change \<Rightarrow> device_id option" where
  "admitted_device (Admit a) = Some (adm_device a)"
| "admitted_device (AdmitReader a) = Some (adm_device a)"
| "admitted_device _ = None"

text \<open>One round of the application loop.\<close>

fun apply_change :: "membership_state \<Rightarrow> change \<Rightarrow> apply_error + membership_state" where
  "apply_change st (Admit a) =
    (if adm_device a \<in> st_members st then Inl AdmitExistingMember
     else if adm_device a \<in> st_readers st then Inl AdmitExistingReaderAsMember
     else Inr (st\<lparr>st_members := insert (adm_device a) (st_members st),
                  st_encryption_keys := (st_encryption_keys st)(adm_device a \<mapsto> adm_encryption_key a)\<rparr>))"
| "apply_change st (AdmitReader a) =
    (if adm_device a \<in> st_members st \<or> adm_device a \<in> st_readers st then Inl AdmitReaderExisting
     else Inr (st\<lparr>st_readers := insert (adm_device a) (st_readers st),
                  st_encryption_keys := (st_encryption_keys st)(adm_device a \<mapsto> adm_encryption_key a)\<rparr>))"
| "apply_change st (Remove d) =
    (let was_member = d \<in> st_members st;
         was_reader = d \<in> st_readers st;
         st = st\<lparr>st_members := st_members st - {d}, st_readers := st_readers st - {d}\<rparr> in
     if \<not> was_member \<and> \<not> was_reader then Inl RemoveUnknownMember
     else
       let st = st\<lparr>st_encryption_keys := (st_encryption_keys st)(d := None)\<rparr> in
       if d \<in> st_owners st then
         (if card (st_owners st) > 1 then Inl RemovingOwner
          else Inr (st\<lparr>st_owners := st_owners st - {d}\<rparr>))
       else Inr st)"
| "apply_change st Rotate = Inr st"
| "apply_change st (SetOwners owners) =
    (if length owners \<noteq> 1 then Inl SetOwnersNotSingleton
     else Inr (st\<lparr>st_owners := set owners\<rparr>))"

fun apply_changes :: "membership_state \<Rightarrow> change list \<Rightarrow> apply_error + membership_state" where
  "apply_changes st [] = Inr st"
| "apply_changes st (c # cs) = result_bind (apply_change st c) (\<lambda>st. apply_changes st cs)"

definition apply_transition :: "membership_state \<Rightarrow> change list \<Rightarrow> apply_error + membership_state" where
  "apply_transition state changes =
    (let removed = set (List.map_filter removed_device changes) in
     if \<exists>d \<in> set (List.map_filter admitted_device changes). d \<in> removed
     then Inl RemoveThenAdmitSameDevice
     else result_bind (apply_changes state changes) (\<lambda>next.
       if \<not> st_owners next \<subseteq> st_members next then Inl DanglingOwner else Inr next))"

section \<open>Validation\<close>

datatype invalid_reason =
    EpochZero
  | GenesisWithPrev
  | MissingPrev
  | PrevWrongEpoch
  | EmptyChanges
  | BadSignature
  | AuthorNotOwner
  | BadChanges
  | AdmitRetiredDevice
  | RootMismatch
  | BadGenesis
  | ResolvesWithoutConflict
  | InvalidResolvesEntry
  | DuplicateResolves

definition sign_transition ::
  "crypto \<Rightarrow> array32 \<Rightarrow> drive_id \<Rightarrow> membership_transition \<Rightarrow> membership_transition" where
  "sign_transition cr sk drive t =
    (let challenge = membership_challenge_for (cr_derive_key cr) t drive in
     t\<lparr>mt_signature := cr_sign_schnorr cr sk challenge\<rparr>)"

definition signature_verifies :: "crypto \<Rightarrow> drive_id \<Rightarrow> membership_transition \<Rightarrow> bool" where
  "signature_verifies cr drive t =
    (let challenge = membership_challenge_for (cr_derive_key cr) t drive in
     if cr_xonly_from_slice cr (raw (mt_author t)) \<and> cr_signature_from_slice cr (mt_signature t)
     then cr_verify_schnorr cr (mt_signature t) challenge (raw (mt_author t))
     else False)"

text \<open>The encryption key an admission registers must be a curve point.\<close>

fun change_keys_ok :: "crypto \<Rightarrow> change \<Rightarrow> bool" where
  "change_keys_ok cr (Admit a) = cr_xonly_from_slice cr (raw (adm_encryption_key a))"
| "change_keys_ok cr (AdmitReader a) = cr_xonly_from_slice cr (raw (adm_encryption_key a))"
| "change_keys_ok cr _ = True"

definition check_intrinsic :: "crypto \<Rightarrow> membership_transition \<Rightarrow> invalid_reason + unit" where
  "check_intrinsic cr t =
    (if mt_epoch t = 0 then Inl EpochZero
     else if mt_epoch t = 1 \<and> mt_prev t \<noteq> None then Inl GenesisWithPrev
     else if mt_epoch t \<noteq> 1 \<and> mt_prev t = None then Inl MissingPrev
     else if mt_prev t = None \<and> mt_resolves t \<noteq> [] then Inl ResolvesWithoutConflict
     else if mt_changes t = [] then Inl EmptyChanges
     else if \<not> list_all (change_keys_ok cr) (mt_changes t) then Inl BadChanges
     else Inr ())"

definition check_genesis_shape :: "membership_state \<Rightarrow> invalid_reason + unit" where
  "check_genesis_shape state =
    (let singleton = card (st_members state) = 1 \<and> card (st_owners state) = 1
           \<and> st_members state = st_owners state in
     if singleton \<and> st_readers state = {} then Inr () else Inl BadGenesis)"

definition check_authority :: "membership_state \<Rightarrow> membership_transition \<Rightarrow> invalid_reason + unit" where
  "check_authority prev_state t =
    (if mt_author t \<in> st_owners prev_state then Inr () else Inl AuthorNotOwner)"

definition root_matches :: "kdf \<Rightarrow> string \<Rightarrow> device_id set \<Rightarrow> array32 \<Rightarrow> bool" where
  "root_matches dk context devices claimed =
    (case set_root dk context (sorted_list_of_set devices) of
       Inl _ \<Rightarrow> False
     | Inr root \<Rightarrow> root = claimed)"

definition derive_next ::
  "crypto \<Rightarrow> membership_state \<Rightarrow> membership_transition \<Rightarrow> invalid_reason + membership_state" where
  "derive_next cr prev_state t =
    result_bind (map_err (\<lambda>_. BadChanges) (apply_transition prev_state (mt_changes t))) (\<lambda>derived.
      let dk = cr_derive_key cr;
          members_match = root_matches dk MEMBER_SET_CONTEXT (st_members derived) (mt_members_root t);
          owners_match = root_matches dk OWNER_SET_CONTEXT (st_owners derived) (mt_owners_root t);
          readers_match = root_matches dk READER_SET_CONTEXT (st_readers derived) (mt_readers_root t) in
      if \<not> (members_match \<and> owners_match \<and> readers_match) then Inl RootMismatch
      else Inr derived)"

section \<open>The state invariant\<close>

text \<open>
  Finite sets, at most one role per device, owners among the members, at most one
  owner, and a registered encryption key for exactly the admitted devices.
  \<open>roles_ok\<close> is what every single change keeps; the owner inclusion is restored
  only at the end of a transition.
\<close>

definition roles_ok :: "membership_state \<Rightarrow> bool" where
  "roles_ok st \<longleftrightarrow>
     finite (st_members st) \<and> finite (st_owners st) \<and> finite (st_readers st)
     \<and> st_members st \<inter> st_readers st = {}
     \<and> dom (st_encryption_keys st) = st_members st \<union> st_readers st
     \<and> card (st_owners st) \<le> 1"

definition state_ok :: "membership_state \<Rightarrow> bool" where
  "state_ok st \<longleftrightarrow> roles_ok st \<and> st_owners st \<subseteq> st_members st"

lemma state_ok_default: "state_ok state_default"
  by (simp add: state_ok_def roles_ok_def state_default_def)

lemma roles_ok_apply_change:
  assumes ok: "roles_ok st" and step: "apply_change st c = Inr st'"
  shows "roles_ok st'"
proof (cases c)
  case (Admit a)
  with step have "st' = st\<lparr>st_members := insert (adm_device a) (st_members st),
      st_encryption_keys := (st_encryption_keys st)(adm_device a \<mapsto> adm_encryption_key a)\<rparr>"
    and "adm_device a \<notin> st_readers st"
    by (auto split: if_splits)
  with ok show ?thesis by (simp add: roles_ok_def)
next
  case (AdmitReader a)
  with step have "st' = st\<lparr>st_readers := insert (adm_device a) (st_readers st),
      st_encryption_keys := (st_encryption_keys st)(adm_device a \<mapsto> adm_encryption_key a)\<rparr>"
    and "adm_device a \<notin> st_members st"
    by (auto split: if_splits)
  with ok show ?thesis by (simp add: roles_ok_def)
next
  case (Remove d)
  with step have sets: "st_members st' = st_members st - {d}" "st_readers st' = st_readers st - {d}"
    "st_encryption_keys st' = (st_encryption_keys st)(d := None)" "st_owners st' \<subseteq> st_owners st"
    by (auto simp: Let_def split: if_splits)
  have "finite (st_owners st') \<and> card (st_owners st') \<le> 1"
    using ok sets(4) card_mono [of "st_owners st" "st_owners st'"] finite_subset
    by (auto simp: roles_ok_def)
  with ok sets(1-3) show ?thesis by (auto simp: roles_ok_def)
next
  case Rotate
  with step ok show ?thesis by simp
next
  case (SetOwners owners)
  with step have "st' = st\<lparr>st_owners := set owners\<rparr>" "length owners = 1"
    by (auto split: if_splits)
  with ok show ?thesis using card_length [of owners] by (simp add: roles_ok_def)
qed

lemma roles_ok_apply_changes:
  "roles_ok st \<Longrightarrow> apply_changes st cs = Inr st' \<Longrightarrow> roles_ok st'"
  by (induction cs arbitrary: st) (auto simp: result_simps dest: roles_ok_apply_change)

lemma state_ok_apply:
  assumes "state_ok st" "apply_transition st cs = Inr st'"
  shows "state_ok st'"
proof -
  from assms(2) have "apply_changes st cs = Inr st'" "st_owners st' \<subseteq> st_members st'"
    by (auto simp: apply_transition_def Let_def result_simps split: if_splits)
  with assms(1) show ?thesis by (auto simp: state_ok_def dest: roles_ok_apply_changes)
qed

lemma derive_next_Inr:
  "derive_next cr st t = Inr st' \<longleftrightarrow>
     apply_transition st (mt_changes t) = Inr st'
     \<and> root_matches (cr_derive_key cr) MEMBER_SET_CONTEXT (st_members st') (mt_members_root t)
     \<and> root_matches (cr_derive_key cr) OWNER_SET_CONTEXT (st_owners st') (mt_owners_root t)
     \<and> root_matches (cr_derive_key cr) READER_SET_CONTEXT (st_readers st') (mt_readers_root t)"
  by (auto simp: derive_next_def Let_def result_simps split: if_splits)

lemma state_ok_derive_next: "state_ok st \<Longrightarrow> derive_next cr st t = Inr st' \<Longrightarrow> state_ok st'"
  by (auto simp: derive_next_Inr dest: state_ok_apply)

section \<open>The effect of a transition on the sets\<close>

fun admitted_member :: "change \<Rightarrow> device_id option" where
  "admitted_member (Admit a) = Some (adm_device a)"
| "admitted_member _ = None"

fun admitted_reader :: "change \<Rightarrow> device_id option" where
  "admitted_reader (AdmitReader a) = Some (adm_device a)"
| "admitted_reader _ = None"

definition devices_by :: "(change \<Rightarrow> device_id option) \<Rightarrow> change list \<Rightarrow> device_id set" where
  "devices_by f cs = set (List.map_filter f cs)"

lemma devices_by_simps [simp]:
  "devices_by f [] = {}"
  "devices_by f (c # cs) = (case f c of None \<Rightarrow> {} | Some d \<Rightarrow> {d}) \<union> devices_by f cs"
  by (auto simp: devices_by_def map_filter_simps split: option.splits)

lemma admitted_split:
  "devices_by admitted_device cs = devices_by admitted_member cs \<union> devices_by admitted_reader cs"
proof (induction cs)
  case (Cons c cs)
  then show ?case by (cases c) auto
qed simp

lemma apply_changes_sets:
  assumes "apply_changes st cs = Inr st'"
    and "devices_by admitted_device cs \<inter> devices_by removed_device cs = {}"
  shows "st_members st' = (st_members st \<union> devices_by admitted_member cs) - devices_by removed_device cs
    \<and> st_readers st' = (st_readers st \<union> devices_by admitted_reader cs) - devices_by removed_device cs"
  using assms
proof (induction cs arbitrary: st)
  case (Cons c cs)
  from Cons.prems(1) obtain st1 where
    step: "apply_change st c = Inr st1" and rest: "apply_changes st1 cs = Inr st'"
    by (auto simp: result_simps)
  have "devices_by admitted_device cs \<inter> devices_by removed_device cs = {}"
    using Cons.prems(2) by auto
  note ih = Cons.IH [OF rest this]
  from step Cons.prems(2) ih show ?case
    by (cases c) (auto simp: Let_def admitted_split split: if_splits)
qed simp

lemma apply_changes_fresh:
  assumes "apply_changes st cs = Inr st'"
    and "devices_by admitted_device cs \<inter> devices_by removed_device cs = {}"
  shows "distinct (List.map_filter admitted_device cs)
    \<and> devices_by admitted_device cs \<inter> (st_members st \<union> st_readers st) = {}"
  using assms
proof (induction cs arbitrary: st)
  case (Cons c cs)
  from Cons.prems(1) obtain st1 where
    step: "apply_change st c = Inr st1" and rest: "apply_changes st1 cs = Inr st'"
    by (auto simp: result_simps)
  have "devices_by admitted_device cs \<inter> devices_by removed_device cs = {}"
    using Cons.prems(2) by auto
  note ih = Cons.IH [OF rest this]
  from step Cons.prems(2) ih show ?case
    by (cases c) (auto simp: Let_def map_filter_simps devices_by_def split: if_splits)
qed (simp add: map_filter_simps)

lemma apply_transition_Inr:
  "apply_transition st cs = Inr st' \<longleftrightarrow>
     devices_by admitted_device cs \<inter> devices_by removed_device cs = {}
     \<and> apply_changes st cs = Inr st' \<and> st_owners st' \<subseteq> st_members st'"
  by (auto simp: apply_transition_def devices_by_def Let_def result_simps split: if_splits)

end
