(* ===== verification/Wyrd_Chain.thy ===== *)
theory Wyrd_Chain
  imports Wyrd_Members "HOL-Library.Product_Lexorder"
begin

text \<open>
  The canonicality walk over an observed transition set
  (\<open>crates/wyrd-sync/src/membership/chain.rs\<close>): link validation against the
  predecessor, the memoised classification of a closure, the children index, the
  walk with conflict handling, and the classification of everything the walk did
  not reach.

  The two loops that follow transition references, \<open>walk\<close> and the ancestor loop of
  \<open>classify_remaining\<close>, are partial functions into \<open>option\<close>; \<open>None\<close> would mean that
  the Rust loop does not end.
\<close>

section \<open>Data\<close>

datatype link =
    LValid (link_state: membership_state) (link_admitted: "device_id set")
  | LInvalid invalid_reason
  | LPending
  | LOrphaned

datatype transition_status =
    SCanonical
  | SContested
  | SVoided
  | SOrphaned
  | SPending
  | SInvalid invalid_reason

record analysis =
  an_status :: "transition_id \<rightharpoonup> transition_status"
  an_states :: "transition_id \<rightharpoonup> membership_state"
  an_canonical :: "transition_id list"
  an_frozen_at :: "u64 option"

definition analysis_default :: analysis where
  "analysis_default =
    \<lparr>an_status = Map.empty, an_states = Map.empty, an_canonical = [], an_frozen_at = None\<rparr>"

record membership_log =
  ml_drive :: drive_id
  ml_transitions :: "(transition_id, membership_transition) fmap"
  ml_analysis :: "analysis option"

definition log_transition :: "membership_log \<Rightarrow> transition_id \<Rightarrow> membership_transition option" where
  "log_transition log i = fmlookup (ml_transitions log) i"

definition observed_ids :: "membership_log \<Rightarrow> transition_id list" where
  "observed_ids log = sorted_list_of_fset (fmdom (ml_transitions log))"

type_synonym links = "transition_id \<rightharpoonup> link"
type_synonym children_index = "transition_id \<rightharpoonup> transition_id list"

fun is_valid :: "link option \<Rightarrow> bool" where
  "is_valid (Some (LValid _ _)) = True"
| "is_valid _ = False"

text \<open>\<open>u64::checked_add(1)\<close> and \<open>u64::saturating_add(1)\<close>.\<close>

definition checked_succ :: "u64 \<Rightarrow> u64 option" where
  "checked_succ e = (if e = - 1 then None else Some (e + 1))"

definition saturating_succ :: "u64 \<Rightarrow> u64" where
  "saturating_succ e = (if e = - 1 then e else e + 1)"

section \<open>Validating one link\<close>

definition admits :: "membership_transition \<Rightarrow> device_id list" where
  "admits t = List.map_filter admitted_device (mt_changes t)"

text \<open>The loop over \<open>resolves\<close>: \<open>None\<close> when it runs to its end, otherwise what it returns.\<close>

fun check_resolves ::
  "membership_log \<Rightarrow> membership_transition \<Rightarrow> links \<Rightarrow> transition_id list \<Rightarrow> link option" where
  "check_resolves log t link [] = None"
| "check_resolves log t link (entry # entries) =
    (case log_transition log entry of
       None \<Rightarrow> Some LPending
     | Some entry_t \<Rightarrow>
         if checked_succ (mt_epoch entry_t) \<noteq> Some (mt_epoch t)
         then Some (LInvalid InvalidResolvesEntry)
         else (case link entry of
             Some (LValid _ _) \<Rightarrow> check_resolves log t link entries
           | Some LPending \<Rightarrow> Some LPending
           | None \<Rightarrow> Some LPending
           | Some _ \<Rightarrow> Some (LInvalid InvalidResolvesEntry)))"

text \<open>The genesis branch of \<open>validate_link\<close>, and the part after the predecessor is known valid.\<close>

definition validate_genesis :: "crypto \<Rightarrow> membership_transition \<Rightarrow> link" where
  "validate_genesis cr t =
    (case result_bind (derive_next cr state_default t)
       (\<lambda>state. result_bind (check_genesis_shape state) (\<lambda>_. Inr state)) of
       Inr state \<Rightarrow> LValid state (set (admits t))
     | Inl reason \<Rightarrow> LInvalid reason)"

definition validate_child ::
  "crypto \<Rightarrow> membership_log \<Rightarrow> membership_transition \<Rightarrow> links \<Rightarrow> membership_state \<Rightarrow> device_id set \<Rightarrow> link" where
  "validate_child cr log t link prev_state prev_admitted =
    (case check_authority prev_state t of
       Inl reason \<Rightarrow> LInvalid reason
     | Inr _ \<Rightarrow>
         (case derive_next cr prev_state t of
            Inl reason \<Rightarrow> LInvalid reason
          | Inr state \<Rightarrow>
              if list_ex (\<lambda>device. device \<in> prev_admitted) (admits t)
              then LInvalid AdmitRetiredDevice
              else if card (set (mt_resolves t)) \<noteq> length (mt_resolves t)
              then LInvalid DuplicateResolves
              else (case check_resolves log t link (mt_resolves t) of
                  Some outcome \<Rightarrow> outcome
                | None \<Rightarrow> LValid state (prev_admitted \<union> set (admits t)))))"

definition validate_link ::
  "crypto \<Rightarrow> membership_log \<Rightarrow> membership_transition \<Rightarrow> links \<Rightarrow> link" where
  "validate_link cr log t link =
    (case check_intrinsic cr t of
       Inl reason \<Rightarrow> LInvalid reason
     | Inr _ \<Rightarrow>
         if \<not> signature_verifies cr (ml_drive log) t then LInvalid BadSignature
         else (case mt_prev t of
             None \<Rightarrow> validate_genesis cr t
           | Some prev_id \<Rightarrow>
               (case log_transition log prev_id of
                  None \<Rightarrow> LPending
                | Some prev_t \<Rightarrow>
                    if checked_succ (mt_epoch prev_t) \<noteq> Some (mt_epoch t)
                    then LInvalid PrevWrongEpoch
                    else (case link prev_id of
                        None \<Rightarrow> LPending
                      | Some (LValid prev_state prev_admitted) \<Rightarrow>
                          validate_child cr log t link prev_state prev_admitted
                      | Some (LInvalid _) \<Rightarrow> LOrphaned
                      | Some LOrphaned \<Rightarrow> LOrphaned
                      | Some LPending \<Rightarrow> LPending))))"

section \<open>Memoised classification of a closure\<close>

definition deps :: "membership_transition \<Rightarrow> transition_id list" where
  "deps t = (case mt_prev t of None \<Rightarrow> [] | Some p \<Rightarrow> [p]) @ mt_resolves t"

text \<open>
  \<open>if seen.insert(d) { closure.push(d); stack.push(d) }\<close> over the references of one
  transition; the top of the stack is the head of the list.
\<close>

fun push_deps ::
  "transition_id list \<Rightarrow> transition_id list \<times> transition_id set \<times> transition_id list
    \<Rightarrow> transition_id list \<times> transition_id set \<times> transition_id list" where
  "push_deps [] acc = acc"
| "push_deps (d # ds) (stack, seen, closure) =
    (if d \<in> seen then push_deps ds (stack, seen, closure)
     else push_deps ds (d # stack, insert d seen, closure @ [d]))"

text \<open>All references any observed transition carries: the bound of the gathering loop.\<close>

definition all_refs :: "membership_log \<Rightarrow> transition_id set" where
  "all_refs log =
    (\<Union>i \<in> fset (fmdom (ml_transitions log)).
      case log_transition log i of None \<Rightarrow> {} | Some t \<Rightarrow> set (deps t))"

lemma finite_all_refs: "finite (all_refs log)"
  by (auto simp: all_refs_def split: option.splits)

lemma deps_in_refs: "log_transition log i = Some t \<Longrightarrow> set (deps t) \<subseteq> all_refs log"
proof -
  assume t: "log_transition log i = Some t"
  then have "i \<in> fset (fmdom (ml_transitions log))" by (simp add: log_transition_def fmdomI)
  with t show ?thesis unfolding all_refs_def by (intro subsetI UN_I [of i]) simp_all
qed

lemma push_deps_measure:
  assumes "set ds \<subseteq> R" "finite R" "push_deps ds (stack, seen, closure) = (stack', seen', closure')"
  shows "2 * card (R - seen') + length stack' \<le> 2 * card (R - seen) + length stack"
  using assms
proof (induction ds arbitrary: stack seen closure)
  case (Cons d ds)
  show ?case
  proof (cases "d \<in> seen")
    case True
    with Cons show ?thesis by simp
  next
    case False
    have eq: "R - insert d seen = R - seen - {d}" by auto
    have "card (R - seen) = Suc (card (R - insert d seen))"
      unfolding eq using Cons.prems(1,2) False by (intro card_Suc_Diff1 [symmetric]) auto
    moreover have "2 * card (R - seen') + length stack' \<le> 2 * card (R - insert d seen) + length (d # stack)"
      using Cons.prems False by (intro Cons.IH) auto
    ultimately show ?thesis by simp
  qed
qed simp

function gather ::
  "membership_log \<Rightarrow> links \<Rightarrow> transition_id list \<times> transition_id set \<times> transition_id list
    \<Rightarrow> transition_id list" where
  "gather log link ([], seen, closure) = closure"
| "gather log link (cur # stack, seen, closure) =
    (if link cur \<noteq> None then gather log link (stack, seen, closure)
     else (case log_transition log cur of
         None \<Rightarrow> gather log link (stack, seen, closure)
       | Some cur_t \<Rightarrow> gather log link (push_deps (deps cur_t) (stack, seen, closure))))"
  by pat_completeness auto
termination
proof (relation "measure (\<lambda>(log, link, stack, seen, closure). 2 * card (all_refs log - seen) + length stack)",
    goal_cases)
  case (4 log link cur stack seen closure cur_t)
  obtain stack' seen' closure' where
    push: "push_deps (deps cur_t) (stack, seen, closure) = (stack', seen', closure')"
    by (cases "push_deps (deps cur_t) (stack, seen, closure)")
  from 4(2) have "set (deps cur_t) \<subseteq> all_refs log" by (rule deps_in_refs)
  from push_deps_measure [OF this finite_all_refs push] show ?case by (simp add: push)
qed simp_all

definition closure_epoch :: "membership_log \<Rightarrow> transition_id \<Rightarrow> u64" where
  "closure_epoch log dep = (case log_transition log dep of None \<Rightarrow> 0 | Some dep_t \<Rightarrow> mt_epoch dep_t)"

fun classify_closure :: "crypto \<Rightarrow> membership_log \<Rightarrow> transition_id list \<Rightarrow> links \<Rightarrow> links" where
  "classify_closure cr log [] link = link"
| "classify_closure cr log (dep # ds) link =
    (if link dep \<noteq> None then classify_closure cr log ds link
     else (case log_transition log dep of
         None \<Rightarrow> classify_closure cr log ds link
       | Some dep_t \<Rightarrow> classify_closure cr log ds (link(dep \<mapsto> validate_link cr log dep_t link))))"

definition link_for ::
  "crypto \<Rightarrow> membership_log \<Rightarrow> membership_transition \<Rightarrow> links \<Rightarrow> link \<times> links" where
  "link_for cr log t link =
    (let i = transition_id_of (cr_derive_key cr) t in
     case link i of
       Some l \<Rightarrow> (l, link)
     | None \<Rightarrow>
         let closure = gather log link ([i], {i}, [i]);
             closure = sort_key (closure_epoch log) closure;
             link = classify_closure cr log closure link in
         (case link i of Some l \<Rightarrow> l | None \<Rightarrow> LPending, link))"

section \<open>The children index\<close>

definition push_child :: "transition_id \<Rightarrow> transition_id \<Rightarrow> children_index \<Rightarrow> children_index" where
  "push_child prev i children =
    children(prev \<mapsto> (case children prev of None \<Rightarrow> [] | Some kids \<Rightarrow> kids) @ [i])"

definition build_children_index :: "membership_log \<Rightarrow> children_index" where
  "build_children_index log =
    fold (\<lambda>i children.
        case log_transition log i of
          None \<Rightarrow> children
        | Some t \<Rightarrow> (case mt_prev t of None \<Rightarrow> children | Some prev \<Rightarrow> push_child prev i children))
      (observed_ids log) Map.empty"

definition children_of :: "children_index \<Rightarrow> transition_id \<Rightarrow> transition_id list" where
  "children_of children i = (case children i of None \<Rightarrow> [] | Some kids \<Rightarrow> kids)"

section \<open>Recording verdicts\<close>

definition insert_state :: "links \<Rightarrow> transition_id \<Rightarrow> analysis \<Rightarrow> analysis" where
  "insert_state link i result =
    (case link i of
       Some (LValid state _) \<Rightarrow> result\<lparr>an_states := (an_states result)(i \<mapsto> state)\<rparr>
     | _ \<Rightarrow> result)"

definition insert_status :: "transition_id \<Rightarrow> transition_status \<Rightarrow> analysis \<Rightarrow> analysis" where
  "insert_status i s result = result\<lparr>an_status := (an_status result)(i \<mapsto> s)\<rparr>"

definition push_canonical :: "links \<Rightarrow> transition_id \<Rightarrow> analysis \<Rightarrow> analysis" where
  "push_canonical link i result =
    (let result = insert_status i SCanonical result;
         result = insert_state link i result in
     result\<lparr>an_canonical := an_canonical result @ [i]\<rparr>)"

definition mark_contested :: "links \<Rightarrow> transition_id list \<Rightarrow> analysis \<Rightarrow> analysis" where
  "mark_contested link ids result =
    fold (\<lambda>i result. insert_state link i (insert_status i SContested result)) ids result"

section \<open>Conflicts\<close>

datatype conflict_outcome = Unresolved | Resolved transition_id | Contradictory

text \<open>The resolutions among the children of the contenders, in scan order.\<close>

definition resolution_candidates ::
  "membership_log \<Rightarrow> links \<Rightarrow> children_index \<Rightarrow> transition_id list \<Rightarrow> transition_id list" where
  "resolution_candidates log link children contenders =
    concat (map (\<lambda>contender.
      filter (\<lambda>grand.
          is_valid (link grand) \<and>
          (case log_transition log grand of
             None \<Rightarrow> False
           | Some gt \<Rightarrow>
               mt_resolves gt \<noteq> [] \<and>
               set (mt_resolves gt) = {c \<in> set contenders. c \<noteq> contender}))
        (children_of children contender)) contenders)"

definition handle_conflict ::
  "membership_log \<Rightarrow> links \<Rightarrow> children_index \<Rightarrow> analysis \<Rightarrow> transition_id list \<Rightarrow> u64
    \<Rightarrow> conflict_outcome \<times> analysis" where
  "handle_conflict log link children result contenders conflict_epoch =
    (case resolution_candidates log link children contenders of
       [] \<Rightarrow>
         (Unresolved, mark_contested link contenders (result\<lparr>an_frozen_at := Some conflict_epoch\<rparr>))
     | [r] \<Rightarrow>
         (case log_transition log r of
            None \<Rightarrow> (Unresolved, result)
          | Some rt \<Rightarrow>
              (case mt_prev rt of
                 None \<Rightarrow> (Unresolved, result)
               | Some winner \<Rightarrow>
                   let result = push_canonical link winner result;
                       result = push_canonical link r result;
                       result = fold (\<lambda>c result.
                         if c = winner then result
                         else insert_state link c (insert_status c
                           (if c \<in> set (mt_resolves rt) then SVoided else SContested) result))
                         contenders result in
                   (Resolved r, result)))
     | candidates \<Rightarrow>
         (Contradictory,
           mark_contested link candidates (mark_contested link contenders
             (result\<lparr>an_frozen_at := Some (saturating_succ conflict_epoch)\<rparr>))))"

section \<open>The walk\<close>

definition valid_kids :: "links \<Rightarrow> children_index \<Rightarrow> transition_id \<Rightarrow> transition_id list" where
  "valid_kids link children current = filter (\<lambda>c. is_valid (link c)) (children_of children current)"

partial_function (option) walk ::
  "membership_log \<Rightarrow> links \<Rightarrow> children_index \<Rightarrow> analysis \<Rightarrow> transition_id \<Rightarrow> analysis option" where
  "walk log link children result current =
    (case valid_kids link children current of
       [] \<Rightarrow> Some result
     | [child] \<Rightarrow>
         (case log_transition log child of
            None \<Rightarrow> Some result
          | Some t \<Rightarrow>
              if mt_resolves t \<noteq> []
              then Some (insert_status child (SInvalid ResolvesWithoutConflict) result)
              else walk log link children (push_canonical link child result) child)
     | first # second # rest \<Rightarrow>
         (case log_transition log first of
            None \<Rightarrow> Some result
          | Some t \<Rightarrow>
              (case handle_conflict log link children result (first # second # rest) (mt_epoch t) of
                 (Resolved resolution, result) \<Rightarrow> walk log link children result resolution
               | (Unresolved, result) \<Rightarrow> Some result
               | (Contradictory, result) \<Rightarrow> Some result)))"

section \<open>Everything the walk did not reach\<close>

partial_function (option) inherit_status ::
  "membership_log \<Rightarrow> (transition_id \<rightharpoonup> transition_status) \<Rightarrow> transition_id \<Rightarrow> transition_status option" where
  "inherit_status log status current =
    (case log_transition log current of
       None \<Rightarrow> Some SVoided
     | Some t \<Rightarrow>
         (case mt_prev t of
            None \<Rightarrow> Some SVoided
          | Some prev \<Rightarrow>
              (case status prev of
                 Some SContested \<Rightarrow> Some SVoided
               | Some SVoided \<Rightarrow> Some SVoided
               | Some SCanonical \<Rightarrow> Some SVoided
               | _ \<Rightarrow> inherit_status log status prev)))"

fun classify_ids :: "membership_log \<Rightarrow> links \<Rightarrow> transition_id list \<Rightarrow> analysis \<Rightarrow> analysis option" where
  "classify_ids log link [] result = Some result"
| "classify_ids log link (i # ids) result =
    (if an_status result i \<noteq> None then classify_ids log link ids result
     else (case link i of
         None \<Rightarrow> classify_ids log link ids result
       | Some (LInvalid reason) \<Rightarrow> classify_ids log link ids (insert_status i (SInvalid reason) result)
       | Some LPending \<Rightarrow> classify_ids log link ids (insert_status i SPending result)
       | Some LOrphaned \<Rightarrow> classify_ids log link ids (insert_status i SOrphaned result)
       | Some (LValid state _) \<Rightarrow>
           (case inherit_status log (an_status result) i of
              None \<Rightarrow> None
            | Some s \<Rightarrow>
                classify_ids log link ids
                  ((insert_status i s result)\<lparr>an_states := (an_states result)(i \<mapsto> state)\<rparr>))))"

definition classify_remaining :: "membership_log \<Rightarrow> links \<Rightarrow> analysis \<Rightarrow> analysis option" where
  "classify_remaining log link result = classify_ids log link (observed_ids log) result"

section \<open>The analysis\<close>

definition by_epoch :: "membership_log \<Rightarrow> (u64 \<times> transition_id) list" where
  "by_epoch log =
    sort (List.map_filter (\<lambda>i. map_option (\<lambda>t. (mt_epoch t, i)) (log_transition log i)) (observed_ids log))"

definition all_links :: "crypto \<Rightarrow> membership_log \<Rightarrow> links" where
  "all_links cr log =
    fold (\<lambda>(_, i) link.
        case log_transition log i of None \<Rightarrow> link | Some t \<Rightarrow> snd (link_for cr log t link))
      (by_epoch log) Map.empty"

definition geneses :: "membership_log \<Rightarrow> links \<Rightarrow> transition_id list" where
  "geneses log link = map snd (filter (\<lambda>(epoch, i). epoch = 1 \<and> is_valid (link i)) (by_epoch log))"

text \<open>Genesis selection, a conflict among geneses included, and the walk from there.\<close>

definition walk_all :: "membership_log \<Rightarrow> links \<Rightarrow> analysis option" where
  "walk_all log link =
    (let children = build_children_index log in
     case geneses log link of
       [] \<Rightarrow> Some analysis_default
     | [genesis] \<Rightarrow>
         walk log link children (push_canonical link genesis analysis_default) genesis
     | gs \<Rightarrow>
         (case handle_conflict log link children analysis_default gs 1 of
            (Resolved resolution, result) \<Rightarrow> walk log link children result resolution
          | (Unresolved, result) \<Rightarrow> Some result
          | (Contradictory, result) \<Rightarrow> Some result))"

definition analyse :: "crypto \<Rightarrow> membership_log \<Rightarrow> analysis option" where
  "analyse cr log =
    (let link = all_links cr log in
     case walk_all log link of
       None \<Rightarrow> None
     | Some result \<Rightarrow> classify_remaining log link result)"

end
