(* ===== verification/Wyrd_Links.thy ===== *)
theory Wyrd_Links
  imports Wyrd_Chain
begin

text \<open>
  What the memoised link classification computes.  The map \<open>all_links\<close> built by the
  closure-gathering loop is the one solution of the equation that says: the link
  of every observed transition is the outcome of validating it against the links
  of the others.  From that equation follow the facts about valid links every
  later theorem uses.
\<close>

section \<open>Well-formed logs\<close>

text \<open>Every transition sits under its own identifier: the invariant \<open>observe\<close> keeps.\<close>

definition log_wf :: "crypto \<Rightarrow> membership_log \<Rightarrow> bool" where
  "log_wf cr log \<longleftrightarrow>
     fmpred (\<lambda>i t. i = transition_id_of (cr_derive_key cr) t) (ml_transitions log)"

lemma log_wf_id:
  "log_wf cr log \<Longrightarrow> log_transition log i = Some t \<Longrightarrow> transition_id_of (cr_derive_key cr) t = i"
  by (auto simp: log_wf_def log_transition_def fmpred_iff)

lemma set_observed_ids: "set (observed_ids log) = {i. log_transition log i \<noteq> None}"
  by (auto simp: observed_ids_def log_transition_def sorted_list_of_fset.rep_eq fmlookup_dom_iff)

lemma sorted_observed_ids: "sorted_wrt (<) (observed_ids log)"
  by (simp add: observed_ids_def sorted_list_of_fset.rep_eq strict_sorted_iff)

section \<open>Epochs\<close>

lemma checked_succ_Some: "checked_succ e = Some e' \<longleftrightarrow> e \<noteq> - 1 \<and> e' = e + 1"
  by (auto simp: checked_succ_def)

lemma unat_succ: "e \<noteq> - 1 \<Longrightarrow> unat (e + 1 :: u64) = Suc (unat e)"
proof -
  assume "e \<noteq> - 1"
  then have "e + 1 \<noteq> 0" by (simp flip: eq_neg_iff_add_eq_0)
  then show ?thesis using unatSuc [of e] by (simp add: add.commute)
qed

lemma checked_succ_unat: "checked_succ e = Some e' \<Longrightarrow> unat e' = Suc (unat e)"
  by (auto simp: checked_succ_Some unat_succ)

lemma checked_succ_less: "checked_succ e = Some e' \<Longrightarrow> e < e'"
  by (simp add: word_less_nat_alt checked_succ_unat)

section \<open>Validation reads only the previous epoch\<close>

definition dep_of :: "membership_log \<Rightarrow> membership_transition \<Rightarrow> transition_id \<Rightarrow> bool" where
  "dep_of log t d \<longleftrightarrow>
     d \<in> set (deps t) \<and> (\<exists>dt. log_transition log d = Some dt \<and> checked_succ (mt_epoch dt) = Some (mt_epoch t))"

lemma check_resolves_cong:
  "(\<And>d. d \<in> set es \<Longrightarrow> dep_of log t d \<Longrightarrow> link d = link' d) \<Longrightarrow> set es \<subseteq> set (deps t) \<Longrightarrow>
   check_resolves log t link es = check_resolves log t link' es"
proof (induction es)
  case (Cons e es)
  then have rest: "check_resolves log t link es = check_resolves log t link' es" by simp
  show ?case
  proof (cases "dep_of log t e")
    case True
    with Cons.prems have "link e = link' e" by simp
    with rest show ?thesis by (simp split: option.split link.split)
  next
    case False
    with Cons.prems show ?thesis by (auto simp: dep_of_def split: option.split)
  qed
qed simp

lemma validate_link_cong:
  assumes "\<And>d. dep_of log t d \<Longrightarrow> link d = link' d"
  shows "validate_link cr log t link = validate_link cr log t link'"
proof -
  have "check_resolves log t link (mt_resolves t) = check_resolves log t link' (mt_resolves t)"
    using assms by (intro check_resolves_cong) (auto simp: deps_def)
  then have child: "validate_child cr log t link = validate_child cr log t link'"
    by (auto simp: validate_child_def fun_eq_iff split: sum.split)
  have "link p = link' p" if "mt_prev t = Some p" "log_transition log p = Some pt"
    "checked_succ (mt_epoch pt) = Some (mt_epoch t)" for p pt
    using that by (intro assms) (auto simp: dep_of_def deps_def)
  then show ?thesis
    by (auto simp: validate_link_def child split: sum.split option.split link.split)
qed

section \<open>The memo table\<close>

text \<open>
  A table is sound when every entry belongs to an observed transition whose
  previous-epoch references are already in the table, and equals the validation
  against the table itself.
\<close>

definition links_sound :: "crypto \<Rightarrow> membership_log \<Rightarrow> links \<Rightarrow> bool" where
  "links_sound cr log link \<longleftrightarrow>
    (\<forall>i l. link i = Some l \<longrightarrow> (\<exists>t. log_transition log i = Some t
      \<and> (\<forall>d. dep_of log t d \<longrightarrow> link d \<noteq> None) \<and> l = validate_link cr log t link))"

lemma links_sound_entry:
  "links_sound cr log link \<Longrightarrow> link i = Some l \<Longrightarrow>
   \<exists>t. log_transition log i = Some t \<and> l = validate_link cr log t link"
  unfolding links_sound_def by blast

lemma dep_of_less:
  "dep_of log t d \<Longrightarrow> log_transition log i = Some t \<Longrightarrow> closure_epoch log d < closure_epoch log i"
  by (auto simp: dep_of_def closure_epoch_def dest: checked_succ_less)

lemma links_sound_extend:
  assumes sound: "links_sound cr log link" and t: "log_transition log i = Some t"
    and new: "link i = None" and ready: "\<And>d. dep_of log t d \<Longrightarrow> link d \<noteq> None"
  shows "links_sound cr log (link(i \<mapsto> validate_link cr log t link))"
  unfolding links_sound_def
proof (intro allI impI)
  let ?link = "link(i \<mapsto> validate_link cr log t link)"
  fix j l assume j: "?link j = Some l"
  obtain u where u: "log_transition log j = Some u" "\<And>d. dep_of log u d \<Longrightarrow> link d \<noteq> None"
    "l = validate_link cr log u link"
  proof (cases "j = i")
    case True
    with j t ready show ?thesis by (intro that [of t]) auto
  next
    case False
    with j have "link j = Some l" by simp
    with sound that show ?thesis unfolding links_sound_def by blast
  qed
  have "validate_link cr log u link = validate_link cr log u ?link"
  proof (rule validate_link_cong)
    fix d assume "dep_of log u d"
    from u(2) [OF this] new have "d \<noteq> i" by auto
    then show "link d = ?link d" by simp
  qed
  with u show "\<exists>t. log_transition log j = Some t \<and> (\<forall>d. dep_of log t d \<longrightarrow> ?link d \<noteq> None)
      \<and> l = validate_link cr log t ?link"
    by (intro exI [of _ u]) auto
qed

lemma classify_closure_sound:
  assumes "links_sound cr log link" "sorted (map (closure_epoch log) ds)"
    and "\<And>c t d. c \<in> set ds \<Longrightarrow> link c = None \<Longrightarrow> log_transition log c = Some t \<Longrightarrow> dep_of log t d \<Longrightarrow>
      link d \<noteq> None \<or> d \<in> set ds"
  shows "links_sound cr log (classify_closure cr log ds link)
    \<and> link \<subseteq>\<^sub>m classify_closure cr log ds link
    \<and> (\<forall>c \<in> set ds. log_transition log c \<noteq> None \<longrightarrow> classify_closure cr log ds link c \<noteq> None)"
  using assms
proof (induction ds arbitrary: link)
  case (Cons c ds)
  show ?case
  proof (cases "link c = None \<and> log_transition log c \<noteq> None")
    case False
    have "links_sound cr log (classify_closure cr log ds link)
      \<and> link \<subseteq>\<^sub>m classify_closure cr log ds link
      \<and> (\<forall>c \<in> set ds. log_transition log c \<noteq> None \<longrightarrow> classify_closure cr log ds link c \<noteq> None)"
    proof (rule Cons.IH [OF Cons.prems(1)])
      fix c' t d assume "c' \<in> set ds" "link c' = None" "log_transition log c' = Some t" "dep_of log t d"
      then have "link d \<noteq> None \<or> d \<in> set (c # ds)" "log_transition log d \<noteq> None"
        using Cons.prems(3) [of c' t d] by (auto simp: dep_of_def)
      with False show "link d \<noteq> None \<or> d \<in> set ds" by auto
    qed (use Cons.prems(2) in simp)
    moreover from False have "classify_closure cr log (c # ds) link = classify_closure cr log ds link"
      by (auto split: option.split)
    ultimately show ?thesis
      using False map_le_present [of link "classify_closure cr log ds link" c]
      by (auto simp del: classify_closure.simps)
  next
    case True
    then obtain t where t: "log_transition log c = Some t" and new: "link c = None" by auto
    let ?link = "link(c \<mapsto> validate_link cr log t link)"
    have ready: "link d \<noteq> None" if "dep_of log t d" for d
    proof -
      have "closure_epoch log d < closure_epoch log c" using that t by (rule dep_of_less)
      with Cons.prems(2) have "d \<notin> set (c # ds)" by auto
      with Cons.prems(3) [of c t d] that t new show ?thesis by auto
    qed
    have sound: "links_sound cr log ?link" using Cons.prems(1) t new ready by (rule links_sound_extend)
    have "links_sound cr log (classify_closure cr log ds ?link)
      \<and> ?link \<subseteq>\<^sub>m classify_closure cr log ds ?link
      \<and> (\<forall>c \<in> set ds. log_transition log c \<noteq> None \<longrightarrow> classify_closure cr log ds ?link c \<noteq> None)"
    proof (rule Cons.IH [OF sound])
      fix c' t' d assume "c' \<in> set ds" "?link c' = None" "log_transition log c' = Some t'" "dep_of log t' d"
      then show "?link d \<noteq> None \<or> d \<in> set ds"
        using Cons.prems(3) [of c' t' d] by (auto split: if_splits)
    qed (use Cons.prems(2) in simp)
    moreover have "link \<subseteq>\<^sub>m ?link" using new by (rule map_le_upd)
    moreover from t new have "classify_closure cr log (c # ds) link = classify_closure cr log ds ?link"
      by simp
    ultimately show ?thesis
      using map_le_trans [of link ?link] map_le_present [of ?link "classify_closure cr log ds ?link" c]
      by (simp del: classify_closure.simps)
  qed
qed simp

section \<open>The gathering loop\<close>

definition gather_inv ::
  "membership_log \<Rightarrow> links \<Rightarrow> transition_id list \<times> transition_id set \<times> transition_id list \<Rightarrow> bool" where
  "gather_inv log link = (\<lambda>(stack, seen, closure).
     seen = set closure \<and> set stack \<subseteq> seen \<and>
     (\<forall>c t. c \<in> seen \<longrightarrow> link c = None \<longrightarrow> log_transition log c = Some t \<longrightarrow>
        c \<in> set stack \<or> set (deps t) \<subseteq> seen))"

lemma push_deps_sets:
  assumes "push_deps ds (stack, seen, closure) = (stack', seen', closure')"
    and "seen = set closure" "set stack \<subseteq> seen"
  shows "seen' = set closure' \<and> set stack' \<subseteq> seen' \<and> seen' = seen \<union> set ds
    \<and> set stack' = set stack \<union> (seen' - seen)"
  using assms
proof (induction ds arbitrary: stack seen closure)
  case (Cons d ds)
  show ?case
  proof (cases "d \<in> seen")
    case True
    with Cons.prems Cons.IH [of stack seen closure] show ?thesis by auto
  next
    case False
    have "seen' = set closure' \<and> set stack' \<subseteq> seen' \<and> seen' = insert d seen \<union> set ds
        \<and> set stack' = set (d # stack) \<union> (seen' - insert d seen)"
      using Cons.prems False by (intro Cons.IH) auto
    with False Cons.prems(3) show ?thesis by auto
  qed
qed auto

lemma gather_inv_push:
  assumes "gather_inv log link (cur # stack, seen, closure)" "log_transition log cur = Some t"
  shows "gather_inv log link (push_deps (deps t) (stack, seen, closure))"
proof -
  obtain stack' seen' closure' where push: "push_deps (deps t) (stack, seen, closure) = (stack', seen', closure')"
    by (cases "push_deps (deps t) (stack, seen, closure)")
  have inv: "seen = set closure" "set stack \<subseteq> seen"
    and old: "\<And>c t. c \<in> seen \<Longrightarrow> link c = None \<Longrightarrow> log_transition log c = Some t \<Longrightarrow>
      c = cur \<or> c \<in> set stack \<or> set (deps t) \<subseteq> seen"
    using assms(1) by (auto simp: gather_inv_def)
  note sets = push_deps_sets [OF push inv]
  have "c \<in> set stack' \<or> set (deps u) \<subseteq> seen'"
    if "c \<in> seen'" "link c = None" "log_transition log c = Some u" for c u
    using that old [of c u] sets assms(2) by auto
  with sets show ?thesis by (auto simp: push gather_inv_def)
qed

lemma gather_closed:
  assumes "gather_inv log link (stack, seen, closure)"
  shows "set closure \<subseteq> set (gather log link (stack, seen, closure))
    \<and> (\<forall>c t. c \<in> set (gather log link (stack, seen, closure)) \<longrightarrow> link c = None \<longrightarrow>
         log_transition log c = Some t \<longrightarrow> set (deps t) \<subseteq> set (gather log link (stack, seen, closure)))"
  using assms
proof (induction log link "(stack, seen, closure)" arbitrary: stack seen closure rule: gather.induct)
  case (1 log link seen closure)
  then show ?case by (auto simp: gather_inv_def)
next
  case (2 log link cur stack seen closure)
  show ?case
  proof (cases "link cur = None \<and> log_transition log cur \<noteq> None")
    case False
    have "c \<in> set stack \<or> set (deps t) \<subseteq> seen"
      if "c \<in> seen" "link c = None" "log_transition log c = Some t" for c t
    proof -
      from that False have "c \<noteq> cur" by auto
      moreover from that 2(4) have "c = cur \<or> c \<in> set stack \<or> set (deps t) \<subseteq> seen"
        unfolding gather_inv_def by simp blast
      ultimately show ?thesis by blast
    qed
    moreover have "seen = set closure" "set stack \<subseteq> seen" using 2(4) by (auto simp: gather_inv_def)
    ultimately have "gather_inv log link (stack, seen, closure)"
      unfolding gather_inv_def by simp
    with False 2(1,2) show ?thesis by (cases "link cur") (auto split: option.split)
  next
    case True
    then obtain t where t: "log_transition log cur = Some t" and new: "link cur = None" by auto
    obtain stack' seen' closure' where push: "push_deps (deps t) (stack, seen, closure) = (stack', seen', closure')"
      by (cases "push_deps (deps t) (stack, seen, closure)")
    have "set closure \<subseteq> set closure'"
      using push_deps_sets [OF push] 2(4) by (auto simp: gather_inv_def)
    moreover have "gather_inv log link (stack', seen', closure')"
      using gather_inv_push [OF 2(4) t] push by simp
    ultimately show ?thesis using 2(3) [of t stack' seen' closure'] new t push by auto
  qed
qed

declare gather.simps [simp del]

lemma gather_start: "gather_inv log link ([i], {i}, [i])"
  by (simp add: gather_inv_def)

section \<open>The table is the solution of the validation equation\<close>

lemma link_for_sound:
  assumes wf: "log_wf cr log" and sound: "links_sound cr log link" and t: "log_transition log i = Some t"
  shows "links_sound cr log (snd (link_for cr log t link)) \<and> link \<subseteq>\<^sub>m snd (link_for cr log t link)
    \<and> snd (link_for cr log t link) i = Some (fst (link_for cr log t link))"
proof (cases "link i")
  case (Some l)
  with sound show ?thesis by (simp add: link_for_def log_wf_id [OF wf t])
next
  case None
  let ?c = "sort_key (closure_epoch log) (gather log link ([i], {i}, [i]))"
  have closed: "i \<in> set ?c"
    "\<And>c t. c \<in> set ?c \<Longrightarrow> link c = None \<Longrightarrow> log_transition log c = Some t \<Longrightarrow> set (deps t) \<subseteq> set ?c"
    using gather_closed [OF gather_start [of log link i]] by auto
  have "links_sound cr log (classify_closure cr log ?c link)
    \<and> link \<subseteq>\<^sub>m classify_closure cr log ?c link
    \<and> (\<forall>c \<in> set ?c. log_transition log c \<noteq> None \<longrightarrow> classify_closure cr log ?c link c \<noteq> None)"
  proof (rule classify_closure_sound [OF sound sorted_sort_key])
    fix c t d assume c: "c \<in> set ?c" "link c = None" "log_transition log c = Some t" and d: "dep_of log t d"
    from closed(2) [OF c] d show "link d \<noteq> None \<or> d \<in> set ?c" unfolding dep_of_def by blast
  qed
  with None t closed(1) show ?thesis
    by (auto simp: link_for_def log_wf_id [OF wf t] Let_def)
qed

text \<open>The equation: every observed transition validates against the table, nothing else is in it.\<close>

definition links_spec :: "crypto \<Rightarrow> membership_log \<Rightarrow> links \<Rightarrow> bool" where
  "links_spec cr log L \<longleftrightarrow>
    (\<forall>i. L i = map_option (\<lambda>t. validate_link cr log t L) (log_transition log i))"

lemma links_fold_sound:
  assumes wf: "log_wf cr log" and "links_sound cr log link"
  defines "step \<equiv> \<lambda>(_ :: u64, i) link.
    case log_transition log i of None \<Rightarrow> link | Some t \<Rightarrow> snd (link_for cr log t link)"
  shows "links_sound cr log (fold step xs link) \<and> link \<subseteq>\<^sub>m fold step xs link
    \<and> (\<forall>(e, i) \<in> set xs. log_transition log i \<noteq> None \<longrightarrow> fold step xs link i \<noteq> None)"
  using assms(2)
proof (induction xs arbitrary: link)
  case (Cons x xs)
  obtain e i where x: "x = (e, i)" by (cases x)
  have 1: "links_sound cr log (step x link) \<and> link \<subseteq>\<^sub>m step x link
      \<and> (log_transition log i \<noteq> None \<longrightarrow> step x link i \<noteq> None)"
    using link_for_sound [OF wf Cons.prems, of i] Cons.prems
    by (auto simp: step_def x split: option.split)
  then have "links_sound cr log (fold step xs (step x link)) \<and> step x link \<subseteq>\<^sub>m fold step xs (step x link)
    \<and> (\<forall>(e, i) \<in> set xs. log_transition log i \<noteq> None \<longrightarrow> fold step xs (step x link) i \<noteq> None)"
    by (intro Cons.IH) simp
  with 1 show ?case
    using map_le_trans [of link "step x link"] map_le_present [of "step x link" "fold step xs (step x link)" i]
    by (simp add: x)
qed simp

lemma set_by_epoch:
  "set (by_epoch log) = {(mt_epoch t, i) | t i. log_transition log i = Some t}"
  by (auto simp: by_epoch_def in_set_map_filter set_observed_ids) blast

lemma all_links_spec:
  assumes "log_wf cr log"
  shows "links_spec cr log (all_links cr log)"
  unfolding links_spec_def
proof
  fix i
  let ?L = "all_links cr log"
  have "links_sound cr log Map.empty" by (simp add: links_sound_def)
  from links_fold_sound [OF assms this, of "by_epoch log"]
  have sound: "links_sound cr log ?L"
    and total: "\<And>e i. (e, i) \<in> set (by_epoch log) \<Longrightarrow> log_transition log i \<noteq> None \<Longrightarrow> ?L i \<noteq> None"
    unfolding all_links_def by blast+
  show "?L i = map_option (\<lambda>t. validate_link cr log t ?L) (log_transition log i)"
  proof (cases "log_transition log i")
    case None
    with links_sound_entry [OF sound, of i] show ?thesis by (cases "?L i") auto
  next
    case (Some t)
    then have "?L i \<noteq> None" by (intro total [of "mt_epoch t"]) (auto simp: set_by_epoch)
    then obtain l where l: "?L i = Some l" by auto
    with links_sound_entry [OF sound l] Some show ?thesis by auto
  qed
qed

lemma links_spec_unique:
  assumes "links_spec cr log L" "links_spec cr log L'"
  shows "L = L'"
proof
  fix i
  show "L i = L' i"
  proof (induction "unat (closure_epoch log i)" arbitrary: i rule: less_induct)
    case less
    show ?case
    proof (cases "log_transition log i")
      case None
      with assms show ?thesis by (simp add: links_spec_def)
    next
      case (Some t)
      have "L d = L' d" if "dep_of log t d" for d
        using dep_of_less [OF that Some] by (intro less) (simp add: word_less_nat_alt)
      then have "validate_link cr log t L = validate_link cr log t L'" by (rule validate_link_cong)
      with Some assms show ?thesis by (simp add: links_spec_def)
    qed
  qed
qed

section \<open>Valid links\<close>

text \<open>What a valid genesis and a valid successor have to satisfy.\<close>

definition genesis_step :: "crypto \<Rightarrow> membership_transition \<Rightarrow> membership_state \<Rightarrow> device_id set \<Rightarrow> bool" where
  "genesis_step cr t s A \<longleftrightarrow>
     mt_prev t = None \<and> derive_next cr state_default t = Inr s \<and> check_genesis_shape s = Inr ()
     \<and> A = set (admits t)"

definition child_step ::
  "crypto \<Rightarrow> membership_log \<Rightarrow> links \<Rightarrow> membership_transition \<Rightarrow> transition_id \<Rightarrow> membership_state
    \<Rightarrow> device_id set \<Rightarrow> membership_state \<Rightarrow> device_id set \<Rightarrow> bool" where
  "child_step cr log L t p sp Ap s A \<longleftrightarrow>
     mt_prev t = Some p \<and> L p = Some (LValid sp Ap)
     \<and> (\<exists>pt. log_transition log p = Some pt \<and> checked_succ (mt_epoch pt) = Some (mt_epoch t))
     \<and> mt_author t \<in> st_owners sp \<and> derive_next cr sp t = Inr s
     \<and> set (admits t) \<inter> Ap = {} \<and> A = Ap \<union> set (admits t) \<and> distinct (mt_resolves t)
     \<and> (\<forall>r \<in> set (mt_resolves t). is_valid (L r)
          \<and> (\<exists>rt. log_transition log r = Some rt \<and> checked_succ (mt_epoch rt) = Some (mt_epoch t)))"

lemma is_valid_iff: "is_valid l \<longleftrightarrow> (\<exists>s A. l = Some (LValid s A))"
  by (cases l rule: is_valid.cases) auto

lemma check_resolves_None:
  "check_resolves log t L es = None \<longleftrightarrow>
    (\<forall>r \<in> set es. is_valid (L r)
       \<and> (\<exists>rt. log_transition log r = Some rt \<and> checked_succ (mt_epoch rt) = Some (mt_epoch t)))"
  by (induction es) (auto simp: is_valid_iff split: option.splits link.splits)

lemma check_resolves_not_valid: "check_resolves log t L es \<noteq> Some (LValid s A)"
  by (induction es) (auto split: option.splits link.splits)

lemma check_authority_Inr: "check_authority sp t = Inr u \<longleftrightarrow> mt_author t \<in> st_owners sp"
  by (simp add: check_authority_def)

lemma validate_genesis_valid:
  "mt_prev t = None \<Longrightarrow> validate_genesis cr t = LValid s A \<longleftrightarrow> genesis_step cr t s A"
  by (auto simp: validate_genesis_def genesis_step_def result_simps split: sum.splits)

lemma validate_child_valid:
  "validate_child cr log t L sp Ap = LValid s A \<longleftrightarrow>
     mt_author t \<in> st_owners sp \<and> derive_next cr sp t = Inr s \<and> set (admits t) \<inter> Ap = {}
     \<and> A = Ap \<union> set (admits t) \<and> distinct (mt_resolves t)
     \<and> check_resolves log t L (mt_resolves t) = None"
proof -
  have "list_ex (\<lambda>d. d \<in> Ap) (admits t) \<longleftrightarrow> set (admits t) \<inter> Ap \<noteq> {}"
    by (auto simp: list_ex_iff)
  moreover have "card (set (mt_resolves t)) = length (mt_resolves t) \<longleftrightarrow> distinct (mt_resolves t)"
    using card_distinct distinct_card by blast
  ultimately show ?thesis
    using check_resolves_not_valid [of log t L "mt_resolves t"]
    by (auto simp: validate_child_def check_authority_def split: sum.splits option.splits)
qed

lemma valid_link_iff:
  assumes "links_spec cr log L"
  shows "L i = Some (LValid s A) \<longleftrightarrow>
    (\<exists>t. log_transition log i = Some t \<and> check_intrinsic cr t = Inr ()
       \<and> signature_verifies cr (ml_drive log) t
       \<and> (genesis_step cr t s A \<or> (\<exists>p sp Ap. child_step cr log L t p sp Ap s A)))"
proof -
  have "validate_link cr log t L = LValid s A \<longleftrightarrow>
      check_intrinsic cr t = Inr () \<and> signature_verifies cr (ml_drive log) t
      \<and> (genesis_step cr t s A \<or> (\<exists>p sp Ap. child_step cr log L t p sp Ap s A))" for t
  proof (cases "mt_prev t")
    case None
    then show ?thesis
      using validate_genesis_valid [OF None, of cr s A]
      by (auto simp: validate_link_def child_step_def split: sum.split)
  next
    case (Some p)
    then show ?thesis
      by (auto simp: validate_link_def genesis_step_def child_step_def validate_child_valid
          check_resolves_None split: sum.split option.split link.split)
  qed
  moreover have "L i = map_option (\<lambda>t. validate_link cr log t L) (log_transition log i)"
    using assms by (simp add: links_spec_def)
  ultimately show ?thesis by (cases "log_transition log i") auto
qed

section \<open>Induction along valid links\<close>

definition prev_of :: "membership_log \<Rightarrow> transition_id \<Rightarrow> transition_id option" where
  "prev_of log i = Option.bind (log_transition log i) mt_prev"

definition resolves_of :: "membership_log \<Rightarrow> transition_id \<Rightarrow> transition_id list" where
  "resolves_of log i = (case log_transition log i of None \<Rightarrow> [] | Some t \<Rightarrow> mt_resolves t)"

definition admits_of :: "membership_log \<Rightarrow> transition_id \<Rightarrow> device_id list" where
  "admits_of log i = (case log_transition log i of None \<Rightarrow> [] | Some t \<Rightarrow> admits t)"

lemma intrinsic_genesis: "check_intrinsic cr t = Inr () \<Longrightarrow> mt_prev t = None \<longleftrightarrow> mt_epoch t = 1"
  by (auto simp: check_intrinsic_def split: if_splits)

lemma valid_observed:
  "links_spec cr log L \<Longrightarrow> is_valid (L i) \<Longrightarrow> \<exists>t. log_transition log i = Some t \<and> check_intrinsic cr t = Inr ()"
  by (auto simp: is_valid_iff valid_link_iff)

lemma valid_root:
  assumes "links_spec cr log L" "is_valid (L i)" "prev_of log i = None"
  shows "closure_epoch log i = 1"
  using valid_observed [OF assms(1,2)] assms(3)
  by (auto simp: prev_of_def closure_epoch_def intrinsic_genesis)

lemma valid_prev:
  assumes "links_spec cr log L" "is_valid (L i)" "prev_of log i = Some p"
  shows "is_valid (L p) \<and> checked_succ (closure_epoch log p) = Some (closure_epoch log i)"
proof -
  from assms(2) obtain s A where "L i = Some (LValid s A)" by (auto simp: is_valid_iff)
  then obtain t q sp Ap where t: "log_transition log i = Some t"
    and step: "genesis_step cr t s A \<or> child_step cr log L t q sp Ap s A"
    using valid_link_iff [OF assms(1)] by blast
  with assms(3) show ?thesis
    by (auto simp: prev_of_def genesis_step_def child_step_def is_valid_iff closure_epoch_def)
qed

lemma valid_link_induct [consumes 2, case_names genesis child]:
  assumes spec: "links_spec cr log L" and "L i = Some (LValid s A)"
    and genesis: "\<And>i t s A. L i = Some (LValid s A) \<Longrightarrow> log_transition log i = Some t \<Longrightarrow> genesis_step cr t s A \<Longrightarrow> P i s A"
    and child: "\<And>i t p sp Ap s A. L i = Some (LValid s A) \<Longrightarrow> log_transition log i = Some t \<Longrightarrow>
      child_step cr log L t p sp Ap s A \<Longrightarrow> P p sp Ap \<Longrightarrow> P i s A"
  shows "P i s A"
  using assms(2)
proof (induction "unat (closure_epoch log i)" arbitrary: i s A rule: less_induct)
  case less
  then obtain t where t: "log_transition log i = Some t"
    and step: "genesis_step cr t s A \<or> (\<exists>p sp Ap. child_step cr log L t p sp Ap s A)"
    using valid_link_iff [OF spec] by blast
  from step show ?case
  proof (elim disjE exE)
    assume "genesis_step cr t s A"
    with less.prems t show ?thesis by (rule genesis)
  next
    fix p sp Ap assume c: "child_step cr log L t p sp Ap s A"
    then have "prev_of log i = Some p" "L p = Some (LValid sp Ap)"
      using t by (auto simp: child_step_def prev_of_def)
    moreover have "checked_succ (closure_epoch log p) = Some (closure_epoch log i)"
      using valid_prev [OF spec _ calculation(1)] less.prems by (simp add: is_valid_iff)
    ultimately have "P p sp Ap" by (intro less.hyps) (simp_all add: checked_succ_unat)
    with less.prems t c show ?thesis by (rule child)
  qed
qed

lemma valid_link_state_ok:
  assumes "links_spec cr log L" "L i = Some (LValid s A)"
  shows "state_ok s"
  using assms
proof (induction rule: valid_link_induct)
  case (genesis i t s A)
  then show ?case using state_ok_derive_next [OF state_ok_default] by (auto simp: genesis_step_def)
next
  case (child i t p sp Ap s A)
  then show ?case using state_ok_derive_next by (auto simp: child_step_def)
qed

text \<open>Whoever is in a role at a valid transition was admitted on its chain.\<close>

lemma derive_next_sets:
  assumes "derive_next cr st t = Inr st'"
  shows "st_members st' \<union> st_readers st' \<subseteq> st_members st \<union> st_readers st \<union> set (admits t)"
    and "distinct (admits t)"
proof -
  from assms have disj: "devices_by admitted_device (mt_changes t) \<inter> devices_by removed_device (mt_changes t) = {}"
    and run: "apply_changes st (mt_changes t) = Inr st'"
    by (auto simp: derive_next_Inr apply_transition_Inr)
  have adm: "set (admits t) = devices_by admitted_member (mt_changes t) \<union> devices_by admitted_reader (mt_changes t)"
    using admitted_split [of "mt_changes t"] by (simp add: admits_def devices_by_def)
  show "st_members st' \<union> st_readers st' \<subseteq> st_members st \<union> st_readers st \<union> set (admits t)"
    using apply_changes_sets [OF run disj] by (auto simp: adm)
  show "distinct (admits t)"
    using apply_changes_fresh [OF run disj] by (simp add: admits_def)
qed

lemma valid_link_admitted:
  assumes "links_spec cr log L" "L i = Some (LValid s A)"
  shows "st_members s \<union> st_readers s \<subseteq> A"
  using assms
proof (induction rule: valid_link_induct)
  case (genesis i t s A)
  then show ?case using derive_next_sets(1) [of cr state_default t s]
    by (auto simp: genesis_step_def state_default_def)
next
  case (child i t p sp Ap s A)
  then show ?case using derive_next_sets(1) [of cr sp t s] by (auto simp: child_step_def)
qed

lemma valid_link_distinct:
  assumes "links_spec cr log L" "L i = Some (LValid s A)" "log_transition log i = Some t"
  shows "distinct (admits t)"
  using valid_link_iff [OF assms(1), of i s A] assms(2,3) derive_next_sets(2)
  by (auto simp: genesis_step_def child_step_def)

end
