(* ===== verification/Wyrd_Walk.thy ===== *)
theory Wyrd_Walk
  imports Wyrd_Links
begin

text \<open>
  Correctness of the canonicality walk and of the whole analysis: the walk ends,
  what it records is a chain of valid links from a genesis, forks are settled only
  by a resolution that names exactly the other contenders, and every observed
  transition gets exactly one verdict.
\<close>

section \<open>Children and conflicts\<close>

lemma children_of_push:
  "children_of (push_child p i m) q = children_of m q @ (if q = p then [i] else [])"
  by (auto simp: children_of_def push_child_def)

lemma children_of_build:
  "children_of (build_children_index log) p = filter (\<lambda>i. prev_of log i = Some p) (observed_ids log)"
proof -
  let ?f = "\<lambda>i children. case log_transition log i of None \<Rightarrow> children
      | Some t \<Rightarrow> (case mt_prev t of None \<Rightarrow> children | Some prev \<Rightarrow> push_child prev i children)"
  have "children_of (fold ?f xs m) p = children_of m p @ filter (\<lambda>i. prev_of log i = Some p) xs" for xs m
  proof (induction xs arbitrary: m)
    case (Cons x xs)
    have "children_of (?f x m) p = children_of m p @ (if prev_of log x = Some p then [x] else [])"
      by (auto simp: prev_of_def children_of_push split: option.split)
    with Cons show ?case by simp
  qed simp
  from this [of "observed_ids log" Map.empty] show ?thesis
    by (simp add: build_children_index_def children_of_def)
qed

text \<open>The valid transitions that share a predecessor; \<open>None\<close> for the geneses.\<close>

definition sibs :: "membership_log \<Rightarrow> links \<Rightarrow> transition_id option \<Rightarrow> transition_id set" where
  "sibs log L p = {k. is_valid (L k) \<and> log_transition log k \<noteq> None \<and> prev_of log k = p}"

text \<open>A resolution of the conflict among \<open>S\<close>: a valid child of one contender that names exactly the others.\<close>

definition resolves_conflict :: "membership_log \<Rightarrow> links \<Rightarrow> transition_id set \<Rightarrow> transition_id \<Rightarrow> bool" where
  "resolves_conflict log L S r \<longleftrightarrow>
     is_valid (L r) \<and> resolves_of log r \<noteq> []
     \<and> (\<exists>w \<in> S. prev_of log r = Some w \<and> set (resolves_of log r) = S - {w})"

lemma distinct_observed_ids: "distinct (observed_ids log)"
  using sorted_observed_ids by (simp add: strict_sorted_iff)

lemma set_valid_kids: "set (valid_kids L (build_children_index log) p) = sibs log L (Some p)"
  by (auto simp: valid_kids_def children_of_build set_observed_ids sibs_def)

lemma distinct_valid_kids: "distinct (valid_kids L (build_children_index log) p)"
  by (simp add: valid_kids_def children_of_build distinct_observed_ids)

lemma set_candidates:
  "set (resolution_candidates log L (build_children_index log) cs) = {r. resolves_conflict log L (set cs) r}"
proof -
  have "r \<in> set (resolution_candidates log L (build_children_index log) cs) \<longleftrightarrow>
      resolves_conflict log L (set cs) r" for r
  proof (cases "log_transition log r")
    case None
    then show ?thesis
      by (auto simp: resolution_candidates_def resolves_conflict_def resolves_of_def)
  next
    case (Some t)
    have "{c \<in> set cs. c \<noteq> w} = set cs - {w}" for w by auto
    with Some show ?thesis
      by (auto simp: resolution_candidates_def resolves_conflict_def resolves_of_def children_of_build
          set_observed_ids)
  qed
  then show ?thesis by auto
qed

lemma distinct_candidates:
  assumes "distinct cs"
  shows "distinct (resolution_candidates log L (build_children_index log) cs)"
proof -
  let ?g = "\<lambda>w. filter (\<lambda>grand. is_valid (L grand) \<and> (case log_transition log grand of None \<Rightarrow> False
      | Some gt \<Rightarrow> mt_resolves gt \<noteq> [] \<and> set (mt_resolves gt) = {c \<in> set cs. c \<noteq> w}))
      (filter (\<lambda>i. prev_of log i = Some w) (observed_ids log))"
  have "distinct (concat (map ?g xs))" if "distinct xs" for xs
    using that
  proof (induction xs)
    case (Cons x xs)
    have "set (?g x) \<inter> set (concat (map ?g xs)) = {}"
      using Cons.prems by auto
    with Cons show ?case by (simp add: distinct_observed_ids)
  qed simp
  from this [OF assms] show ?thesis
    by (simp add: resolution_candidates_def children_of_build)
qed

section \<open>Chains\<close>

definition canon_chain :: "membership_log \<Rightarrow> links \<Rightarrow> transition_id list \<Rightarrow> bool" where
  "canon_chain log L xs \<longleftrightarrow>
     (\<forall>i \<in> set xs. is_valid (L i)) \<and> (xs \<noteq> [] \<longrightarrow> prev_of log (hd xs) = None)
     \<and> successively (\<lambda>i j. prev_of log j = Some i) xs"

text \<open>The predecessor the next element of a chain must have.\<close>

definition chain_tip :: "transition_id list \<Rightarrow> transition_id option" where
  "chain_tip xs = (if xs = [] then None else Some (last xs))"

lemma canon_chain_snoc:
  "canon_chain log L xs \<Longrightarrow> is_valid (L i) \<Longrightarrow> prev_of log i = chain_tip xs \<Longrightarrow> canon_chain log L (xs @ [i])"
  by (cases "xs = []") (auto simp: canon_chain_def chain_tip_def successively_append_iff)

lemma canon_chain_epoch:
  assumes spec: "links_spec cr log L" and chain: "canon_chain log L xs" and "k < length xs"
  shows "unat (closure_epoch log (xs ! k)) = Suc k"
  using assms(3)
proof (induction k)
  case 0
  then have "prev_of log (xs ! 0) = None" "is_valid (L (xs ! 0))"
    using chain by (auto simp: canon_chain_def hd_conv_nth)
  then show ?case using valid_root [OF spec] by simp
next
  case (Suc k)
  have "prev_of log (xs ! Suc k) = Some (xs ! k)" "is_valid (L (xs ! Suc k))"
    using chain Suc.prems successively_nth [of "\<lambda>i j. prev_of log j = Some i" xs k]
    by (auto simp: canon_chain_def)
  from valid_prev [OF spec this(2,1)] Suc show ?case by (auto dest: checked_succ_unat)
qed

lemma canon_chain_distinct:
  assumes "links_spec cr log L" "canon_chain log L xs"
  shows "distinct xs"
  using canon_chain_epoch [OF assms] by (metis distinct_conv_nth nat.inject)

lemma canon_chain_last_epoch:
  assumes "links_spec cr log L" "canon_chain log L xs" "xs \<noteq> []" "i \<in> set xs"
  shows "unat (closure_epoch log i) \<le> unat (closure_epoch log (last xs))"
proof -
  from assms(4) obtain k where "k < length xs" "i = xs ! k" by (auto simp: in_set_conv_nth)
  with canon_chain_epoch [OF assms(1,2), of k] canon_chain_epoch [OF assms(1,2), of "length xs - 1"] assms(3)
  show ?thesis by (simp add: last_conv_nth)
qed

lemma canon_chain_pred:
  assumes "canon_chain log L xs" "i \<in> set xs"
  shows "prev_of log i = None \<or> (\<exists>p \<in> set xs. prev_of log i = Some p)"
proof -
  from assms(2) obtain k where k: "k < length xs" "i = xs ! k" by (auto simp: in_set_conv_nth)
  show ?thesis
  proof (cases k)
    case 0
    with k assms(1) show ?thesis by (auto simp: canon_chain_def hd_conv_nth)
  next
    case (Suc j)
    with k assms(1) successively_nth [of "\<lambda>i j. prev_of log j = Some i" xs j] show ?thesis
      by (auto simp: canon_chain_def)
  qed
qed

section \<open>What the walk records\<close>

text \<open>
  A canonical transition is settled when it has no valid sibling and resolves
  nothing, or the unique resolution of its fork follows it on the chain, or it is itself the unique
  resolution of the fork one epoch below.
\<close>

definition settled :: "membership_log \<Rightarrow> links \<Rightarrow> transition_id list \<Rightarrow> transition_id \<Rightarrow> bool" where
  "settled log L xs j \<longleftrightarrow>
     (sibs log L (prev_of log j) = {j} \<and> resolves_of log j = [])
     \<or> (\<exists>r \<in> set xs. prev_of log r = Some j \<and>
          {r. resolves_conflict log L (sibs log L (prev_of log j)) r} = {r})
     \<or> (\<exists>w. prev_of log j = Some w \<and>
          {r. resolves_conflict log L (sibs log L (prev_of log w)) r} = {j})"

definition state_for :: "links \<Rightarrow> transition_status option \<Rightarrow> transition_id \<Rightarrow> membership_state option" where
  "state_for L st i =
    (if st \<in> {Some SCanonical, Some SContested, Some SVoided} then map_option link_state (L i) else None)"

definition walked :: "membership_log \<Rightarrow> links \<Rightarrow> analysis \<Rightarrow> bool" where
  "walked log L result \<longleftrightarrow>
     canon_chain log L (an_canonical result)
     \<and> (\<forall>i. an_status result i = Some SCanonical \<longleftrightarrow> i \<in> set (an_canonical result))
     \<and> (\<forall>i st. an_status result i = Some st \<longrightarrow>
          is_valid (L i) \<and> st \<in> {SCanonical, SContested, SVoided, SInvalid ResolvesWithoutConflict})
     \<and> (\<forall>i. an_states result i = state_for L (an_status result i) i)"

lemma walkedD:
  assumes "walked log L result"
  shows "canon_chain log L (an_canonical result)"
    and "an_status result i = Some SCanonical \<longleftrightarrow> i \<in> set (an_canonical result)"
    and "an_status result i = Some st \<Longrightarrow> is_valid (L i)"
    and "an_status result i = Some st \<Longrightarrow>
      st \<in> {SCanonical, SContested, SVoided, SInvalid ResolvesWithoutConflict}"
    and "an_states result i = state_for L (an_status result i) i"
  using assms unfolding walked_def by blast+

lemma insert_simps [simp]:
  "an_status (insert_state L i result) = an_status result"
  "an_canonical (insert_state L i result) = an_canonical result"
  "an_frozen_at (insert_state L i result) = an_frozen_at result"
  "an_status (insert_status i st result) = (an_status result)(i \<mapsto> st)"
  "an_canonical (insert_status i st result) = an_canonical result"
  "an_frozen_at (insert_status i st result) = an_frozen_at result"
  "an_states (insert_status i st result) = an_states result"
  by (simp_all add: insert_state_def insert_status_def split: option.split link.split)

lemma insert_state_valid:
  "is_valid (L i) \<Longrightarrow> an_states (insert_state L i result) = (an_states result)(i \<mapsto> link_state (the (L i)))"
  by (auto simp: insert_state_def is_valid_iff)

lemma push_canonical_simps [simp]:
  "an_status (push_canonical L i result) = (an_status result)(i \<mapsto> SCanonical)"
  "an_canonical (push_canonical L i result) = an_canonical result @ [i]"
  "an_frozen_at (push_canonical L i result) = an_frozen_at result"
  "an_states (push_canonical L i result) = an_states (insert_state L i (insert_status i SCanonical result))"
  by (simp_all add: push_canonical_def Let_def)

lemma walked_default: "walked log L analysis_default"
  by (simp add: walked_def analysis_default_def canon_chain_def state_for_def)

lemma walked_push:
  assumes w: "walked log L result" and new: "an_status result i = None" and v: "is_valid (L i)"
    and p: "prev_of log i = chain_tip (an_canonical result)"
  shows "walked log L (push_canonical L i result)"
proof -
  have "canon_chain log L (an_canonical result @ [i])"
    using walkedD(1) [OF w] v p by (rule canon_chain_snoc)
  moreover have "an_states (push_canonical L i result) j
      = state_for L (((an_status result)(i \<mapsto> SCanonical)) j) j" for j
    using v walkedD(5) [OF w, of j] by (auto simp: insert_state_valid state_for_def is_valid_iff)
  ultimately show ?thesis
    unfolding walked_def using w v by (auto simp: walkedD(2) [OF w] dest: walkedD(3,4) [OF w])
qed

lemma walked_mark:
  assumes w: "walked log L result" and c: "i \<notin> set (an_canonical result)" and v: "is_valid (L i)"
    and st: "st \<in> {SContested, SVoided}"
  shows "walked log L (insert_state L i (insert_status i st result))"
proof -
  have "an_states (insert_state L i (insert_status i st result)) j
      = state_for L (((an_status result)(i \<mapsto> st)) j) j" for j
    using v st walkedD(5) [OF w, of j] by (auto simp: insert_state_valid state_for_def is_valid_iff)
  then show ?thesis
    unfolding walked_def using walkedD(1) [OF w] c v st
    by (auto simp: walkedD(2) [OF w] dest: walkedD(3,4) [OF w])
qed

lemma walked_invalid:
  assumes w: "walked log L result" and new: "an_status result i = None" and v: "is_valid (L i)"
  shows "walked log L (insert_status i (SInvalid ResolvesWithoutConflict) result)"
proof -
  have "i \<notin> set (an_canonical result)" using walkedD(2) [OF w, of i] new by simp
  moreover have "an_states result j
      = state_for L (((an_status result)(i \<mapsto> SInvalid ResolvesWithoutConflict)) j) j" for j
    using new walkedD(5) [OF w, of j] by (auto simp: state_for_def)
  ultimately show ?thesis
    unfolding walked_def using walkedD(1) [OF w] v
    by (auto simp: walkedD(2) [OF w] dest: walkedD(3,4) [OF w])
qed

lemma walked_frozen [simp]: "walked log L (result\<lparr>an_frozen_at := f\<rparr>) \<longleftrightarrow> walked log L result"
  by (simp add: walked_def)

lemma mark_contested_simps [simp]:
  "an_canonical (mark_contested L is result) = an_canonical result"
  "an_frozen_at (mark_contested L is result) = an_frozen_at result"
  "an_status (mark_contested L is result) i = (if i \<in> set is then Some SContested else an_status result i)"
  unfolding mark_contested_def by (induction "is" arbitrary: result) auto

lemma walked_mark_contested:
  "walked log L result \<Longrightarrow> set is \<inter> set (an_canonical result) = {} \<Longrightarrow> (\<And>i. i \<in> set is \<Longrightarrow> is_valid (L i)) \<Longrightarrow>
   walked log L (mark_contested L is result)"
  unfolding mark_contested_def by (induction "is" arbitrary: result) (auto simp: walked_mark)

section \<open>Epochs bound what has a verdict\<close>

definition bounded :: "membership_log \<Rightarrow> analysis \<Rightarrow> bool" where
  "bounded log result \<longleftrightarrow>
    (\<forall>i. an_status result i \<noteq> None \<longrightarrow> unat (closure_epoch log i) \<le> length (an_canonical result))"

lemma next_epoch:
  assumes spec: "links_spec cr log L" and chain: "canon_chain log L xs"
    and "is_valid (L i)" "prev_of log i = chain_tip xs"
  shows "unat (closure_epoch log i) = Suc (length xs)"
proof -
  have "canon_chain log L (xs @ [i])" using chain assms(3,4) by (rule canon_chain_snoc)
  from canon_chain_epoch [OF spec this, of "length xs"] show ?thesis by simp
qed

lemma bounded_fresh:
  assumes "bounded log result" "length (an_canonical result) < unat (closure_epoch log i)"
  shows "an_status result i = None"
  using assms by (auto simp: bounded_def)

lemma child_epoch:
  assumes "links_spec cr log L" "is_valid (L r)" "prev_of log r = Some w"
  shows "unat (closure_epoch log r) = Suc (unat (closure_epoch log w))"
  using valid_prev [OF assms] by (simp add: checked_succ_unat)

section \<open>Conflicts\<close>

text \<open>A valid transition without an open verdict: unreached, canonical or voided.\<close>

definition quiet :: "links \<Rightarrow> analysis \<Rightarrow> transition_id \<Rightarrow> bool" where
  "quiet L result i \<longleftrightarrow> (is_valid (L i) \<longrightarrow> an_status result i \<in> {None, Some SCanonical, Some SVoided})"

definition void_others ::
  "links \<Rightarrow> transition_id \<Rightarrow> transition_id set \<Rightarrow> transition_id list \<Rightarrow> analysis \<Rightarrow> analysis" where
  "void_others L w R cs result =
    fold (\<lambda>c result. if c = w then result
       else insert_state L c (insert_status c (if c \<in> R then SVoided else SContested) result)) cs result"

lemma void_others_simps [simp]:
  "an_canonical (void_others L w R cs result) = an_canonical result"
  "an_frozen_at (void_others L w R cs result) = an_frozen_at result"
  unfolding void_others_def by (induction cs arbitrary: result) auto

lemma void_others_status:
  "an_status (void_others L w R cs result) i =
    (if i \<in> set cs \<and> i \<noteq> w then Some (if i \<in> R then SVoided else SContested) else an_status result i)"
  unfolding void_others_def by (induction cs arbitrary: result) auto

lemma walked_void_others:
  assumes "walked log L result" "\<And>c. c \<in> set cs \<Longrightarrow> is_valid (L c)"
    and "\<And>c. c \<in> set cs \<Longrightarrow> c \<noteq> w \<Longrightarrow> c \<notin> set (an_canonical result)"
  shows "walked log L (void_others L w R cs result)"
  using assms unfolding void_others_def
proof (induction cs arbitrary: result)
  case (Cons c cs)
  show ?case
  proof (cases "c = w")
    case True
    with Cons show ?thesis by simp
  next
    case False
    with Cons.prems have "walked log L (insert_state L c (insert_status c (if c \<in> R then SVoided else SContested) result))"
      by (intro walked_mark) auto
    with False Cons.prems show ?thesis by (simp add: Cons.IH)
  qed
qed simp

lemma handle_conflict_resolved:
  assumes spec: "links_spec cr log L" and w: "walked log L result" and b: "bounded log result"
    and cs: "set cs = sibs log L (chain_tip (an_canonical result))" "distinct cs"
    and q: "\<And>i. quiet L result i" and r: "{r. resolves_conflict log L (set cs) r} = {r}"
  shows "\<exists>w result'. handle_conflict log L (build_children_index log) result cs e = (Resolved r, result')
    \<and> w \<in> set cs \<and> prev_of log r = Some w \<and> is_valid (L r)
    \<and> walked log L result' \<and> bounded log result' \<and> an_canonical result' = an_canonical result @ [w, r]
    \<and> an_frozen_at result' = an_frozen_at result \<and> (\<forall>i. quiet L result' i)"
proof -
  let ?xs = "an_canonical result"
  have chain: "canon_chain log L ?xs" using w by (rule walkedD(1))
  have cands: "resolution_candidates log L (build_children_index log) cs = [r]"
    using distinct_candidates [OF cs(2)] r by (intro distinct_singleton_list) (simp_all add: set_candidates)
  from r have "resolves_conflict log L (set cs) r" by blast
  then obtain w0 where rv: "is_valid (L r)" and w0: "w0 \<in> set cs" "prev_of log r = Some w0"
    and named: "set (resolves_of log r) = set cs - {w0}"
    by (auto simp: resolves_conflict_def)
  then obtain rt where rt: "log_transition log r = Some rt" "mt_prev rt = Some w0"
      "set (mt_resolves rt) = set cs - {w0}"
    by (auto simp: prev_of_def bind_eq_Some_conv resolves_of_def)
  define r1 where "r1 = push_canonical L w0 result"
  define r2 where "r2 = push_canonical L r r1"
  define r3 where "r3 = void_others L w0 (set (mt_resolves rt)) cs r2"
  have eq: "handle_conflict log L (build_children_index log) result cs e = (Resolved r, r3)"
    by (simp add: handle_conflict_def cands rt(1,2) r1_def r2_def r3_def void_others_def Let_def)
  have ep: "unat (closure_epoch log c) = Suc (length ?xs)" "is_valid (L c)" if "c \<in> set cs" for c
    using that cs(1) next_epoch [OF spec chain] by (auto simp: sibs_def)
  have epr: "unat (closure_epoch log r) = Suc (Suc (length ?xs))"
    using child_epoch [OF spec rv w0(2)] ep(1) [OF w0(1)] by simp
  have fresh: "an_status result c = None" if "c \<in> set cs" for c
    using b ep(1) [OF that] by (intro bounded_fresh) auto
  have r_new: "an_status result r = None" "r \<notin> set cs"
    using b epr ep(1) by (auto intro: bounded_fresh)
  have w1: "walked log L r1"
    unfolding r1_def using w fresh [OF w0(1)] ep(2) [OF w0(1)] w0(1) cs(1)
    by (intro walked_push) (auto simp: sibs_def)
  have w2: "walked log L r2"
    unfolding r2_def using w1 r_new w0 rv by (intro walked_push) (auto simp: r1_def chain_tip_def)
  have "c \<notin> set (an_canonical r2)" if "c \<in> set cs" "c \<noteq> w0" for c
    using that fresh [OF that(1)] r_new(2) walkedD(2) [OF w, of c] by (auto simp: r1_def r2_def)
  then have w3: "walked log L r3"
    unfolding r3_def using w2 ep(2) by (intro walked_void_others) auto
  have "bounded log r3"
    using b ep(1) epr w0(1) by (auto simp: bounded_def r3_def r2_def r1_def void_others_status le_SucI)
  moreover have "quiet L r3 i" for i
    using q [of i] rt(3) by (auto simp: quiet_def r3_def r2_def r1_def void_others_status)
  ultimately show ?thesis
    using eq w0 rv w3 by (intro exI [of _ w0] exI [of _ r3]) (simp add: r3_def r2_def r1_def)
qed

lemma handle_conflict_frozen:
  assumes spec: "links_spec cr log L" and w: "walked log L result" and b: "bounded log result"
    and cs: "set cs = sibs log L (chain_tip (an_canonical result))" "distinct cs"
    and r: "\<nexists>r. {r. resolves_conflict log L (set cs) r} = {r}"
  shows "\<exists>out result' f. handle_conflict log L (build_children_index log) result cs e = (out, result')
    \<and> (out = Unresolved \<or> out = Contradictory) \<and> walked log L result'
    \<and> an_canonical result' = an_canonical result \<and> an_frozen_at result' = Some f
    \<and> (f = e \<or> f = saturating_succ e)
    \<and> (\<forall>i. an_status result' i =
         (if i \<in> set cs \<or> resolves_conflict log L (set cs) i then Some SContested else an_status result i))"
proof -
  let ?xs = "an_canonical result" and ?cands = "resolution_candidates log L (build_children_index log) cs"
  have chain: "canon_chain log L ?xs" using w by (rule walkedD(1))
  have ep: "unat (closure_epoch log c) = Suc (length ?xs)" "is_valid (L c)" if "c \<in> set cs" for c
    using that cs(1) next_epoch [OF spec chain] by (auto simp: sibs_def)
  have new: "c \<notin> set ?xs" if "Suc (length ?xs) \<le> unat (closure_epoch log c)" for c
    using that bounded_fresh [OF b, of c] walkedD(2) [OF w, of c] by auto
  have cand: "is_valid (L g) \<and> g \<notin> set ?xs" if "g \<in> set ?cands" for g
  proof -
    from that obtain w0 where "is_valid (L g)" "w0 \<in> set cs" "prev_of log g = Some w0"
      by (auto simp: set_candidates resolves_conflict_def)
    with child_epoch [OF spec, of g w0] ep(1) [of w0] new [of g] show ?thesis by simp
  qed
  have mark: "walked log L (mark_contested L cs (result\<lparr>an_frozen_at := f\<rparr>))" for f
    using w ep new by (intro walked_mark_contested) auto
  consider "?cands = []" | r where "?cands = [r]" | a c ds where "?cands = a # c # ds"
    by (cases ?cands; cases "tl ?cands") auto
  then show ?thesis
  proof cases
    case 1
    then have "\<not> resolves_conflict log L (set cs) i" for i using set_candidates [of log L cs] by auto
    with 1 show ?thesis using mark by (simp add: handle_conflict_def)
  next
    case 2
    then have "{r. resolves_conflict log L (set cs) r} = {r}"
      using set_candidates [of log L cs] by simp
    with r show ?thesis by blast
  next
    case 3
    have "walked log L (mark_contested L (a # c # ds) (mark_contested L cs (result\<lparr>an_frozen_at := f\<rparr>)))" for f
      using cand 3 by (intro walked_mark_contested [OF mark]) auto
    moreover have "resolves_conflict log L (set cs) i \<longleftrightarrow> i \<in> set (a # c # ds)" for i
      using set_candidates [of log L cs] 3 by auto
    ultimately show ?thesis using 3 by (simp add: handle_conflict_def)
  qed
qed

section \<open>The walk ends and stops for a reason\<close>

definition stopped :: "membership_log \<Rightarrow> links \<Rightarrow> analysis \<Rightarrow> bool" where
  "stopped log L result \<longleftrightarrow>
    (let S = sibs log L (chain_tip (an_canonical result)) in
     case an_frozen_at result of
       None \<Rightarrow> (S = {} \<and> (\<forall>i. quiet L result i)) \<or>
         (an_canonical result \<noteq> [] \<and> (\<exists>c. S = {c} \<and> resolves_of log c \<noteq> []
            \<and> an_status result c = Some (SInvalid ResolvesWithoutConflict)
            \<and> (\<forall>i. i \<noteq> c \<longrightarrow> quiet L result i)))
     | Some f \<Rightarrow> (\<exists>a \<in> S. \<exists>b \<in> S. a \<noteq> b) \<and> (\<nexists>r. {r. resolves_conflict log L S r} = {r})
         \<and> (\<forall>c \<in> S. f = closure_epoch log c \<or> f = saturating_succ (closure_epoch log c))
         \<and> (\<forall>i. if i \<in> S \<or> resolves_conflict log L S i then an_status result i = Some SContested
              else quiet L result i))"

lemma settled_mono: "settled log L xs j \<Longrightarrow> set xs \<subseteq> set ys \<Longrightarrow> settled log L ys j"
  unfolding settled_def by blast

lemma chain_length:
  assumes "links_spec cr log L" "canon_chain log L xs"
  shows "length xs < 2 ^ 64"
proof (cases "xs = []")
  case False
  with canon_chain_epoch [OF assms, of "length xs - 1"]
  have "length xs = unat (closure_epoch log (xs ! (length xs - 1)))" by simp
  with unsigned_less [of "closure_epoch log (xs ! (length xs - 1))", where ?'a = nat]
  show ?thesis by simp
qed simp

lemma same_epoch:
  assumes "links_spec cr log L" "canon_chain log L xs" "a \<in> sibs log L (chain_tip xs)" "b \<in> sibs log L (chain_tip xs)"
  shows "closure_epoch log a = closure_epoch log b"
  using next_epoch [OF assms(1,2), of a] next_epoch [OF assms(1,2), of b] assms(3,4)
  by (simp add: sibs_def word_unat_eq_iff)

lemma frozen_stopped:
  assumes spec: "links_spec cr log L" and w: "walked log L result'"
    and cs: "set cs = sibs log L (chain_tip (an_canonical result'))"
    and two: "a \<in> set cs" "b \<in> set cs" "a \<noteq> b"
    and r: "\<nexists>r. {r. resolves_conflict log L (set cs) r} = {r}"
    and f: "an_frozen_at result' = Some f" "f = closure_epoch log a \<or> f = saturating_succ (closure_epoch log a)"
    and c: "\<And>i. if i \<in> set cs \<or> resolves_conflict log L (set cs) i then an_status result' i = Some SContested
      else quiet L result' i"
  shows "stopped log L result'"
proof -
  have "f = closure_epoch log c \<or> f = saturating_succ (closure_epoch log c)" if "c \<in> set cs" for c
    using same_epoch [OF spec walkedD(1) [OF w], of c a] that two(1) cs f(2) by simp
  moreover have "\<exists>a \<in> set cs. \<exists>b \<in> set cs. a \<noteq> b" using two by blast
  ultimately show ?thesis
    unfolding stopped_def Let_def cs [symmetric] f(1) using r c by simp
qed

definition walk_result :: "membership_log \<Rightarrow> links \<Rightarrow> analysis \<Rightarrow> bool" where
  "walk_result log L result \<longleftrightarrow>
     walked log L result \<and> stopped log L result \<and> (\<forall>j \<in> set (an_canonical result). settled log L (an_canonical result) j)"

lemma settled_pair:
  assumes "w \<in> set cs" "set cs = sibs log L p" "prev_of log w = p" "prev_of log r = Some w" "r \<in> set xs"
    and "{r. resolves_conflict log L (set cs) r} = {r}"
  shows "settled log L xs w" "settled log L xs r"
proof -
  have "prev_of log r = Some w \<and> {r. resolves_conflict log L (sibs log L (prev_of log w)) r} = {r}"
    using assms by simp
  with assms(5) show "settled log L xs w" "settled log L xs r" unfolding settled_def by blast+
qed

text \<open>The loop invariant, and what one round does: stop with a result, or extend the chain.\<close>

definition walk_inv :: "membership_log \<Rightarrow> links \<Rightarrow> analysis \<Rightarrow> bool" where
  "walk_inv log L result \<longleftrightarrow>
     walked log L result \<and> bounded log result \<and> an_canonical result \<noteq> [] \<and> an_frozen_at result = None
     \<and> (\<forall>i. quiet L result i) \<and> (\<forall>j \<in> set (an_canonical result). settled log L (an_canonical result) j)"

definition walk_from :: "membership_log \<Rightarrow> links \<Rightarrow> analysis \<Rightarrow> analysis option" where
  "walk_from log L result = walk log L (build_children_index log) result (last (an_canonical result))"

definition walk_round :: "membership_log \<Rightarrow> links \<Rightarrow> analysis \<Rightarrow> bool" where
  "walk_round log L result \<longleftrightarrow>
     (\<exists>res. walk_from log L result = Some res \<and> walk_result log L res)
     \<or> (\<exists>res. walk_from log L result = walk_from log L res \<and> walk_inv log L res
          \<and> length (an_canonical result) < length (an_canonical res))"

lemma walk_round_single:
  assumes spec: "links_spec cr log L" and inv: "walk_inv log L result"
    and kids: "valid_kids L (build_children_index log) (last (an_canonical result)) = [c]"
  shows "walk_round log L result"
proof -
  let ?xs = "an_canonical result"
  have w: "walked log L result" and b: "bounded log result" and ne: "?xs \<noteq> []" and
    fr: "an_frozen_at result = None" and q: "\<And>i. quiet L result i" and se: "\<And>j. j \<in> set ?xs \<Longrightarrow> settled log L ?xs j"
    using inv by (auto simp: walk_inv_def)
  have tip: "chain_tip ?xs = Some (last ?xs)" using ne by (simp add: chain_tip_def)
  have c: "is_valid (L c)" "prev_of log c = Some (last ?xs)" "sibs log L (Some (last ?xs)) = {c}"
    using set_valid_kids [of L log "last ?xs"] kids by (auto simp: sibs_def)
  obtain t where t: "log_transition log c = Some t" using valid_observed [OF spec c(1)] by blast
  note ep = next_epoch [OF spec walkedD(1) [OF w] c(1)]
  have new: "an_status result c = None" using ep c(2) tip by (intro bounded_fresh [OF b]) simp
  show ?thesis
  proof (cases "mt_resolves t = []")
    case False
    let ?r = "insert_status c (SInvalid ResolvesWithoutConflict) result"
    have "walk_from log L result = Some ?r"
      unfolding walk_from_def by (subst walk.simps) (simp add: kids t False)
    moreover have "stopped log L ?r"
      using ne c(3) tip t False fr q by (simp add: stopped_def resolves_of_def quiet_def)
    ultimately show ?thesis
      using walked_invalid [OF w new c(1)] se by (simp add: walk_round_def walk_result_def)
  next
    case True
    let ?r = "push_canonical L c result"
    have "walked log L ?r" using w new c(1) by (rule walked_push) (simp add: c(2) tip)
    moreover have "bounded log ?r" using b ep c(2) tip by (auto simp: bounded_def le_SucI)
    moreover have "settled log L (an_canonical ?r) j" if "j \<in> set (an_canonical ?r)" for j
      using that se c(2,3) True by (auto simp: settled_def resolves_of_def t)
    moreover have "walk_from log L result = walk_from log L ?r"
      unfolding walk_from_def by (subst walk.simps) (simp add: kids t True)
    moreover have "quiet L ?r i" for i using q [of i] by (simp add: quiet_def)
    ultimately show ?thesis
      unfolding walk_round_def using fr by (intro disjI2 exI [of _ ?r]) (simp add: walk_inv_def)
  qed
qed

lemma walk_round_conflict:
  assumes spec: "links_spec cr log L" and inv: "walk_inv log L result"
    and kids: "valid_kids L (build_children_index log) (last (an_canonical result)) = a # c # ds"
  shows "walk_round log L result"
proof -
  let ?xs = "an_canonical result" and ?cs = "a # c # ds" and ?idx = "build_children_index log"
  have w: "walked log L result" and b: "bounded log result" and ne: "?xs \<noteq> []" and
    fr: "an_frozen_at result = None" and q: "\<And>i. quiet L result i" and se: "\<And>j. j \<in> set ?xs \<Longrightarrow> settled log L ?xs j"
    using inv by (auto simp: walk_inv_def)
  have cs: "set ?cs = sibs log L (chain_tip ?xs)" "distinct ?cs"
    using set_valid_kids [of L log "last ?xs"] distinct_valid_kids [of L log "last ?xs"] ne
    unfolding kids by (simp_all add: chain_tip_def)
  then have av: "is_valid (L a)" by (auto simp: sibs_def)
  obtain t where t: "log_transition log a = Some t" using valid_observed [OF spec av] by blast
  then have ep: "mt_epoch t = closure_epoch log a" by (simp add: closure_epoch_def)
  show ?thesis
  proof (cases "\<exists>r. {r. resolves_conflict log L (set ?cs) r} = {r}")
    case True
    then obtain r where r: "{r. resolves_conflict log L (set ?cs) r} = {r}" by blast
    from handle_conflict_resolved [OF spec w b cs q r, of "mt_epoch t"]
    obtain v res where hc: "handle_conflict log L ?idx result ?cs (mt_epoch t) = (Resolved r, res)"
      and v: "v \<in> set ?cs" "prev_of log r = Some v"
      and res: "walked log L res" "bounded log res" "an_canonical res = ?xs @ [v, r]" "an_frozen_at res = None"
        "\<And>i. quiet L res i"
      using fr by auto
    have "prev_of log v = chain_tip ?xs" using v(1) cs(1) by (auto simp: sibs_def)
    then have pair: "settled log L (an_canonical res) v" "settled log L (an_canonical res) r"
      using settled_pair [OF v(1) cs(1) _ v(2) _ r] res(3) by simp_all
    have "settled log L (an_canonical res) j" if "j \<in> set (an_canonical res)" for j
      using that pair settled_mono [OF se, of j "an_canonical res"] by (auto simp: res(3))
    moreover have "walk_from log L result = walk_from log L res"
      unfolding walk_from_def by (subst walk.simps) (simp add: kids t hc res(3))
    ultimately show ?thesis
      unfolding walk_round_def using res by (intro disjI2 exI [of _ res]) (simp add: walk_inv_def)
  next
    case False
    from handle_conflict_frozen [OF spec w b cs, of "mt_epoch t"] False
    obtain out res f where hc: "handle_conflict log L ?idx result ?cs (mt_epoch t) = (out, res)"
      and out: "out = Unresolved \<or> out = Contradictory"
      and res: "walked log L res" "an_canonical res = ?xs" "an_frozen_at res = Some f"
        "f = mt_epoch t \<or> f = saturating_succ (mt_epoch t)"
      and st: "\<And>i. an_status res i =
        (if i \<in> set ?cs \<or> resolves_conflict log L (set ?cs) i then Some SContested else an_status result i)"
      by blast
    have open_: "if i \<in> set ?cs \<or> resolves_conflict log L (set ?cs) i then an_status res i = Some SContested
        else quiet L res i" for i
      using st [of i] q [of i] by (simp add: quiet_def)
    have cs': "set ?cs = sibs log L (chain_tip (an_canonical res))" using cs(1) res(2) by simp
    have "a \<in> set ?cs" "c \<in> set ?cs" "a \<noteq> c" using cs(2) by auto
    from frozen_stopped [OF spec res(1) cs' this False res(3) _ open_] res(4)
    have "stopped log L res" unfolding ep by blast
    moreover have "walk_from log L result = Some res"
      unfolding walk_from_def by (subst walk.simps) (use hc out in \<open>auto simp: kids t\<close>)
    ultimately show ?thesis
      using res(1,2) se by (simp add: walk_round_def walk_result_def)
  qed
qed

lemma walk_round:
  assumes "links_spec cr log L" "walk_inv log L result"
  shows "walk_round log L result"
proof -
  let ?kids = "valid_kids L (build_children_index log) (last (an_canonical result))"
  consider "?kids = []" | c where "?kids = [c]" | a c ds where "?kids = a # c # ds"
    by (cases ?kids; cases "tl ?kids") auto
  then show ?thesis
  proof cases
    case 1
    then have "sibs log L (chain_tip (an_canonical result)) = {}"
      using set_valid_kids [of L log "last (an_canonical result)"] assms(2)
      by (simp add: walk_inv_def chain_tip_def)
    moreover have "walk_from log L result = Some result"
      unfolding walk_from_def by (subst walk.simps) (simp add: 1)
    ultimately show ?thesis
      using assms(2) by (auto simp: walk_round_def walk_result_def walk_inv_def stopped_def)
  next
    case 2
    with assms show ?thesis by (rule walk_round_single)
  next
    case 3
    with assms show ?thesis by (rule walk_round_conflict)
  qed
qed

lemma walk_correct:
  assumes spec: "links_spec cr log L"
  shows "walk_inv log L result \<Longrightarrow> \<exists>res. walk_from log L result = Some res \<and> walk_result log L res"
proof (induction "2 ^ 64 - length (an_canonical result)" arbitrary: result rule: less_induct)
  case less
  from walk_round [OF spec less.prems] consider
    (stop) res where "walk_from log L result = Some res" "walk_result log L res"
  | (go) res where "walk_from log L result = walk_from log L res" "walk_inv log L res"
      "length (an_canonical result) < length (an_canonical res)"
    unfolding walk_round_def by blast
  then show ?case
  proof cases
    case stop
    then show ?thesis by blast
  next
    case go
    have "canon_chain log L (an_canonical res)" using go(2) by (simp add: walk_inv_def walked_def)
    from chain_length [OF spec this] go(3)
    have "2 ^ 64 - length (an_canonical res) < 2 ^ 64 - length (an_canonical result)" by simp
    from less.hyps [OF this go(2)] go(1) show ?thesis by simp
  qed
qed

section \<open>Genesis\<close>

lemma by_epoch_ids: "distinct (map snd (by_epoch log))"
proof -
  let ?f = "\<lambda>i. map_option (\<lambda>t. (mt_epoch t, i)) (log_transition log i)"
  have inj: "inj_on snd (set (List.map_filter ?f xs))" for xs
    by (auto simp: inj_on_def in_set_map_filter)
  have "distinct (List.map_filter ?f xs)" if "distinct xs" for xs
    using that by (induction xs) (auto simp: map_filter_simps in_set_map_filter split: option.split)
  from this [OF distinct_observed_ids] show ?thesis
    using inj by (simp add: by_epoch_def distinct_map)
qed

lemma geneses_sibs:
  assumes "links_spec cr log L"
  shows "set (geneses log L) = sibs log L None" "distinct (geneses log L)"
proof -
  have "i \<in> set (geneses log L) \<longleftrightarrow> i \<in> sibs log L None" for i
  proof (cases "is_valid (L i)")
    case True
    then obtain t where "log_transition log i = Some t" "check_intrinsic cr t = Inr ()"
      using valid_observed [OF assms] by blast
    with True show ?thesis
      by (auto simp: geneses_def set_by_epoch sibs_def prev_of_def intrinsic_genesis image_iff)
  qed (auto simp: geneses_def sibs_def)
  then show "set (geneses log L) = sibs log L None" by auto
  show "distinct (geneses log L)"
    unfolding geneses_def using by_epoch_ids by (rule distinct_map_filter)
qed

lemma bounded_default: "bounded log analysis_default"
  by (simp add: bounded_def analysis_default_def)

lemma quiet_default: "quiet L analysis_default i"
  by (simp add: quiet_def analysis_default_def)

lemma genesis_epoch:
  assumes "links_spec cr log L" "g \<in> sibs log L None"
  shows "closure_epoch log g = 1"
  using assms by (intro valid_root [OF assms(1)]) (auto simp: sibs_def)

lemma walk_genesis:
  assumes spec: "links_spec cr log L" and g: "geneses log L = [g]"
  shows "walk_inv log L (push_canonical L g analysis_default)"
proof -
  have sib: "sibs log L None = {g}" using geneses_sibs(1) [OF spec] g by simp
  then have v: "is_valid (L g)" "prev_of log g = None" by (auto simp: sibs_def)
  then have rs: "resolves_of log g = []"
    using valid_observed [OF spec v(1)]
    by (auto simp: resolves_of_def prev_of_def check_intrinsic_def split: if_splits)
  have "walked log L (push_canonical L g analysis_default)"
    using walked_default v by (intro walked_push) (auto simp: analysis_default_def chain_tip_def)
  moreover have "bounded log (push_canonical L g analysis_default)"
    using genesis_epoch [OF spec, of g] sib by (simp add: bounded_def analysis_default_def)
  ultimately show ?thesis
    using sib v rs by (simp add: walk_inv_def settled_def quiet_def analysis_default_def)
qed

lemma walk_geneses:
  assumes spec: "links_spec cr log L" and gs: "geneses log L = a # c # ds"
  shows "\<exists>res. walk_all log L = Some res \<and> walk_result log L res"
proof -
  let ?cs = "a # c # ds" and ?idx = "build_children_index log" and ?d = analysis_default
  have cs: "set ?cs = sibs log L (chain_tip (an_canonical ?d))" "distinct ?cs"
    using geneses_sibs [OF spec] unfolding gs by (simp_all add: analysis_default_def chain_tip_def)
  have mem: "a \<in> set ?cs" "c \<in> set ?cs" "a \<noteq> c" using cs(2) by auto
  have ep: "closure_epoch log a = 1"
    using genesis_epoch [OF spec, of a] cs(1) by (auto simp: analysis_default_def chain_tip_def)
  show ?thesis
  proof (cases "\<exists>r. {r. resolves_conflict log L (set ?cs) r} = {r}")
    case True
    then obtain r where r: "{r. resolves_conflict log L (set ?cs) r} = {r}" by blast
    from handle_conflict_resolved [OF spec walked_default bounded_default cs quiet_default r, of 1]
    obtain v res where hc: "handle_conflict log L ?idx ?d ?cs 1 = (Resolved r, res)"
      and v: "v \<in> set ?cs" "prev_of log r = Some v"
      and res: "walked log L res" "bounded log res" "an_canonical res = [v, r]" "an_frozen_at res = None"
        "\<And>i. quiet L res i"
      by (auto simp: analysis_default_def)
    have "prev_of log v = chain_tip (an_canonical ?d)" using v(1) cs(1) by (auto simp: sibs_def)
    then have "settled log L (an_canonical res) v" "settled log L (an_canonical res) r"
      using settled_pair [OF v(1) cs(1) _ v(2) _ r] res(3) by simp_all
    then have "walk_inv log L res" using res by (simp add: walk_inv_def)
    from walk_correct [OF spec this] show ?thesis
      by (simp add: walk_all_def gs hc walk_from_def res(3))
  next
    case False
    from handle_conflict_frozen [OF spec walked_default bounded_default cs, of 1] False
    obtain out res f where hc: "handle_conflict log L ?idx ?d ?cs 1 = (out, res)"
      and out: "out = Unresolved \<or> out = Contradictory"
      and res: "walked log L res" "an_canonical res = an_canonical ?d" "an_frozen_at res = Some f"
        "f = 1 \<or> f = saturating_succ 1"
      and st: "\<And>i. an_status res i =
        (if i \<in> set ?cs \<or> resolves_conflict log L (set ?cs) i then Some SContested else an_status ?d i)"
      by blast
    have open_: "if i \<in> set ?cs \<or> resolves_conflict log L (set ?cs) i then an_status res i = Some SContested
        else quiet L res i" for i
      using st [of i] quiet_default [of L i] by (simp add: quiet_def)
    have cs': "set ?cs = sibs log L (chain_tip (an_canonical res))" using cs(1) res(2) by simp
    from frozen_stopped [OF spec res(1) cs' mem False res(3) _ open_] res(4)
    have "stopped log L res" unfolding ep by blast
    then have "walk_result log L res" using res(1,2) by (simp add: walk_result_def analysis_default_def)
    moreover have "walk_all log L = Some res" using hc out by (auto simp: walk_all_def gs)
    ultimately show ?thesis by blast
  qed
qed

lemma walk_all_correct:
  assumes spec: "links_spec cr log L"
  shows "\<exists>res. walk_all log L = Some res \<and> walk_result log L res"
proof -
  consider "geneses log L = []" | g where "geneses log L = [g]" | a c ds where "geneses log L = a # c # ds"
    by (cases "geneses log L"; cases "tl (geneses log L)") auto
  then show ?thesis
  proof cases
    case 1
    then have "sibs log L None = {}" using geneses_sibs(1) [OF spec] by simp
    then have "walk_result log L analysis_default"
      using walked_default [of log L] quiet_default [of L]
      by (auto simp: walk_result_def stopped_def analysis_default_def chain_tip_def)
    with 1 show ?thesis by (simp add: walk_all_def)
  next
    case 2
    from walk_correct [OF spec walk_genesis [OF spec 2]] 2 show ?thesis
      by (simp add: walk_all_def walk_from_def analysis_default_def)
  next
    case 3
    with spec show ?thesis by (rule walk_geneses)
  qed
qed

section \<open>Everything else\<close>

lemma inherit_status_valid:
  assumes spec: "links_spec cr log L"
  shows "is_valid (L i) \<Longrightarrow> inherit_status log status i = Some SVoided"
proof (induction "unat (closure_epoch log i)" arbitrary: i rule: less_induct)
  case less
  obtain t where t: "log_transition log i = Some t" using valid_observed [OF spec less.prems] by blast
  show ?case
  proof (cases "mt_prev t")
    case None
    then show ?thesis by (subst inherit_status.simps) (simp add: t)
  next
    case (Some p)
    then have p: "prev_of log i = Some p" by (simp add: prev_of_def t)
    have "inherit_status log status p = Some SVoided"
      using valid_prev [OF spec less.prems p] child_epoch [OF spec less.prems p]
      by (intro less.hyps) simp_all
    with Some show ?thesis
      by (subst inherit_status.simps) (simp add: t split: option.split transition_status.split)
  qed
qed

text \<open>The verdict of a transition the walk did not reach.\<close>

fun rest_status :: "link option \<Rightarrow> transition_status option" where
  "rest_status None = None"
| "rest_status (Some (LInvalid reason)) = Some (SInvalid reason)"
| "rest_status (Some LPending) = Some SPending"
| "rest_status (Some LOrphaned) = Some SOrphaned"
| "rest_status (Some (LValid _ _)) = Some SVoided"

definition rest_verdict :: "links \<Rightarrow> transition_id set \<Rightarrow> analysis \<Rightarrow> transition_id \<Rightarrow> transition_status option" where
  "rest_verdict L I result i =
    (if an_status result i = None \<and> i \<in> I then rest_status (L i) else an_status result i)"

definition classified :: "links \<Rightarrow> transition_id set \<Rightarrow> analysis \<Rightarrow> analysis \<Rightarrow> bool" where
  "classified L I result res \<longleftrightarrow>
     an_canonical res = an_canonical result \<and> an_frozen_at res = an_frozen_at result
     \<and> (\<forall>i. an_status res i = rest_verdict L I result i)
     \<and> (\<forall>i. an_states res i =
          (if an_status result i = None \<and> i \<in> I \<and> is_valid (L i) then map_option link_state (L i)
           else an_states result i))"

lemma classified_step:
  assumes "an_status result i = None" "classified L I r1 res" "i \<notin> I"
    and "an_canonical r1 = an_canonical result" "an_frozen_at r1 = an_frozen_at result"
    and "an_status r1 = (an_status result)(i := rest_status (L i))"
    and "an_states r1 = (if is_valid (L i) then (an_states result)(i := map_option link_state (L i)) else an_states result)"
  shows "classified L (insert i I) result res"
  using assms by (auto simp: classified_def rest_verdict_def)

lemma classified_skip:
  "an_status result i \<noteq> None \<or> L i = None \<Longrightarrow> classified L I result res \<Longrightarrow> classified L (insert i I) result res"
  by (auto simp: classified_def rest_verdict_def)

lemma classify_ids_correct:
  assumes spec: "links_spec cr log L"
  shows "distinct ids \<Longrightarrow> \<exists>res. classify_ids log L ids result = Some res \<and> classified L (set ids) result res"
proof (induction ids arbitrary: result)
  case Nil
  then show ?case by (simp add: classified_def rest_verdict_def)
next
  case (Cons i ids)
  show ?case
  proof (cases "an_status result i \<noteq> None \<or> L i = None")
    case True
    with Cons.IH [of result] Cons.prems classified_skip show ?thesis by fastforce
  next
    case False
    then obtain l where l: "L i = Some l" and new: "an_status result i = None" by auto
    define r1 where "r1 = (case l of
        LValid state _ \<Rightarrow> (insert_status i SVoided result)\<lparr>an_states := (an_states result)(i \<mapsto> state)\<rparr>
      | _ \<Rightarrow> insert_status i (the (rest_status (L i))) result)"
    have "inherit_status log (an_status result) i = Some SVoided" if "is_valid (L i)"
      using spec that by (rule inherit_status_valid)
    then have run: "classify_ids log L (i # ids) result = classify_ids log L ids r1"
      using new l by (auto simp: r1_def split: link.split)
    obtain res where res: "classify_ids log L ids r1 = Some res" "classified L (set ids) r1 res"
      using Cons.IH [of r1] Cons.prems by auto
    have "classified L (insert i (set ids)) result res"
      using Cons.prems l by (intro classified_step [OF new res(2)]) (simp_all add: r1_def split: link.split)
    with run res(1) show ?thesis by auto
  qed
qed

section \<open>The analysis\<close>

text \<open>Everything the analysis of a log satisfies, over its table of links.\<close>

definition analysis_ok :: "membership_log \<Rightarrow> links \<Rightarrow> analysis \<Rightarrow> bool" where
  "analysis_ok log L a \<longleftrightarrow>
     canon_chain log L (an_canonical a)
     \<and> (\<forall>i. an_status a i = Some SCanonical \<longleftrightarrow> i \<in> set (an_canonical a))
     \<and> (\<forall>i. an_status a i \<noteq> None \<longleftrightarrow> log_transition log i \<noteq> None)
     \<and> (\<forall>i. an_states a i = state_for L (an_status a i) i)
     \<and> (\<forall>i. \<not> is_valid (L i) \<longrightarrow> an_status a i = rest_status (L i))
     \<and> (\<forall>i. is_valid (L i) \<longrightarrow> an_status a i \<in>
          {Some SCanonical, Some SContested, Some SVoided, Some (SInvalid ResolvesWithoutConflict)})
     \<and> (\<forall>j \<in> set (an_canonical a). settled log L (an_canonical a) j)
     \<and> stopped log L a"

lemma analysis_okD:
  assumes "analysis_ok log L a"
  shows "canon_chain log L (an_canonical a)"
    and "an_status a i = Some SCanonical \<longleftrightarrow> i \<in> set (an_canonical a)"
    and "an_status a i \<noteq> None \<longleftrightarrow> log_transition log i \<noteq> None"
    and "an_states a i = state_for L (an_status a i) i"
    and "\<not> is_valid (L i) \<Longrightarrow> an_status a i = rest_status (L i)"
    and "is_valid (L i) \<Longrightarrow> an_status a i \<in>
      {Some SCanonical, Some SContested, Some SVoided, Some (SInvalid ResolvesWithoutConflict)}"
    and "j \<in> set (an_canonical a) \<Longrightarrow> settled log L (an_canonical a) j"
    and "stopped log L a"
  using assms unfolding analysis_ok_def by blast+

lemma rest_status_eq:
  "rest_status l = None \<longleftrightarrow> l = None"
  "rest_status l = Some SCanonical \<longleftrightarrow> False"
  "is_valid l \<Longrightarrow> rest_status l = Some SVoided"
  by (cases l rule: rest_status.cases; simp)+

lemma stopped_mono:
  assumes "stopped log L w" "an_canonical a = an_canonical w" "an_frozen_at a = an_frozen_at w"
    and st: "\<And>i s. an_status w i = Some s \<Longrightarrow> an_status a i = Some s"
    and q: "\<And>i. quiet L w i \<Longrightarrow> quiet L a i"
  shows "stopped log L a"
proof (cases "an_frozen_at w")
  case None
  with assms(1-3) st q show ?thesis unfolding stopped_def Let_def by simp blast
next
  case (Some f)
  with assms(1-3) st q show ?thesis unfolding stopped_def Let_def by simp
qed

lemma classified_ok:
  assumes spec: "links_spec cr log L" and wr: "walk_result log L w"
    and cl: "classified L (set (observed_ids log)) w a"
  shows "analysis_ok log L a"
proof -
  have w: "walked log L w" and st: "stopped log L w"
    and se: "\<And>j. j \<in> set (an_canonical w) \<Longrightarrow> settled log L (an_canonical w) j"
    using wr by (auto simp: walk_result_def)
  have same: "an_canonical a = an_canonical w" "an_frozen_at a = an_frozen_at w"
    and status: "\<And>i. an_status a i = rest_verdict L (set (observed_ids log)) w i"
    and states: "\<And>i. an_states a i = (if an_status w i = None \<and> i \<in> set (observed_ids log) \<and> is_valid (L i)
       then map_option link_state (L i) else an_states w i)"
    using cl by (auto simp: classified_def)
  have dom: "L i = None \<longleftrightarrow> log_transition log i = None" for i
    using spec by (simp add: links_spec_def)
  have st_eq: "an_status a i = (if an_status w i = None then rest_status (L i) else an_status w i)" for i
    using dom [of i] by (auto simp: status rest_verdict_def set_observed_ids)
  have wv: "is_valid (L i)" if "an_status w i \<noteq> None" for i
    using that walkedD(3) [OF w] by blast
  have "quiet L a i" if "quiet L w i" for i
    using that by (auto simp: quiet_def st_eq rest_status_eq)
  then have "stopped log L a"
    using st same by (intro stopped_mono [OF st]) (auto simp: st_eq)
  moreover have "an_states a i = state_for L (an_status a i) i" for i
    using walkedD(5) [OF w, of i] dom [of i] wv [of i] rest_status_eq [of "L i"]
    by (auto simp: states st_eq state_for_def set_observed_ids is_valid_iff
        elim!: rest_status.elims split: if_splits)
  moreover have "an_status a i = Some SCanonical \<longleftrightarrow> i \<in> set (an_canonical a)" for i
    using walkedD(2) [OF w, of i] by (auto simp: st_eq same rest_status_eq)
  moreover have "an_status a i \<noteq> None \<longleftrightarrow> log_transition log i \<noteq> None" for i
    using dom [of i] wv [of i] rest_status_eq(1) [of "L i"] by (auto simp: st_eq)
  moreover have "an_status a i \<in> {Some SCanonical, Some SContested, Some SVoided,
      Some (SInvalid ResolvesWithoutConflict)}" if "is_valid (L i)" for i
    using that walkedD(4) [OF w, of i] by (cases "an_status w i") (auto simp: st_eq rest_status_eq)
  moreover have "an_status a i = rest_status (L i)" if "\<not> is_valid (L i)" for i
    using that wv [of i] by (auto simp: st_eq)
  ultimately show ?thesis
    using walkedD(1) [OF w] se by (simp add: analysis_ok_def same)
qed

lemma analyse_correct:
  assumes "log_wf cr log"
  shows "\<exists>a. analyse cr log = Some a \<and> analysis_ok log (all_links cr log) a"
proof -
  have spec: "links_spec cr log (all_links cr log)" using assms by (rule all_links_spec)
  obtain w where w: "walk_all log (all_links cr log) = Some w" "walk_result log (all_links cr log) w"
    using walk_all_correct [OF spec] by blast
  obtain a where a: "classify_remaining log (all_links cr log) w = Some a"
      "classified (all_links cr log) (set (observed_ids log)) w a"
    using classify_ids_correct [OF spec distinct_observed_ids] by (auto simp: classify_remaining_def)
  have "analyse cr log = Some a" by (simp add: analyse_def w(1) a(1))
  with classified_ok [OF spec w(2) a(2)] show ?thesis by blast
qed

text \<open>The verdict of every transition whose own link is valid.\<close>

definition valid_verdict :: "membership_log \<Rightarrow> links \<Rightarrow> analysis \<Rightarrow> transition_id \<Rightarrow> transition_status" where
  "valid_verdict log L a i =
    (let S = sibs log L (chain_tip (an_canonical a)) in
     if i \<in> set (an_canonical a) then SCanonical
     else if an_frozen_at a \<noteq> None \<and> (i \<in> S \<or> resolves_conflict log L S i) then SContested
     else if an_frozen_at a = None \<and> S = {i} then SInvalid ResolvesWithoutConflict
     else SVoided)"

lemma verdict_valid:
  assumes ok: "analysis_ok log L a" and v: "is_valid (L i)"
  shows "an_status a i = Some (valid_verdict log L a i)"
proof -
  let ?S = "sibs log L (chain_tip (an_canonical a))"
  note st = analysis_okD(8) [OF ok] and can = analysis_okD(2) [OF ok, of i]
  have some: "an_status a i \<noteq> None" using analysis_okD(6) [OF ok v] by auto
  show ?thesis
  proof (cases "an_frozen_at a")
    case None
    with st consider "?S = {}" "quiet L a i"
      | c where "?S = {c}" "an_status a c = Some (SInvalid ResolvesWithoutConflict)" "i \<noteq> c \<Longrightarrow> quiet L a i"
      unfolding stopped_def Let_def by auto
    then show ?thesis
      using None can some v by cases (auto simp: valid_verdict_def Let_def quiet_def)
  next
    case (Some f)
    with st have "if i \<in> ?S \<or> resolves_conflict log L ?S i then an_status a i = Some SContested
        else quiet L a i"
      unfolding stopped_def Let_def by simp
    with Some can some v show ?thesis
      by (auto simp: valid_verdict_def Let_def quiet_def split: if_splits)
  qed
qed

end
