(* ===== verification/Wyrd_Log.thy ===== *)
theory Wyrd_Log
  imports Wyrd_Walk
begin

text \<open>
  The membership log machine (\<open>crates/wyrd-sync/src/membership/mod.rs\<close>): observing
  transitions, the memoised analysis behind every read, and the reads.  A read
  takes \<open>&self\<close> but may fill the cache, so \<open>with_analysis\<close> returns the log with its
  value; the reads are the values.
\<close>

section \<open>Data\<close>

datatype authorizable =
    AuthValid membership_transition membership_state
  | AuthPending
  | AuthTerminal

record known_state =
  ks_epoch :: u64
  ks_transition_id :: transition_id
  ks_members_root :: array32
  ks_owners_root :: array32
  ks_readers_root :: array32

section \<open>Operations\<close>

definition log_new :: "drive_id \<Rightarrow> membership_log" where
  "log_new drive = \<lparr>ml_drive = drive, ml_transitions = fmempty, ml_analysis = None\<rparr>"

definition log_observe :: "crypto \<Rightarrow> membership_transition \<Rightarrow> membership_log \<Rightarrow> transition_id \<times> membership_log" where
  "log_observe cr t log =
    (let i = transition_id_of (cr_derive_key cr) t in
     (i, log\<lparr>ml_transitions := fmupd i t (ml_transitions log), ml_analysis := None\<rparr>))"

text \<open>\<open>analyse\<close> always returns on a log built by \<open>observe\<close>.\<close>

definition with_analysis :: "crypto \<Rightarrow> membership_log \<Rightarrow> (analysis \<Rightarrow> 'r) \<Rightarrow> 'r \<times> membership_log" where
  "with_analysis cr log f =
    (let log = (if ml_analysis log = None then log\<lparr>ml_analysis := Some (the (analyse cr log))\<rparr> else log) in
     (f (the (ml_analysis log)), log))"

definition log_contains :: "membership_log \<Rightarrow> transition_id \<Rightarrow> bool" where
  "log_contains log i \<longleftrightarrow> fmlookup (ml_transitions log) i \<noteq> None"

definition log_authoritative :: "crypto \<Rightarrow> membership_log \<Rightarrow> transition_id \<Rightarrow> authorizable option" where
  "log_authoritative cr log i =
    (case log_transition log i of
       None \<Rightarrow> None
     | Some transition \<Rightarrow>
         let (state, status) = fst (with_analysis cr log (\<lambda>a. (an_states a i, an_status a i))) in
         (case state of
            Some state \<Rightarrow> Some (AuthValid transition state)
          | None \<Rightarrow> (case status of Some SPending \<Rightarrow> Some AuthPending | _ \<Rightarrow> Some AuthTerminal)))"

definition log_status :: "crypto \<Rightarrow> membership_log \<Rightarrow> transition_id \<Rightarrow> transition_status option" where
  "log_status cr log i =
    (if \<not> log_contains log i then None else fst (with_analysis cr log (\<lambda>a. an_status a i)))"

definition log_statuses :: "crypto \<Rightarrow> membership_log \<Rightarrow> transition_id \<rightharpoonup> transition_status" where
  "log_statuses cr log = fst (with_analysis cr log an_status)"

text \<open>\<open>slice::last\<close> and \<open>slice::first\<close>.\<close>

definition last_opt :: "'a list \<Rightarrow> 'a option" where
  "last_opt xs = (if xs = [] then None else Some (last xs))"

definition first_opt :: "'a list \<Rightarrow> 'a option" where
  "first_opt xs = (case xs of [] \<Rightarrow> None | x # _ \<Rightarrow> Some x)"

definition log_known_state :: "crypto \<Rightarrow> membership_log \<Rightarrow> known_state option" where
  "log_known_state cr log =
    (case fst (with_analysis cr log (\<lambda>a. last_opt (an_canonical a))) of
       None \<Rightarrow> None
     | Some tip \<Rightarrow>
         map_option (\<lambda>t. \<lparr>ks_epoch = mt_epoch t, ks_transition_id = tip, ks_members_root = mt_members_root t,
             ks_owners_root = mt_owners_root t, ks_readers_root = mt_readers_root t\<rparr>)
           (log_transition log tip))"

definition log_frozen_at :: "crypto \<Rightarrow> membership_log \<Rightarrow> u64 option" where
  "log_frozen_at cr log = fst (with_analysis cr log an_frozen_at)"

definition log_state_of :: "crypto \<Rightarrow> membership_log \<Rightarrow> transition_id \<Rightarrow> membership_state option" where
  "log_state_of cr log i = fst (with_analysis cr log (\<lambda>a. an_states a i))"

definition log_members_of :: "crypto \<Rightarrow> membership_log \<Rightarrow> transition_id \<Rightarrow> device_id set option" where
  "log_members_of cr log i = map_option st_members (log_state_of cr log i)"

definition log_owners_of :: "crypto \<Rightarrow> membership_log \<Rightarrow> transition_id \<Rightarrow> device_id set option" where
  "log_owners_of cr log i = map_option st_owners (log_state_of cr log i)"

definition log_readers_of :: "crypto \<Rightarrow> membership_log \<Rightarrow> transition_id \<Rightarrow> device_id set option" where
  "log_readers_of cr log i = map_option st_readers (log_state_of cr log i)"

definition log_canonical_genesis :: "crypto \<Rightarrow> membership_log \<Rightarrow> transition_id option" where
  "log_canonical_genesis cr log = fst (with_analysis cr log (\<lambda>a. first_opt (an_canonical a)))"

text \<open>The cursor loop of \<open>is_retired\<close>; \<open>None\<close> would mean that it does not end.\<close>

partial_function (option) retired_from ::
  "membership_log \<Rightarrow> device_id \<Rightarrow> transition_id option \<Rightarrow> bool option" where
  "retired_from log device cursor =
    (case cursor of
       None \<Rightarrow> Some False
     | Some i \<Rightarrow>
         (case log_transition log i of
            None \<Rightarrow> Some False
          | Some t \<Rightarrow>
              if list_ex (\<lambda>change. admitted_device change = Some device) (mt_changes t) then Some True
              else retired_from log device (mt_prev t)))"

definition log_is_retired :: "crypto \<Rightarrow> membership_log \<Rightarrow> device_id \<Rightarrow> bool option" where
  "log_is_retired cr log device =
     retired_from log device (map_option ks_transition_id (log_known_state cr log))"

definition log_len :: "membership_log \<Rightarrow> nat" where
  "log_len log = fcard (fmdom (ml_transitions log))"

definition log_is_empty :: "membership_log \<Rightarrow> bool" where
  "log_is_empty log \<longleftrightarrow> fmdom (ml_transitions log) = {||}"

section \<open>Reachable logs\<close>

text \<open>
  Logs a peer can hold: observations and cache-filling reads from an empty log.
  What a read leaves behind does not depend on what it reads.
\<close>

inductive log_reach :: "crypto \<Rightarrow> drive_id \<Rightarrow> membership_log \<Rightarrow> bool" for cr drive where
  new: "log_reach cr drive (log_new drive)"
| observe: "log_reach cr drive log \<Longrightarrow> log_reach cr drive (snd (log_observe cr t log))"
| read: "log_reach cr drive log \<Longrightarrow> log_reach cr drive (snd (with_analysis cr log (\<lambda>_. ())))"

definition uncached :: "membership_log \<Rightarrow> membership_log" where
  "uncached log = log\<lparr>ml_analysis := None\<rparr>"

lemma uncached_simps [simp]:
  "log_transition (uncached log) i = log_transition log i"
  "ml_transitions (uncached log) = ml_transitions log"
  "ml_drive (uncached log) = ml_drive log"
  "log_wf cr (uncached log) \<longleftrightarrow> log_wf cr log"
  "observed_ids (uncached log) = observed_ids log"
  "uncached (uncached log) = uncached log"
  by (simp_all add: uncached_def log_transition_def log_wf_def observed_ids_def)

lemma uncached_id: "ml_analysis log = None \<Longrightarrow> uncached log = log"
  by (simp add: uncached_def)

text \<open>The cache, when filled, holds the analysis of exactly the observed set.\<close>

definition cache_ok :: "crypto \<Rightarrow> membership_log \<Rightarrow> bool" where
  "cache_ok cr log \<longleftrightarrow> (\<forall>a. ml_analysis log = Some a \<longrightarrow> analyse cr (uncached log) = Some a)"

lemma observe_wf: "log_wf cr log \<Longrightarrow> log_wf cr (snd (log_observe cr t log))"
  by (auto simp: log_observe_def log_wf_def Let_def fmpred_iff split: if_splits)

lemma with_analysis_value:
  assumes "log_wf cr log" "cache_ok cr log"
  shows "fst (with_analysis cr log f) = f (the (analyse cr (uncached log)))"
    and "snd (with_analysis cr log f) = log\<lparr>ml_analysis := analyse cr (uncached log)\<rparr>"
proof -
  obtain a where a: "analyse cr (uncached log) = Some a"
    using analyse_correct [of cr "uncached log"] assms(1) by auto
  have "fst (with_analysis cr log f) = f a \<and> snd (with_analysis cr log f) = log\<lparr>ml_analysis := Some a\<rparr>"
    using a assms(2) uncached_id [of log]
    by (cases "ml_analysis log") (auto simp: with_analysis_def cache_ok_def)
  with a show "fst (with_analysis cr log f) = f (the (analyse cr (uncached log)))"
    and "snd (with_analysis cr log f) = log\<lparr>ml_analysis := analyse cr (uncached log)\<rparr>"
    by simp_all
qed

lemma log_reach_inv: "log_reach cr drive log \<Longrightarrow> log_wf cr log \<and> cache_ok cr log \<and> ml_drive log = drive"
proof (induction rule: log_reach.induct)
  case new
  then show ?case by (simp add: log_new_def log_wf_def cache_ok_def)
next
  case (observe log t)
  then show ?case using observe_wf [of cr log t] by (simp add: log_observe_def Let_def cache_ok_def)
next
  case (read log)
  then have "snd (with_analysis cr log (\<lambda>_. ())) = log\<lparr>ml_analysis := analyse cr (uncached log)\<rparr>"
    using with_analysis_value(2) by blast
  with read show ?case by (simp add: log_wf_def cache_ok_def uncached_def)
qed

text \<open>The analysis every read of a reachable log is served from.\<close>

definition served :: "crypto \<Rightarrow> membership_log \<Rightarrow> analysis" where
  "served cr log = the (analyse cr (uncached log))"

definition table :: "crypto \<Rightarrow> membership_log \<Rightarrow> links" where
  "table cr log = all_links cr (uncached log)"

lemma read_value: "log_reach cr drive log \<Longrightarrow> fst (with_analysis cr log f) = f (served cr log)"
  using log_reach_inv with_analysis_value(1) by (fastforce simp: served_def)

lemma served_ok:
  assumes "log_reach cr drive log"
  shows "analyse cr (uncached log) = Some (served cr log)"
    and "analysis_ok (uncached log) (table cr log) (served cr log)"
    and "links_spec cr (uncached log) (table cr log)"
proof -
  have wf: "log_wf cr (uncached log)" using log_reach_inv [OF assms] by simp
  obtain a where "analyse cr (uncached log) = Some a" "analysis_ok (uncached log) (table cr log) a"
    using analyse_correct [OF wf] by (auto simp: table_def)
  then show "analyse cr (uncached log) = Some (served cr log)"
    "analysis_ok (uncached log) (table cr log) (served cr log)"
    by (simp_all add: served_def)
  show "links_spec cr (uncached log) (table cr log)"
    unfolding table_def using wf by (rule all_links_spec)
qed

end
