(* ===== verification/Wyrd_Sample.thy ===== *)
theory Wyrd_Sample
  imports Wyrd_Log
begin

text \<open>
  A concrete log the membership theorems are applied to: a stand-in for the
  curve library and the key derivation, a genesis that admits one owner, and a
  rotation on top of it.
\<close>

definition sample_dk :: kdf where
  "sample_dk ctx bs = (if ctx = ''wyrd transition id v1'' then word_of_nat (length bs) else 0)"

definition sample_cr :: crypto where
  "sample_cr =
    \<lparr>cr_derive_key = sample_dk, cr_xonly_from_slice = (\<lambda>_. True), cr_signature_from_slice = (\<lambda>_. True),
     cr_verify_schnorr = (\<lambda>_ _ _. True), cr_sign_schnorr = (\<lambda>_ _. 0)\<rparr>"

definition sample_genesis :: membership_transition where
  "sample_genesis =
    \<lparr>mt_epoch = 1, mt_prev = None, mt_resolves = [],
     mt_changes = [Admit \<lparr>adm_device = Ident 1, adm_encryption_key = Ident 2\<rparr>, SetOwners [Ident 1]],
     mt_members_root = 0, mt_owners_root = 0, mt_readers_root = 0, mt_author = Ident 1, mt_signature = 0\<rparr>"

text \<open>A successor that only rotates, \<open>n\<close> times, so that successors can differ.\<close>

definition sample_step :: "u64 \<Rightarrow> transition_id \<Rightarrow> transition_id list \<Rightarrow> nat \<Rightarrow> membership_transition" where
  "sample_step e p rs n =
    \<lparr>mt_epoch = e, mt_prev = Some p, mt_resolves = rs, mt_changes = replicate n Rotate,
     mt_members_root = 0, mt_owners_root = 0, mt_readers_root = 0, mt_author = Ident 1, mt_signature = 0\<rparr>"

definition sample_observe :: "membership_transition list \<Rightarrow> membership_log" where
  "sample_observe ts = fold (\<lambda>t log. snd (log_observe sample_cr t log)) ts (log_new (Ident 9))"

definition sample_log :: membership_log where
  "sample_log = sample_observe [sample_genesis, sample_step 2 (Ident 311) [] 1]"

lemma sample_reach_fold:
  "log_reach sample_cr (Ident 9) log \<Longrightarrow>
   log_reach sample_cr (Ident 9) (fold (\<lambda>t log. snd (log_observe sample_cr t log)) ts log)"
  by (induction ts arbitrary: log) (auto intro: log_reach.observe)

lemma sample_reach_observe: "log_reach sample_cr (Ident 9) (sample_observe ts)"
  unfolding sample_observe_def by (intro sample_reach_fold log_reach.new)

lemma sample_reach: "log_reach sample_cr (Ident 9) sample_log"
  unfolding sample_log_def by (rule sample_reach_observe)

lemma length_concat_rotate [simp]: "length (concat (map change_bytes (replicate n Rotate))) = n"
  by (induction n) (simp_all add: change_bytes_def)

lemma sample_ids:
  "transition_id_of sample_dk sample_genesis = Ident 311"
  "n \<le> 9 \<Longrightarrow> length rs \<le> 9 \<Longrightarrow>
   transition_id_of sample_dk (sample_step e p rs n) = Ident (word_of_nat (241 + 32 * length rs + n))"
  by (simp_all add: transition_id_of_alt transition_canonical_bytes_def transition_signing_preimage_def
      sample_dk_def sample_genesis_def sample_step_def prev_bytes_def change_bytes_def length_u32_le
      U32_MAX_def)

definition sample_state :: membership_state where
  "sample_state =
    \<lparr>st_members = {Ident 1}, st_owners = {Ident 1}, st_readers = {}, st_encryption_keys = [Ident 1 \<mapsto> Ident 2]\<rparr>"

lemma sample_root:
  "ctx \<noteq> ''wyrd transition id v1'' \<Longrightarrow> finite S \<Longrightarrow> card S \<le> U32_MAX \<Longrightarrow> root_matches sample_dk ctx S 0"
  by (simp add: root_matches_def set_root_sets Let_def sample_dk_def)

lemma sample_derive:
  "derive_next sample_cr state_default sample_genesis = Inr sample_state"
  "derive_next sample_cr sample_state (sample_step e p rs n) = Inr sample_state"
proof -
  have rot: "apply_changes st (replicate n Rotate) = Inr st" "devices_by f (replicate n Rotate) = {}"
    if "f Rotate = None" for st f
    using that by (induction n) auto
  show "derive_next sample_cr state_default sample_genesis = Inr sample_state"
    "derive_next sample_cr sample_state (sample_step e p rs n) = Inr sample_state"
    by (simp_all add: derive_next_Inr apply_transition_Inr sample_genesis_def sample_step_def sample_cr_def
        state_default_def sample_state_def sample_root U32_MAX_def MEMBER_SET_CONTEXT_def
        OWNER_SET_CONTEXT_def READER_SET_CONTEXT_def rot [of admitted_device] rot [of removed_device])
qed

lemma sample_checks:
  "check_intrinsic sample_cr sample_genesis = Inr ()"
  "e \<noteq> 0 \<Longrightarrow> e \<noteq> 1 \<Longrightarrow> 0 < n \<Longrightarrow> check_intrinsic sample_cr (sample_step e p rs n) = Inr ()"
  "signature_verifies sample_cr d t"
  by (simp_all add: check_intrinsic_def signature_verifies_def Let_def sample_cr_def sample_genesis_def
      sample_step_def list_all_iff)

lemma sample_fields:
  "mt_prev sample_genesis = None" "mt_resolves sample_genesis = []" "mt_epoch sample_genesis = 1"
  "mt_prev (sample_step e p rs n) = Some p" "mt_resolves (sample_step e p rs n) = rs"
  "mt_epoch (sample_step e p rs n) = e" "mt_author (sample_step e p rs n) = Ident 1"
  "admits sample_genesis = [Ident 1]" "admits (sample_step e p rs n) = []"
proof -
  have "List.map_filter admitted_device (replicate n Rotate) = []"
    by (induction n) (simp_all add: map_filter_simps)
  then show "admits (sample_step e p rs n) = []" by (simp add: admits_def sample_step_def)
qed (simp_all add: sample_genesis_def sample_step_def admits_def map_filter_simps)

lemma sample_link_genesis:
  assumes "links_spec sample_cr log L" "log_transition log (Ident 311) = Some sample_genesis"
  shows "L (Ident 311) = Some (LValid sample_state {Ident 1})"
  using assms(2)
  by (simp add: valid_link_iff [OF assms(1)] sample_checks genesis_step_def sample_fields sample_derive)
    (simp add: check_genesis_shape_def sample_state_def)

lemma sample_link_step:
  assumes "links_spec sample_cr log L" "log_transition log i = Some (sample_step e p rs n)"
    and "e \<noteq> 0" "e \<noteq> 1" "0 < n" "L p = Some (LValid sample_state {Ident 1})"
    and "log_transition log p = Some pt" "checked_succ (mt_epoch pt) = Some e" "distinct rs"
    and "\<And>r. r \<in> set rs \<Longrightarrow> is_valid (L r) \<and>
      (\<exists>rt. log_transition log r = Some rt \<and> checked_succ (mt_epoch rt) = Some e)"
  shows "L i = Some (LValid sample_state {Ident 1})"
proof -
  have "child_step sample_cr log L (sample_step e p rs n) p sample_state {Ident 1} sample_state {Ident 1}"
    using assms(6-10) by (simp add: child_step_def sample_fields sample_derive) (simp add: sample_state_def)
  with assms show ?thesis by (auto simp: valid_link_iff [OF assms(1)] sample_checks)
qed

lemma sample_transition:
  "log_transition sample_log i =
    (if i = Ident 242 then Some (sample_step 2 (Ident 311) [] 1)
     else if i = Ident 311 then Some sample_genesis else None)"
  by (simp add: log_transition_def sample_log_def sample_observe_def log_observe_def Let_def log_new_def
      sample_ids sample_cr_def)

lemma sample_links:
  "table sample_cr sample_log (Ident 311) = Some (LValid sample_state {Ident 1})"
  "table sample_cr sample_log (Ident 242) = Some (LValid sample_state {Ident 1})"
proof -
  note spec = served_ok(3) [OF sample_reach]
  show g: "table sample_cr sample_log (Ident 311) = Some (LValid sample_state {Ident 1})"
    by (rule sample_link_genesis [OF spec]) (simp add: sample_transition)
  show "table sample_cr sample_log (Ident 242) = Some (LValid sample_state {Ident 1})"
    by (rule sample_link_step [where e = 2 and rs = "[]" and n = 1 and pt = sample_genesis, OF spec _ _ _ _ g])
      (simp_all add: sample_transition checked_succ_def sample_fields)
qed

lemma sample_sibs:
  "sibs (uncached sample_log) (table sample_cr sample_log) None = {Ident 311}"
  "sibs (uncached sample_log) (table sample_cr sample_log) (Some (Ident 311)) = {Ident 242}"
  "resolves_of (uncached sample_log) i = []"
  by (auto simp: sibs_def sample_transition prev_of_def sample_fields sample_links resolves_of_def
      split: if_splits)

lemma sample_canonical: "an_canonical (served sample_cr sample_log) = [Ident 311, Ident 242]"
proof -
  let ?log = "uncached sample_log" and ?L = "table sample_cr sample_log"
  let ?xs = "an_canonical (served sample_cr sample_log)"
  note ok = served_ok(2) [OF sample_reach] and spec = served_ok(3) [OF sample_reach]
  have chain: "canon_chain ?log ?L ?xs" using ok by (rule analysis_okD(1))
  have one: "a = b" if "a \<in> sibs ?log ?L p" "b \<in> sibs ?log ?L p" for a b p
    using that by (auto simp: sibs_def sample_transition prev_of_def sample_fields split: if_splits)
  have end_: "sibs ?log ?L (chain_tip ?xs) = {}"
    using analysis_okD(8) [OF ok] one by (auto simp: stopped_def Let_def sample_sibs split: option.splits)
  have obs: "i = Ident 311 \<or> i = Ident 242" if "i \<in> set ?xs" for i
    using that chain valid_observed [OF spec, of i]
    by (auto simp: canon_chain_def sample_transition split: if_splits)
  have p: "prev_of ?log (Ident 311) = None" "prev_of ?log (Ident 242) = Some (Ident 311)"
    by (simp_all add: prev_of_def sample_transition sample_fields)
  obtain x ys where xs: "?xs = x # ys"
    using end_ sample_sibs(1) by (cases ?xs) (auto simp: chain_tip_def)
  then have x: "x = Ident 311" using obs [of x] p chain by (auto simp: canon_chain_def)
  obtain y zs where ys: "ys = y # zs"
    using end_ sample_sibs(2) xs x by (cases ys) (auto simp: chain_tip_def)
  then have y: "y = Ident 242" using obs [of y] p chain xs x by (auto simp: canon_chain_def)
  have "zs = []"
  proof (cases zs)
    case (Cons z zs')
    with obs [of z] p chain xs ys y show ?thesis by (auto simp: canon_chain_def)
  qed simp
  with xs ys x y show ?thesis by simp
qed

section \<open>Forks\<close>

text \<open>
  Three more logs over the same genesis: a fork settled by a resolution; a child
  that names its own predecessor in \<open>resolves\<close> with a successor of its own; and the
  same child beside an ordinary rival.
\<close>

definition fork_log :: membership_log where
  "fork_log = sample_observe [sample_genesis, sample_step 2 (Ident 311) [] 1, sample_step 2 (Ident 311) [] 2,
     sample_step 3 (Ident 242) [Ident 243] 1]"

lemma fork_reach: "log_reach sample_cr (Ident 9) fork_log"
  unfolding fork_log_def by (rule sample_reach_observe)

lemma fork_transition:
  "log_transition fork_log i =
    (if i = Ident 274 then Some (sample_step 3 (Ident 242) [Ident 243] 1)
     else if i = Ident 243 then Some (sample_step 2 (Ident 311) [] 2)
     else if i = Ident 242 then Some (sample_step 2 (Ident 311) [] 1)
     else if i = Ident 311 then Some sample_genesis else None)"
  by (simp add: log_transition_def fork_log_def sample_observe_def log_observe_def Let_def log_new_def
      sample_ids sample_cr_def)

lemma fork_links:
  "table sample_cr fork_log (Ident 311) = Some (LValid sample_state {Ident 1})"
  "table sample_cr fork_log (Ident 242) = Some (LValid sample_state {Ident 1})"
  "table sample_cr fork_log (Ident 243) = Some (LValid sample_state {Ident 1})"
  "table sample_cr fork_log (Ident 274) = Some (LValid sample_state {Ident 1})"
proof -
  note spec = served_ok(3) [OF fork_reach]
  show g: "table sample_cr fork_log (Ident 311) = Some (LValid sample_state {Ident 1})"
    by (rule sample_link_genesis [OF spec]) (simp add: fork_transition)
  show a: "table sample_cr fork_log (Ident 242) = Some (LValid sample_state {Ident 1})"
    by (rule sample_link_step [where e = 2 and rs = "[]" and n = 1 and pt = sample_genesis, OF spec _ _ _ _ g])
      (simp_all add: fork_transition checked_succ_def sample_fields)
  show b: "table sample_cr fork_log (Ident 243) = Some (LValid sample_state {Ident 1})"
    by (rule sample_link_step [where e = 2 and rs = "[]" and n = 2 and pt = sample_genesis, OF spec _ _ _ _ g])
      (simp_all add: fork_transition checked_succ_def sample_fields)
  show "table sample_cr fork_log (Ident 274) = Some (LValid sample_state {Ident 1})"
    by (rule sample_link_step [where e = 3 and rs = "[Ident 243]" and n = 1
          and pt = "sample_step 2 (Ident 311) [] 1", OF spec _ _ _ _ a])
      (simp_all add: fork_transition checked_succ_def sample_fields b)
qed

lemma fork_shape:
  "prev_of (uncached fork_log) i =
    (if i = Ident 274 then Some (Ident 242) else if i = Ident 243 \<or> i = Ident 242 then Some (Ident 311) else None)"
  "resolves_of (uncached fork_log) i = (if i = Ident 274 then [Ident 243] else [])"
  "sibs (uncached fork_log) (table sample_cr fork_log) None = {Ident 311}"
  "sibs (uncached fork_log) (table sample_cr fork_log) (Some (Ident 311)) = {Ident 242, Ident 243}"
  by (auto simp: prev_of_def resolves_of_def sibs_def fork_transition sample_fields fork_links split: if_splits)

lemma fork_resolution:
  "{r. resolves_conflict (uncached fork_log) (table sample_cr fork_log) {Ident 242, Ident 243} r} = {Ident 274}"
  by (auto simp: resolves_conflict_def fork_shape fork_links split: if_splits)

text \<open>The winner of the fork is canonical.\<close>

lemma fork_winner: "Ident 242 \<in> set (an_canonical (served sample_cr fork_log))"
proof (rule ccontr)
  let ?log = "uncached fork_log" and ?L = "table sample_cr fork_log"
  let ?xs = "an_canonical (served sample_cr fork_log)"
  assume no: "Ident 242 \<notin> set ?xs"
  note ok = served_ok(2) [OF fork_reach] and spec = served_ok(3) [OF fork_reach]
  have chain: "canon_chain ?log ?L ?xs" using ok by (rule analysis_okD(1))
  have st: "stopped ?log ?L (served sample_cr fork_log)" using ok by (rule analysis_okD(8))
  have "Ident 243 \<notin> set ?xs"
  proof
    assume "Ident 243 \<in> set ?xs"
    moreover have "\<not> resolves_conflict ?log ?L S (Ident 243)" for S
      by (simp add: resolves_conflict_def fork_shape)
    ultimately show False
      using analysis_okD(7) [OF ok, of "Ident 243"] by (auto simp: settled_def fork_shape split: if_splits)
  qed
  moreover have "i \<in> {Ident 311, Ident 242, Ident 243, Ident 274}" if "i \<in> set ?xs" for i
    using that chain valid_observed [OF spec, of i]
    by (auto simp: canon_chain_def fork_transition split: if_splits)
  moreover have "Ident 274 \<notin> set ?xs"
  proof
    assume "Ident 274 \<in> set ?xs"
    with canon_chain_pred [OF chain this] no show False by (simp add: fork_shape)
  qed
  ultimately have "set ?xs \<subseteq> {Ident 311}" using no by blast
  then have "chain_tip ?xs = None \<or> chain_tip ?xs = Some (Ident 311)"
    by (cases "?xs = []") (auto simp: chain_tip_def dest: last_in_set)
  with st show False
    using fork_resolution by (auto simp: stopped_def Let_def fork_shape split: option.splits)
qed

definition stray_log :: membership_log where
  "stray_log = sample_observe [sample_genesis, sample_step 2 (Ident 311) [Ident 311] 1,
     sample_step 3 (Ident 274) [] 1]"

lemma stray_reach: "log_reach sample_cr (Ident 9) stray_log"
  unfolding stray_log_def by (rule sample_reach_observe)

lemma stray_transition:
  "log_transition stray_log i =
    (if i = Ident 242 then Some (sample_step 3 (Ident 274) [] 1)
     else if i = Ident 274 then Some (sample_step 2 (Ident 311) [Ident 311] 1)
     else if i = Ident 311 then Some sample_genesis else None)"
  by (simp add: log_transition_def stray_log_def sample_observe_def log_observe_def Let_def log_new_def
      sample_ids sample_cr_def)

lemma stray_links:
  "table sample_cr stray_log (Ident 311) = Some (LValid sample_state {Ident 1})"
  "table sample_cr stray_log (Ident 274) = Some (LValid sample_state {Ident 1})"
  "table sample_cr stray_log (Ident 242) = Some (LValid sample_state {Ident 1})"
proof -
  note spec = served_ok(3) [OF stray_reach]
  show g: "table sample_cr stray_log (Ident 311) = Some (LValid sample_state {Ident 1})"
    by (rule sample_link_genesis [OF spec]) (simp add: stray_transition)
  show x: "table sample_cr stray_log (Ident 274) = Some (LValid sample_state {Ident 1})"
    by (rule sample_link_step [where e = 2 and rs = "[Ident 311]" and n = 1 and pt = sample_genesis,
          OF spec _ _ _ _ g])
      (simp_all add: stray_transition checked_succ_def sample_fields g)
  show "table sample_cr stray_log (Ident 242) = Some (LValid sample_state {Ident 1})"
    by (rule sample_link_step [where e = 3 and rs = "[]" and n = 1
          and pt = "sample_step 2 (Ident 311) [Ident 311] 1", OF spec _ _ _ _ x])
      (simp_all add: stray_transition checked_succ_def sample_fields)
qed

lemma stray_shape:
  "prev_of (uncached stray_log) i =
    (if i = Ident 242 then Some (Ident 274) else if i = Ident 274 then Some (Ident 311) else None)"
  "resolves_of (uncached stray_log) i = (if i = Ident 274 then [Ident 311] else [])"
  "sibs (uncached stray_log) (table sample_cr stray_log) None = {Ident 311}"
  "sibs (uncached stray_log) (table sample_cr stray_log) (Some (Ident 311)) = {Ident 274}"
  "sibs (uncached stray_log) (table sample_cr stray_log) (Some (Ident 274)) = {Ident 242}"
  by (auto simp: prev_of_def resolves_of_def sibs_def stray_transition sample_fields stray_links split: if_splits)

text \<open>The child that resolves its own predecessor is rejected by the walk, its link being valid.\<close>

lemma stray_rejected:
  "an_status (served sample_cr stray_log) (Ident 274) = Some (SInvalid ResolvesWithoutConflict)"
proof -
  let ?log = "uncached stray_log" and ?L = "table sample_cr stray_log"
  let ?a = "served sample_cr stray_log"
  note ok = served_ok(2) [OF stray_reach] and spec = served_ok(3) [OF stray_reach]
  have chain: "canon_chain ?log ?L (an_canonical ?a)" using ok by (rule analysis_okD(1))
  have no: "Ident 274 \<notin> set (an_canonical ?a)"
  proof
    assume "Ident 274 \<in> set (an_canonical ?a)"
    moreover have "\<not> resolves_conflict ?log ?L {Ident 311} (Ident 274)"
      "\<not> resolves_conflict ?log ?L {Ident 274} (Ident 242)"
      by (simp_all add: resolves_conflict_def stray_shape)
    ultimately show False
      using analysis_okD(7) [OF ok, of "Ident 274"] by (auto simp: settled_def stray_shape split: if_splits)
  qed
  have "Ident 242 \<notin> set (an_canonical ?a)"
    using canon_chain_pred [OF chain, of "Ident 242"] no by (auto simp: stray_shape)
  moreover have "i \<in> {Ident 311, Ident 242, Ident 274}" if "i \<in> set (an_canonical ?a)" for i
    using that chain valid_observed [OF spec, of i]
    by (auto simp: canon_chain_def stray_transition split: if_splits)
  ultimately have "set (an_canonical ?a) \<subseteq> {Ident 311}" using no by blast
  then have "chain_tip (an_canonical ?a) = None \<or> chain_tip (an_canonical ?a) = Some (Ident 311)"
    by (cases "an_canonical ?a = []") (auto simp: chain_tip_def dest: last_in_set)
  then show ?thesis
    using analysis_okD(8) [OF ok] by (auto simp: stopped_def Let_def stray_shape split: option.splits)
qed

definition rival_log :: membership_log where
  "rival_log = sample_observe [sample_genesis, sample_step 2 (Ident 311) [Ident 311] 1,
     sample_step 2 (Ident 311) [] 1]"

lemma rival_reach: "log_reach sample_cr (Ident 9) rival_log"
  unfolding rival_log_def by (rule sample_reach_observe)

lemma rival_transition:
  "log_transition rival_log i =
    (if i = Ident 242 then Some (sample_step 2 (Ident 311) [] 1)
     else if i = Ident 274 then Some (sample_step 2 (Ident 311) [Ident 311] 1)
     else if i = Ident 311 then Some sample_genesis else None)"
  by (simp add: log_transition_def rival_log_def sample_observe_def log_observe_def Let_def log_new_def
      sample_ids sample_cr_def)

lemma rival_links:
  "table sample_cr rival_log (Ident 311) = Some (LValid sample_state {Ident 1})"
  "table sample_cr rival_log (Ident 274) = Some (LValid sample_state {Ident 1})"
  "table sample_cr rival_log (Ident 242) = Some (LValid sample_state {Ident 1})"
proof -
  note spec = served_ok(3) [OF rival_reach]
  show g: "table sample_cr rival_log (Ident 311) = Some (LValid sample_state {Ident 1})"
    by (rule sample_link_genesis [OF spec]) (simp add: rival_transition)
  show "table sample_cr rival_log (Ident 274) = Some (LValid sample_state {Ident 1})"
    by (rule sample_link_step [where e = 2 and rs = "[Ident 311]" and n = 1 and pt = sample_genesis,
          OF spec _ _ _ _ g])
      (simp_all add: rival_transition checked_succ_def sample_fields g)
  show "table sample_cr rival_log (Ident 242) = Some (LValid sample_state {Ident 1})"
    by (rule sample_link_step [where e = 2 and rs = "[]" and n = 1 and pt = sample_genesis, OF spec _ _ _ _ g])
      (simp_all add: rival_transition checked_succ_def sample_fields)
qed

end
