(* ===== verification/Wyrd_Membership.thy ===== *)
theory Wyrd_Membership
  imports Wyrd_Sample "HOL-Library.Multiset"
begin

text \<open>
  The properties of the membership log: the analysis ends and gives every
  observed transition one verdict, the canonical chain is authorised link by link,
  forks are decided only by explicit resolutions, device identities are
  single-use, and what a read returns depends on the observed set alone.
\<close>

section \<open>Facts about canonical chains\<close>

lemma canon_chain_snocD:
  assumes "canon_chain log L (xs @ [x])"
  shows "canon_chain log L xs" "is_valid (L x)" "prev_of log x = chain_tip xs"
  using assms
  by (cases "xs = []"; auto simp: canon_chain_def successively_append_iff chain_tip_def)+

lemma set_admits: "list_ex (\<lambda>c. admitted_device c = Some d) (mt_changes t) \<longleftrightarrow> d \<in> set (admits t)"
  by (auto simp: admits_def in_set_map_filter list_ex_iff)

lemma chain_admitted:
  assumes spec: "links_spec cr log L"
  shows "canon_chain log L xs \<Longrightarrow> distinct (concat (map (admits_of log) xs))
    \<and> (\<forall>s A. xs \<noteq> [] \<longrightarrow> L (last xs) = Some (LValid s A) \<longrightarrow> A = set (concat (map (admits_of log) xs)))"
proof (induction xs rule: rev_induct)
  case (snoc x xs)
  note x = canon_chain_snocD [OF snoc.prems]
  note ih = snoc.IH [OF x(1)]
  obtain s A where sA: "L x = Some (LValid s A)" using x(2) by (auto simp: is_valid_iff)
  then obtain t p sp Ap where t: "log_transition log x = Some t"
    and step: "genesis_step cr t s A \<or> child_step cr log L t p sp Ap s A"
    using valid_link_iff [OF spec] by blast
  have adm: "admits_of log x = admits t" by (simp add: admits_of_def t)
  have dist: "distinct (admits t)" using spec sA t by (rule valid_link_distinct)
  have "set (concat (map (admits_of log) xs)) \<inter> set (admits t) = {}
      \<and> A = set (concat (map (admits_of log) (xs @ [x])))"
  proof (cases "xs = []")
    case True
    then have "mt_prev t = None" using x(3) t by (simp add: chain_tip_def prev_of_def)
    with True step show ?thesis by (simp add: genesis_step_def child_step_def adm)
  next
    case False
    then have p: "mt_prev t = Some (last xs)" using x(3) t by (simp add: chain_tip_def prev_of_def)
    with step have "child_step cr log L t (last xs) sp Ap s A"
      by (auto simp: genesis_step_def child_step_def)
    with ih False show ?thesis by (auto simp: child_step_def adm)
  qed
  with ih dist sA show ?case by (simp add: adm Int_commute)
qed simp

lemma retired_from_valid:
  assumes "links_spec cr log L" "L i = Some (LValid s A)"
    and same: "\<And>i. log_transition log' i = log_transition log i"
  shows "retired_from log' d (Some i) = Some (d \<in> A)"
  using assms(1,2)
proof (induction rule: valid_link_induct)
  case (genesis i t s A)
  have "retired_from log' d None = Some False" by (subst retired_from.simps) simp
  with genesis show ?case
    by (subst retired_from.simps) (simp add: genesis_step_def set_admits same)
next
  case (child i t p sp Ap s A)
  then show ?case by (subst retired_from.simps) (simp add: child_step_def set_admits same)
qed

lemma last_opt_tip: "last_opt xs = chain_tip xs"
  by (simp add: last_opt_def chain_tip_def)

lemma chain_member:
  assumes "analysis_ok log L a" "k < length (an_canonical a)"
  shows "is_valid (L (an_canonical a ! k))" "an_states a (an_canonical a ! k) = map_option link_state (L (an_canonical a ! k))"
proof -
  have "an_canonical a ! k \<in> set (an_canonical a)" using assms(2) by simp
  then show "is_valid (L (an_canonical a ! k))"
    "an_states a (an_canonical a ! k) = map_option link_state (L (an_canonical a ! k))"
    using analysis_okD(1) [OF assms(1)] analysis_okD(2,4) [OF assms(1), of "an_canonical a ! k"]
    by (auto simp: canon_chain_def state_for_def)
qed

lemma chain_prev:
  assumes "canon_chain log L xs" "Suc k < length xs"
  shows "prev_of log (xs ! Suc k) = Some (xs ! k)"
  using assms successively_nth [of "\<lambda>i j. prev_of log j = Some i" xs k] by (simp add: canon_chain_def)

lemma analysis_of:
  assumes "log_wf cr log" "analyse cr log = Some a"
  shows "analysis_ok log (all_links cr log) a" "links_spec cr log (all_links cr log)"
  using analyse_correct [OF assms(1)] all_links_spec [OF assms(1)] assms(2) by auto

lemma sample_analysis:
  "log_wf sample_cr (uncached sample_log)"
  "analyse sample_cr (uncached sample_log) = Some (served sample_cr sample_log)"
  using log_reach_inv [OF sample_reach] served_ok(1) [OF sample_reach] by simp_all

section \<open>Properties\<close>

text \<open>
  C14. Classifying any log built by observing transitions ends, and the analysis
  gives a verdict to exactly the observed transitions.
\<close>

theorem analyse_total:
  assumes "log_wf cr log"
  shows "\<exists>a. analyse cr log = Some a
    \<and> (\<forall>i. an_status a i \<noteq> None \<longleftrightarrow> log_transition log i \<noteq> None)"
  using analyse_correct [OF assms] analysis_okD(3) by blast

theorem analyse_total_witness:
  "\<exists>a. analyse sample_cr (uncached sample_log) = Some a
    \<and> (\<forall>i. an_status a i \<noteq> None \<longleftrightarrow> log_transition (uncached sample_log) i \<noteq> None)"
  by (rule analyse_total [OF sample_analysis(1)])

text \<open>
  The memoised, closure-gathering classification of links computes the unique
  table in which the link of every observed transition is the outcome of
  validating it against the table; no other order or sharing of the work could
  give a different result.
\<close>

theorem links_unique_solution:
  assumes "log_wf cr log"
  shows "(\<forall>i. L i = map_option (\<lambda>t. validate_link cr log t L) (log_transition log i))
    \<longleftrightarrow> L = all_links cr log"
  using all_links_spec [OF assms] links_spec_unique [of cr log L "all_links cr log"]
  unfolding links_spec_def by auto

theorem links_unique_solution_witness:
  "(\<forall>i. all_links sample_cr (uncached sample_log) i =
      map_option (\<lambda>t. validate_link sample_cr (uncached sample_log) t (all_links sample_cr (uncached sample_log)))
        (log_transition (uncached sample_log) i))"
  using links_unique_solution [OF sample_analysis(1), of "all_links sample_cr (uncached sample_log)"] by simp

text \<open>
  The canonical chain is a chain: its \<open>k\<close>-th transition is observed at epoch
  \<open>k + 1\<close> and names the one before it as \<open>prev\<close> (nothing for the genesis), and a
  transition is \<open>Canonical\<close> exactly when it is on the chain.  So at most one
  transition per epoch is canonical.
\<close>

theorem canonical_chain:
  assumes "log_wf cr log" "analyse cr log = Some a"
  shows "(\<forall>i. an_status a i = Some SCanonical \<longleftrightarrow> i \<in> set (an_canonical a))
    \<and> (\<forall>k < length (an_canonical a). \<exists>t. log_transition log (an_canonical a ! k) = Some t
         \<and> unat (mt_epoch t) = Suc k
         \<and> mt_prev t = (if k = 0 then None else Some (an_canonical a ! (k - 1))))"
proof -
  let ?xs = "an_canonical a"
  note ok = analysis_of(1) [OF assms] and spec = analysis_of(2) [OF assms]
  note chain = analysis_okD(1) [OF ok]
  have "\<exists>t. log_transition log (?xs ! k) = Some t \<and> unat (mt_epoch t) = Suc k
      \<and> mt_prev t = (if k = 0 then None else Some (?xs ! (k - 1)))" if k: "k < length ?xs" for k
  proof -
    obtain t where t: "log_transition log (?xs ! k) = Some t"
      using valid_observed [OF spec chain_member(1) [OF ok k]] by blast
    moreover have "unat (mt_epoch t) = Suc k"
      using canon_chain_epoch [OF spec chain k] t by (simp add: closure_epoch_def)
    moreover have "prev_of log (?xs ! k) = (if k = 0 then None else Some (?xs ! (k - 1)))"
      using chain chain_prev [OF chain, of "k - 1"] k by (auto simp: canon_chain_def hd_conv_nth)
    ultimately show ?thesis by (simp add: prev_of_def)
  qed
  with analysis_okD(2) [OF ok] show ?thesis by blast
qed

theorem canonical_chain_witness:
  "an_status (served sample_cr sample_log) (Ident 242) = Some SCanonical
    \<and> (\<exists>t. log_transition sample_log (Ident 242) = Some t \<and> unat (mt_epoch t) = 2 \<and> mt_prev t = Some (Ident 311))"
proof -
  note chain = canonical_chain [OF sample_analysis]
  show ?thesis
    using conjunct1 [OF chain, THEN spec, of "Ident 242"] conjunct2 [OF chain, THEN spec, of 1]
    by (simp add: sample_canonical numeral_2_eq_2)
qed

text \<open>
  C9. Authority flows link by link: every later transition of the canonical chain
  carries a verifying signature, its author owned the drive in the state its
  predecessor produced, and the state it produces is derived from that state by
  its changes, with the three declared set roots recomputed.
\<close>

theorem canonical_authority:
  assumes "log_wf cr log" "analyse cr log = Some a" "Suc k < length (an_canonical a)"
  shows "\<exists>t s s'. log_transition log (an_canonical a ! Suc k) = Some t
    \<and> an_states a (an_canonical a ! k) = Some s \<and> an_states a (an_canonical a ! Suc k) = Some s'
    \<and> signature_verifies cr (ml_drive log) t \<and> mt_author t \<in> st_owners s
    \<and> derive_next cr s t = Inr s'"
proof -
  let ?xs = "an_canonical a" and ?L = "all_links cr log"
  note ok = analysis_of(1) [OF assms(1,2)] and spec = analysis_of(2) [OF assms(1,2)]
  have k: "k < length ?xs" using assms(3) by simp
  obtain s' A where L: "?L (?xs ! Suc k) = Some (LValid s' A)"
    using chain_member(1) [OF ok assms(3)] by (auto simp: is_valid_iff)
  then obtain t p sp Ap where t: "log_transition log (?xs ! Suc k) = Some t"
    "signature_verifies cr (ml_drive log) t"
    and step: "genesis_step cr t s' A \<or> child_step cr log ?L t p sp Ap s' A"
    using valid_link_iff [OF spec] by blast
  have "mt_prev t = Some (?xs ! k)"
    using chain_prev [OF analysis_okD(1) [OF ok] assms(3)] t(1) by (simp add: prev_of_def)
  with step have child: "child_step cr log ?L t (?xs ! k) sp Ap s' A"
    by (auto simp: genesis_step_def child_step_def)
  then have "?L (?xs ! k) = Some (LValid sp Ap)" by (simp add: child_step_def)
  with t L child chain_member(2) [OF ok k] chain_member(2) [OF ok assms(3)] show ?thesis
    by (simp add: child_step_def)
qed

theorem canonical_authority_witness:
  "\<exists>t s s'. log_transition (uncached sample_log) (Ident 242) = Some t
    \<and> an_states (served sample_cr sample_log) (Ident 311) = Some s
    \<and> an_states (served sample_cr sample_log) (Ident 242) = Some s'
    \<and> signature_verifies sample_cr (ml_drive (uncached sample_log)) t \<and> mt_author t \<in> st_owners s
    \<and> derive_next sample_cr s t = Inr s'"
  using canonical_authority [OF sample_analysis, of 0] by (simp add: sample_canonical)

text \<open>
  C13. Device identities are single-use: along the canonical chain no device is
  admitted twice, in either role, not even after a removal.
\<close>

theorem single_use_identities:
  assumes "log_wf cr log" "analyse cr log = Some a"
  shows "distinct (concat (map (admits_of log) (an_canonical a)))"
  using chain_admitted [OF analysis_of(2) [OF assms] analysis_okD(1) [OF analysis_of(1) [OF assms]]] by blast

theorem single_use_identities_witness:
  "distinct (concat (map (admits_of (uncached sample_log)) (an_canonical (served sample_cr sample_log))))"
  by (rule single_use_identities [OF sample_analysis])

text \<open>
  C6. A fork is never decided silently.  If a canonical transition \<open>j\<close> has another
  valid transition with the same predecessor, then either the unique resolution of
  that fork follows \<open>j\<close> on the canonical chain, or \<open>j\<close> is itself the unique
  resolution of the fork one epoch below.  A resolution is a valid child of one
  contender whose \<open>resolves\<close> names exactly all the others.
\<close>

theorem forks_resolved_explicitly:
  assumes "log_wf cr log" "analyse cr log = Some a"
    and "j \<in> set (an_canonical a)" "i \<noteq> j" "is_valid (all_links cr log i)" "prev_of log i = prev_of log j"
  shows "(\<exists>r \<in> set (an_canonical a). prev_of log r = Some j
      \<and> {r. resolves_conflict log (all_links cr log) (sibs log (all_links cr log) (prev_of log j)) r} = {r})
    \<or> (\<exists>w. prev_of log j = Some w
      \<and> {r. resolves_conflict log (all_links cr log) (sibs log (all_links cr log) (prev_of log w)) r} = {j})"
proof -
  note ok = analysis_of(1) [OF assms(1,2)] and spec = analysis_of(2) [OF assms(1,2)]
  have "i \<in> sibs log (all_links cr log) (prev_of log j)"
    using assms(5,6) valid_observed [OF spec assms(5)] by (auto simp: sibs_def)
  then have "sibs log (all_links cr log) (prev_of log j) \<noteq> {j}" using assms(4) by blast
  with analysis_okD(7) [OF ok assms(3)] show ?thesis unfolding settled_def by blast
qed

theorem forks_resolved_explicitly_witness:
  "\<exists>r \<in> set (an_canonical (served sample_cr fork_log)). prev_of (uncached fork_log) r = Some (Ident 242)
    \<and> {r. resolves_conflict (uncached fork_log) (table sample_cr fork_log) {Ident 242, Ident 243} r} = {r}"
proof -
  have wf: "log_wf sample_cr (uncached fork_log)" using log_reach_inv [OF fork_reach] by simp
  let ?R = "\<lambda>p. {r. resolves_conflict (uncached fork_log) (table sample_cr fork_log)
      (sibs (uncached fork_log) (table sample_cr fork_log) p) r}"
  have "\<not> resolves_conflict (uncached fork_log) (table sample_cr fork_log) S (Ident 242)" for S
    by (simp add: resolves_conflict_def fork_shape)
  then have "?R p \<noteq> {Ident 242}" for p by blast
  moreover have "prev_of (uncached fork_log) (Ident 243) = prev_of (uncached fork_log) (Ident 242)"
    "is_valid (table sample_cr fork_log (Ident 243))" "(Ident 243 :: transition_id) \<noteq> Ident 242"
    by (simp_all add: fork_shape fork_links)
  ultimately have "\<exists>r \<in> set (an_canonical (served sample_cr fork_log)).
      prev_of (uncached fork_log) r = Some (Ident 242) \<and> ?R (prev_of (uncached fork_log) (Ident 242)) = {r}"
    using forks_resolved_explicitly [OF wf served_ok(1) [OF fork_reach] fork_winner, of "Ident 243"]
    unfolding table_def [symmetric] by metis
  moreover have "prev_of (uncached fork_log) (Ident 242) = Some (Ident 311)" by (simp add: fork_shape)
  ultimately show ?thesis by (simp only: fork_shape(4))
qed

text \<open>
  The verdict of every transition, given the canonical chain and whether the
  walk froze.  A transition with a valid link is \<open>Canonical\<close> on the chain,
  \<open>Contested\<close> when the walk froze and it is a contender or a competing resolution
  at the tip, \<open>Invalid(ResolvesWithoutConflict)\<close> when it is the only valid child of
  the tip (and carries a \<open>resolves\<close>), and \<open>Voided\<close> otherwise; any other transition
  keeps the verdict of its link.
\<close>

theorem verdicts:
  assumes "log_wf cr log" "analyse cr log = Some a"
  shows "an_status a i =
    (if is_valid (all_links cr log i) then Some (valid_verdict log (all_links cr log) a i)
     else rest_status (all_links cr log i))"
  using verdict_valid [OF analysis_of(1) [OF assms], of i] analysis_okD(5) [OF analysis_of(1) [OF assms], of i]
  by simp

theorem verdicts_witness:
  "an_status (served sample_cr sample_log) (Ident 242) =
    (if is_valid (all_links sample_cr (uncached sample_log) (Ident 242))
     then Some (valid_verdict (uncached sample_log) (all_links sample_cr (uncached sample_log))
       (served sample_cr sample_log) (Ident 242))
     else rest_status (all_links sample_cr (uncached sample_log) (Ident 242)))"
  by (rule verdicts [OF sample_analysis])

text \<open>
  The walk stops only for a reason.  It freezes at an epoch only when at least
  two valid transitions contend for the successor of the tip (or to be the genesis)
  and no single resolution settles them; it stops unfrozen only when the tip has no
  valid successor, or exactly one whose \<open>resolves\<close> is non-empty.
\<close>

theorem walk_stops:
  assumes "log_wf cr log" "analyse cr log = Some a"
  defines "S \<equiv> sibs log (all_links cr log) (chain_tip (an_canonical a))"
  shows "(case an_frozen_at a of
      None \<Rightarrow> S = {} \<or> (\<exists>c. S = {c} \<and> resolves_of log c \<noteq> [])
    | Some f \<Rightarrow> (\<exists>x \<in> S. \<exists>y \<in> S. x \<noteq> y) \<and> (\<nexists>r. {r. resolves_conflict log (all_links cr log) S r} = {r})
        \<and> (\<forall>c \<in> S. f = closure_epoch log c \<or> f = saturating_succ (closure_epoch log c)))"
  using analysis_okD(8) [OF analysis_of(1) [OF assms(1,2)]]
  by (auto simp: stopped_def Let_def S_def split: option.splits)

theorem walk_stops_witness:
  "\<not> (\<exists>x y. x \<noteq> y \<and> {x, y} \<subseteq> sibs (uncached sample_log) (table sample_cr sample_log)
        (chain_tip (an_canonical (served sample_cr sample_log))))
    \<and> an_frozen_at (served sample_cr sample_log) = None"
proof -
  have "sibs (uncached sample_log) (table sample_cr sample_log) (Some (Ident 242)) = {}"
    by (auto simp: sibs_def sample_transition prev_of_def sample_fields split: if_splits)
  with walk_stops [OF sample_analysis] show ?thesis
    by (cases "an_frozen_at (served sample_cr sample_log)")
      (auto simp: sample_canonical chain_tip_def table_def [symmetric])
qed

text \<open>
  Every membership state the analysis hands out is well-formed: finite sets,
  owners among the members, at most one owner, readers disjoint from members, and
  an encryption key registered for exactly the devices that hold a role.
\<close>

theorem states_well_formed:
  assumes "log_wf cr log" "analyse cr log = Some a" "an_states a i = Some s"
  shows "finite (st_members s) \<and> finite (st_readers s) \<and> st_owners s \<subseteq> st_members s
    \<and> card (st_owners s) \<le> 1 \<and> st_members s \<inter> st_readers s = {}
    \<and> dom (st_encryption_keys s) = st_members s \<union> st_readers s"
proof -
  note ok = analysis_of(1) [OF assms(1,2)] and spec = analysis_of(2) [OF assms(1,2)]
  have st: "state_for (all_links cr log) (an_status a i) i = Some s"
    using analysis_okD(4) [OF ok, of i] assms(3) by simp
  then have "is_valid (all_links cr log i)"
    using analysis_okD(5) [OF ok, of i]
    by (cases "all_links cr log i" rule: rest_status.cases) (auto simp: state_for_def split: if_splits)
  then obtain A where "all_links cr log i = Some (LValid s A)"
    using st by (auto simp: is_valid_iff state_for_def split: if_splits)
  from valid_link_state_ok [OF spec this] show ?thesis by (simp add: state_ok_def roles_ok_def)
qed

theorem states_well_formed_witness:
  "finite (st_members sample_state) \<and> finite (st_readers sample_state)
    \<and> st_owners sample_state \<subseteq> st_members sample_state
    \<and> card (st_owners sample_state) \<le> 1 \<and> st_members sample_state \<inter> st_readers sample_state = {}
    \<and> dom (st_encryption_keys sample_state) = st_members sample_state \<union> st_readers sample_state"
proof (rule states_well_formed [OF sample_analysis])
  have "0 < length (an_canonical (served sample_cr sample_log))" by (simp add: sample_canonical)
  from chain_member(2) [OF served_ok(2) [OF sample_reach] this]
  show "an_states (served sample_cr sample_log) (Ident 311) = Some sample_state"
    by (simp add: sample_canonical sample_links)
qed

section \<open>Reads\<close>

text \<open>The log after observing a list of transitions in order.\<close>

definition observe_all :: "crypto \<Rightarrow> membership_transition list \<Rightarrow> membership_log \<Rightarrow> membership_log" where
  "observe_all cr ts log = fold (\<lambda>t log. snd (log_observe cr t log)) ts log"

lemma observe_all_simps [simp]:
  "observe_all cr [] log = log"
  "observe_all cr (t # ts) log = observe_all cr ts (snd (log_observe cr t log))"
  by (simp_all add: observe_all_def)

lemma observe_all_other:
  "ml_drive (observe_all cr ts log) = ml_drive log"
  "ml_analysis log = None \<Longrightarrow> ml_analysis (observe_all cr ts log) = None"
  by (induction ts arbitrary: log) (simp_all add: log_observe_def Let_def)

lemma observe_all_lookup:
  assumes "inj_on (transition_id_of (cr_derive_key cr)) (set ts)"
  shows "fmlookup (ml_transitions (observe_all cr ts log)) i =
    (if \<exists>t \<in> set ts. transition_id_of (cr_derive_key cr) t = i
     then Some (THE t. t \<in> set ts \<and> transition_id_of (cr_derive_key cr) t = i)
     else fmlookup (ml_transitions log) i)"
  using assms
proof (induction ts arbitrary: log rule: rev_induct)
  case (snoc t ts)
  let ?f = "transition_id_of (cr_derive_key cr)"
  have the: "(THE u. u \<in> set xs \<and> ?f u = i) = v"
    if "inj_on ?f (set xs)" "v \<in> set xs" "?f v = i" for xs v
    using that by (intro the_equality) (auto dest: inj_onD)
  have step: "fmlookup (ml_transitions (observe_all cr (ts @ [t]) log)) i =
      (if ?f t = i then Some t else fmlookup (ml_transitions (observe_all cr ts log)) i)"
    by (simp add: observe_all_def log_observe_def Let_def)
  have inj: "inj_on ?f (set ts)" using snoc.prems by (rule inj_on_subset) auto
  show ?case
  proof (cases "\<exists>u \<in> set (ts @ [t]). ?f u = i")
    case True
    then obtain u where u: "u \<in> set (ts @ [t])" "?f u = i" by blast
    have "fmlookup (ml_transitions (observe_all cr (ts @ [t]) log)) i = Some u"
    proof (cases "?f t = i")
      case True
      with u snoc.prems have "u = t" by (auto dest: inj_onD)
      with True step show ?thesis by simp
    next
      case False
      with u have "u \<in> set ts" by auto
      with u(2) step False snoc.IH [OF inj, of log] the [OF inj] show ?thesis by auto
    qed
    with True u the [OF snoc.prems] show ?thesis by auto
  next
    case False
    with step snoc.IH [OF inj, of log] show ?thesis by auto
  qed
qed simp

text \<open>
  C21. What a log holds, and so every read of it, depends on the set of transitions
  observed and neither on their order nor on repeats: two histories over the same
  transitions leave equal logs.  The derived identifiers must not collide on the
  transitions at hand.
\<close>

theorem observation_order_irrelevant:
  assumes "set ts = set us" "inj_on (transition_id_of (cr_derive_key cr)) (set ts)"
  shows "observe_all cr ts (log_new drive) = observe_all cr us (log_new drive)"
proof (rule membership_log.equality)
  show "ml_transitions (observe_all cr ts (log_new drive)) = ml_transitions (observe_all cr us (log_new drive))"
    using assms by (intro fmap_ext) (simp add: observe_all_lookup)
qed (simp_all add: observe_all_other log_new_def)

theorem observation_order_irrelevant_witness:
  "observe_all sample_cr [sample_genesis, sample_step 2 (Ident 311) [] 1] (log_new (Ident 9))
    = observe_all sample_cr [sample_step 2 (Ident 311) [] 1, sample_genesis, sample_step 2 (Ident 311) [] 1]
        (log_new (Ident 9))"
  by (rule observation_order_irrelevant) (auto simp: sample_ids sample_cr_def)

text \<open>
  C22. A cached analysis is never stale.  On any log reached by observing
  transitions and reading, a read returns its function of the analysis of exactly
  the transitions observed so far, whether the cache was filled or not.
\<close>

theorem reads_never_stale:
  assumes "log_reach cr drive log"
  shows "\<exists>a. analyse cr (uncached log) = Some a \<and> fst (with_analysis cr log f) = f a
    \<and> log_statuses cr log = an_status a \<and> log_frozen_at cr log = an_frozen_at a
    \<and> log_state_of cr log = an_states a \<and> log_canonical_genesis cr log = first_opt (an_canonical a)"
  using served_ok(1) [OF assms]
  by (simp add: read_value [OF assms] log_statuses_def log_frozen_at_def fun_eq_iff log_state_of_def
      log_canonical_genesis_def)

theorem reads_never_stale_witness:
  "fst (with_analysis sample_cr (snd (with_analysis sample_cr sample_log (\<lambda>_. ()))) an_canonical)
    = [Ident 311, Ident 242]"
proof -
  have "log_wf sample_cr sample_log" "cache_ok sample_cr sample_log"
    using log_reach_inv [OF sample_reach] by simp_all
  from with_analysis_value(2) [OF this, of "\<lambda>_. ()"]
  have "uncached (snd (with_analysis sample_cr sample_log (\<lambda>_. ()))) = uncached sample_log"
    by (simp add: uncached_def)
  with reads_never_stale [OF log_reach.read [OF sample_reach], of an_canonical]
    served_ok(1) [OF sample_reach] sample_canonical
  show ?thesis by (metis option.inject)
qed

text \<open>A read of a reachable log, in terms of the analysis it is served from.\<close>

lemma reads:
  assumes "log_reach cr drive log"
  shows "log_state_of cr log i = an_states (served cr log) i"
    and "log_status cr log i = (if log_contains log i then an_status (served cr log) i else None)"
    and "log_known_state cr log = (case chain_tip (an_canonical (served cr log)) of None \<Rightarrow> None
       | Some tip \<Rightarrow> map_option (\<lambda>t. \<lparr>ks_epoch = mt_epoch t, ks_transition_id = tip,
           ks_members_root = mt_members_root t, ks_owners_root = mt_owners_root t,
           ks_readers_root = mt_readers_root t\<rparr>) (log_transition log tip))"
    and "log_authoritative cr log i = map_option (\<lambda>t. case an_states (served cr log) i of
         Some s \<Rightarrow> AuthValid t s
       | None \<Rightarrow> (if an_status (served cr log) i = Some SPending then AuthPending else AuthTerminal))
       (log_transition log i)"
  by (simp_all add: log_state_of_def log_status_def log_known_state_def log_authoritative_def last_opt_tip
      read_value [OF assms] split: option.splits transition_status.splits)

text \<open>The tip of the chain, with its link and state.\<close>

lemma tip_facts:
  assumes r: "log_reach cr drive log" and tip: "chain_tip (an_canonical (served cr log)) = Some tip"
  shows "\<exists>t s A. log_transition log tip = Some t \<and> table cr log tip = Some (LValid s A)
    \<and> an_states (served cr log) tip = Some s \<and> an_status (served cr log) tip = Some SCanonical
    \<and> unat (mt_epoch t) = length (an_canonical (served cr log))
    \<and> A = set (concat (map (admits_of log) (an_canonical (served cr log))))"
proof -
  let ?xs = "an_canonical (served cr log)"
  note ok = served_ok(2) [OF r] and spec = served_ok(3) [OF r]
  note chain = analysis_okD(1) [OF ok]
  have ne: "?xs \<noteq> []" and l: "last ?xs = tip" using tip by (auto simp: chain_tip_def split: if_splits)
  then have mem: "tip \<in> set ?xs" using last_in_set by blast
  then obtain s A where L: "table cr log tip = Some (LValid s A)"
    using chain by (auto simp: canon_chain_def is_valid_iff)
  obtain t where t: "log_transition log tip = Some t"
    using valid_observed [OF spec, of tip] L by (auto simp: is_valid_iff)
  have st: "an_status (served cr log) tip = Some SCanonical" using analysis_okD(2) [OF ok] mem by simp
  have "an_states (served cr log) tip = Some s"
    using analysis_okD(4) [OF ok, of tip] st L by (simp add: state_for_def)
  moreover have "unat (mt_epoch t) = length ?xs"
    using canon_chain_epoch [OF spec chain, of "length ?xs - 1"] ne l t
    by (simp add: closure_epoch_def last_conv_nth)
  moreover have "A = set (concat (map (admits_of log) ?xs))"
    using chain_admitted [OF spec chain] ne l L by (simp add: admits_of_def)
  ultimately show ?thesis using t L st by blast
qed

text \<open>
  The known state is the tip of the canonical chain: it is canonical, its epoch
  is the length of the chain, and the roots it reports are those of the member,
  owner and reader sets of the state derived there.
\<close>

theorem known_state_tip:
  assumes "log_reach cr drive log" "log_known_state cr log = Some ks"
  shows "\<exists>s. log_state_of cr log (ks_transition_id ks) = Some s
    \<and> log_status cr log (ks_transition_id ks) = Some SCanonical
    \<and> unat (ks_epoch ks) = length (an_canonical (served cr log))
    \<and> root_matches (cr_derive_key cr) MEMBER_SET_CONTEXT (st_members s) (ks_members_root ks)
    \<and> root_matches (cr_derive_key cr) OWNER_SET_CONTEXT (st_owners s) (ks_owners_root ks)
    \<and> root_matches (cr_derive_key cr) READER_SET_CONTEXT (st_readers s) (ks_readers_root ks)"
proof -
  note r = assms(1)
  from assms(2) obtain tip where tip: "chain_tip (an_canonical (served cr log)) = Some tip"
    by (auto simp: reads [OF r] split: option.splits)
  from tip_facts [OF r tip] obtain t s A where t: "log_transition log tip = Some t"
    and L: "table cr log tip = Some (LValid s A)"
    and rest: "an_states (served cr log) tip = Some s" "an_status (served cr log) tip = Some SCanonical"
      "unat (mt_epoch t) = length (an_canonical (served cr log))" by blast
  have ks: "ks_transition_id ks = tip" "ks_epoch ks = mt_epoch t" "ks_members_root ks = mt_members_root t"
    "ks_owners_root ks = mt_owners_root t" "ks_readers_root ks = mt_readers_root t"
    using assms(2) t tip by (auto simp: reads [OF r])
  from L obtain s0 where "derive_next cr s0 t = Inr s"
    unfolding valid_link_iff [OF served_ok(3) [OF r]]
    using t by (auto simp: genesis_step_def child_step_def)
  with rest t show ?thesis
    by (simp add: ks reads [OF r] derive_next_Inr log_contains_def log_transition_def)
qed

theorem known_state_tip_witness:
  "\<exists>ks s. log_known_state sample_cr sample_log = Some ks
    \<and> log_state_of sample_cr sample_log (ks_transition_id ks) = Some s \<and> unat (ks_epoch ks) = 2
    \<and> root_matches (cr_derive_key sample_cr) MEMBER_SET_CONTEXT (st_members s) (ks_members_root ks)"
proof -
  obtain ks where ks: "log_known_state sample_cr sample_log = Some ks"
    by (auto simp: reads [OF sample_reach] sample_canonical chain_tip_def sample_transition)
  with known_state_tip [OF sample_reach ks] show ?thesis by (auto simp: sample_canonical)
qed

text \<open>
  \<open>is_retired\<close> ends, and answers whether the device was admitted anywhere on
  the canonical chain, in either role: once spent, an identity stays spent.
\<close>

theorem is_retired_correct:
  assumes "log_reach cr drive log"
  shows "log_is_retired cr log device =
    Some (\<exists>i \<in> set (an_canonical (served cr log)). device \<in> set (admits_of log i))"
proof (cases "chain_tip (an_canonical (served cr log))")
  case None
  then have "an_canonical (served cr log) = []" by (simp add: chain_tip_def split: if_splits)
  with None show ?thesis
    by (simp add: log_is_retired_def reads [OF assms]) (subst retired_from.simps, simp)
next
  case (Some tip)
  from tip_facts [OF assms Some] obtain t s A where t: "log_transition log tip = Some t"
    and L: "table cr log tip = Some (LValid s A)"
    and A: "A = set (concat (map (admits_of log) (an_canonical (served cr log))))" by blast
  have "retired_from log device (Some tip) = Some (device \<in> A)"
    using served_ok(3) [OF assms] L by (rule retired_from_valid) simp
  with A show ?thesis by (simp add: log_is_retired_def reads [OF assms] Some t)
qed

theorem is_retired_correct_witness:
  "log_is_retired sample_cr sample_log (Ident 1) = Some True
    \<and> log_is_retired sample_cr sample_log (Ident 2) = Some False"
  using is_retired_correct [OF sample_reach, of "Ident 1"] is_retired_correct [OF sample_reach, of "Ident 2"]
  by (simp add: sample_canonical admits_of_def sample_transition sample_fields)

text \<open>
  \<open>authoritative\<close> answers for exactly the observed transitions.  It grants
  \<open>Valid\<close>, with the transition and the state its link derives, exactly to the
  transitions whose link is valid and that the walk did not reject; \<open>Pending\<close> to
  those whose link waits for an unseen predecessor; \<open>Terminal\<close> to all others.
\<close>

theorem authoritative_cases:
  assumes "log_reach cr drive log"
  shows "log_authoritative cr log i =
    (case log_transition log i of None \<Rightarrow> None
     | Some t \<Rightarrow> Some (case table cr log i of
         Some (LValid s A) \<Rightarrow>
           if log_status cr log i = Some (SInvalid ResolvesWithoutConflict) then AuthTerminal else AuthValid t s
       | Some LPending \<Rightarrow> AuthPending
       | _ \<Rightarrow> AuthTerminal))"
proof (cases "log_transition log i")
  case (Some t)
  note ok = served_ok(2) [OF assms]
  have c: "log_contains log i" using Some by (simp add: log_contains_def log_transition_def)
  have st: "an_states (served cr log) i = state_for (table cr log) (an_status (served cr log) i) i"
    using ok by (rule analysis_okD(4))
  show ?thesis
  proof (cases "is_valid (table cr log i)")
    case True
    with analysis_okD(6) [OF ok True] Some c st show ?thesis
      by (auto simp: reads [OF assms] is_valid_iff state_for_def)
  next
    case False
    with analysis_okD(5) [OF ok False] Some st show ?thesis
      by (cases "table cr log i" rule: rest_status.cases)
        (simp_all add: reads [OF assms] state_for_def is_valid_iff)
  qed
qed (simp add: reads [OF assms])

theorem authoritative_cases_witness:
  "log_authoritative sample_cr stray_log (Ident 274) = Some AuthTerminal
    \<and> log_authoritative sample_cr sample_log (Ident 242)
        = Some (AuthValid (sample_step 2 (Ident 311) [] 1) sample_state)"
proof -
  have "log_status sample_cr stray_log (Ident 274) = Some (SInvalid ResolvesWithoutConflict)"
    by (simp add: reads [OF stray_reach] stray_rejected log_contains_def
        stray_transition log_transition_def [symmetric])
  moreover have "log_status sample_cr sample_log (Ident 242) = Some SCanonical"
    using analysis_okD(2) [OF served_ok(2) [OF sample_reach], of "Ident 242"]
    by (simp add: reads [OF sample_reach] sample_canonical log_contains_def
        sample_transition log_transition_def [symmetric])
  ultimately show ?thesis
    using authoritative_cases [OF stray_reach, of "Ident 274"] authoritative_cases [OF sample_reach, of "Ident 242"]
    by (simp add: stray_transition stray_links sample_transition sample_links)
qed

text \<open>
  C35. What the code does with a transition that carries a \<open>resolves\<close> although
  nothing is in conflict at its predecessor, when another valid transition shares
  that predecessor: it is never rejected as \<open>ResolvesWithoutConflict\<close>.  It counts as
  a contender, so it can freeze the drive, be made canonical or be voided.
\<close>

theorem spurious_resolution_contends:
  assumes "log_wf cr log" "analyse cr log = Some a" "b \<noteq> c"
    and "is_valid (all_links cr log b)" "is_valid (all_links cr log c)" "prev_of log b = prev_of log c"
  shows "an_status a b \<in> {Some SCanonical, Some SContested, Some SVoided}"
proof -
  let ?L = "all_links cr log" and ?S = "sibs log (all_links cr log) (chain_tip (an_canonical a))"
  note ok = analysis_of(1) [OF assms(1,2)] and spec = analysis_of(2) [OF assms(1,2)]
  have "?S \<noteq> {b}"
  proof
    assume S: "?S = {b}"
    then have "prev_of log b = chain_tip (an_canonical a)" by (auto simp: sibs_def)
    then have "c \<in> ?S" using assms(5,6) valid_observed [OF spec assms(5)] by (auto simp: sibs_def)
    with S assms(3) show False by simp
  qed
  then show ?thesis using verdict_valid [OF ok assms(4)] by (simp add: valid_verdict_def Let_def)
qed

theorem spurious_resolution_contends_witness:
  "resolves_of (uncached rival_log) (Ident 274) = [Ident 311]
    \<and> an_status (served sample_cr rival_log) (Ident 274) \<in> {Some SCanonical, Some SContested, Some SVoided}"
proof -
  have wf: "log_wf sample_cr (uncached rival_log)" using log_reach_inv [OF rival_reach] by simp
  show ?thesis
    using spurious_resolution_contends [OF wf served_ok(1) [OF rival_reach], of "Ident 274" "Ident 242"] rival_links
    by (simp add: table_def [symmetric] prev_of_def resolves_of_def rival_transition sample_fields)
qed

text \<open>
  C34. A valid child of a transition the walk rejects as \<open>ResolvesWithoutConflict\<close> is
  \<open>Voided\<close> and carries a derived state, so \<open>authoritative\<close> reports it \<open>Valid\<close> although
  its predecessor is invalid.
\<close>

theorem child_of_rejected_is_voided:
  assumes r: "log_reach cr drive log"
    and x: "log_status cr log x = Some (SInvalid ResolvesWithoutConflict)" "is_valid (table cr log x)"
    and i: "is_valid (table cr log i)" "prev_of log i = Some x"
  shows "log_status cr log i = Some SVoided \<and> (\<exists>t s. log_authoritative cr log i = Some (AuthValid t s))"
proof -
  let ?a = "served cr log" and ?log = "uncached log"
  note ok = served_ok(2) [OF r] and spec = served_ok(3) [OF r]
  have pi: "prev_of ?log i = Some x" using i(2) by (simp add: prev_of_def)
  have stx: "an_status ?a x = Some (SInvalid ResolvesWithoutConflict)"
    using x(1) by (simp add: reads [OF r] split: if_splits)
  then have nx: "x \<notin> set (an_canonical ?a)" using analysis_okD(2) [OF ok, of x] by auto
  have S: "an_frozen_at ?a = None" "sibs ?log (table cr log) (chain_tip (an_canonical ?a)) = {x}"
    using stx verdict_valid [OF ok x(2)] by (auto simp: valid_verdict_def Let_def split: if_splits)
  have "i \<notin> set (an_canonical ?a)"
    using canon_chain_pred [OF analysis_okD(1) [OF ok], of i] nx pi by auto
  moreover have "i \<noteq> x"
  proof
    assume "i = x"
    with valid_prev [OF spec i(1) pi] show False by (auto dest: checked_succ_unat)
  qed
  ultimately have st: "an_status ?a i = Some SVoided"
    using verdict_valid [OF ok i(1)] S by (simp add: valid_verdict_def Let_def)
  obtain t where t: "log_transition log i = Some t" using valid_observed [OF spec i(1)] by auto
  obtain s A where L: "table cr log i = Some (LValid s A)" using i(1) by (auto simp: is_valid_iff)
  have "an_states ?a i = Some s" using analysis_okD(4) [OF ok, of i] st L by (simp add: state_for_def)
  with st t show ?thesis by (simp add: reads [OF r] log_contains_def log_transition_def)
qed

theorem child_of_rejected_is_voided_witness:
  "log_status sample_cr stray_log (Ident 274) = Some (SInvalid ResolvesWithoutConflict)
    \<and> log_status sample_cr stray_log (Ident 242) = Some SVoided"
proof -
  have x: "log_status sample_cr stray_log (Ident 274) = Some (SInvalid ResolvesWithoutConflict)"
    by (simp add: reads [OF stray_reach] stray_rejected log_contains_def
        stray_transition log_transition_def [symmetric])
  from child_of_rejected_is_voided [OF stray_reach x, of "Ident 242"] x show ?thesis
    by (simp add: stray_links prev_of_def stray_transition sample_fields)
qed

end
