(* ===== verification/Wyrd_Authorization.thy ===== *)
theory Wyrd_Authorization
  imports Wyrd_Snapshot Wyrd_Membership
begin

text \<open>
  Snapshot authorization (\<open>crates/wyrd-sync/src/authorization\<close>): the observed
  snapshot DAG, snapshot signatures, and the classification engine, which gives
  every observed snapshot a verdict against the membership log.  Phase 1 judges a
  snapshot alone, phase 2 computes the live lineage as a fixed point and applies
  the recovery parent rule, phase 3 maps the outcome to the typed classification.
\<close>

section \<open>Data\<close>

datatype rejection =
    BadSnapshotSignature
  | InvalidAuthorKey
  | AuthorNotMember
  | AuthorIsReader
  | EpochMismatch
  | TransitionInvalid
  | RecoveryNotOwner
  | RecoveryParentInvalid

datatype pendency =
    UnknownTransition
  | TransitionPending
  | OrphanedTransition
  | ContestedTransition
  | UnknownParent
  | FutureEpoch

datatype classification =
    CRejected rejection
  | CPending pendency
  | CVoided
  | CEligible
  | CCanonicalHistory
  | CSuperseded
  | CStranded

datatype pre =
    PreRejected rejection
  | PrePending pendency
  | PreVoided
  | PreAuthorized

datatype live =
    LiveLive
  | LiveDead
  | LiveUndecided pendency

datatype parent_fate =
    FateOk
  | FateDead
  | FateUndecided pendency

record snapshot_dag =
  dg_drive :: drive_id
  dg_snapshots :: "(snapshot_id, snapshot) fmap"

section \<open>The observed DAG\<close>

definition dag_new :: "drive_id \<Rightarrow> snapshot_dag" where
  "dag_new drive = \<lparr>dg_drive = drive, dg_snapshots = fmempty\<rparr>"

definition dag_observe :: "kdf \<Rightarrow> snapshot \<Rightarrow> snapshot_dag \<Rightarrow> snapshot_id \<times> snapshot_dag" where
  "dag_observe dk s dag =
    (let i = snapshot_id_of dk s in (i, dag\<lparr>dg_snapshots := fmupd i s (dg_snapshots dag)\<rparr>))"

definition dag_contains :: "snapshot_dag \<Rightarrow> snapshot_id \<Rightarrow> bool" where
  "dag_contains dag i \<longleftrightarrow> fmlookup (dg_snapshots dag) i \<noteq> None"

definition dag_snapshot :: "snapshot_dag \<Rightarrow> snapshot_id \<Rightarrow> snapshot option" where
  "dag_snapshot dag i = fmlookup (dg_snapshots dag) i"

definition dag_ids :: "snapshot_dag \<Rightarrow> snapshot_id list" where
  "dag_ids dag = sorted_list_of_fset (fmdom (dg_snapshots dag))"

text \<open>The parents named by the snapshots of a list of ids; the loops over the DAG collect them in a set.\<close>

definition referenced_by :: "snapshot_dag \<Rightarrow> snapshot_id list \<Rightarrow> snapshot_id set" where
  "referenced_by dag is =
    fold (\<lambda>i referenced. case dag_snapshot dag i of
        None \<Rightarrow> referenced
      | Some s \<Rightarrow> fold (\<lambda>parent. insert parent) (sn_parents s) referenced) is {}"

definition dag_heads :: "snapshot_dag \<Rightarrow> snapshot_id list" where
  "dag_heads dag = filter (\<lambda>i. i \<notin> referenced_by dag (dag_ids dag)) (dag_ids dag)"

definition dag_len :: "snapshot_dag \<Rightarrow> nat" where
  "dag_len dag = fcard (fmdom (dg_snapshots dag))"

definition dag_is_empty :: "snapshot_dag \<Rightarrow> bool" where
  "dag_is_empty dag \<longleftrightarrow> fmdom (dg_snapshots dag) = {||}"

section \<open>Signatures\<close>

definition sign_snapshot :: "crypto \<Rightarrow> snapshot \<Rightarrow> array32 \<Rightarrow> drive_id \<Rightarrow> snapshot" where
  "sign_snapshot cr s sk drive =
    s\<lparr>sn_signature := cr_sign_schnorr cr sk (snapshot_challenge_for (cr_derive_key cr) s drive)\<rparr>"

definition verify_snapshot :: "crypto \<Rightarrow> drive_id \<Rightarrow> snapshot \<Rightarrow> rejection + unit" where
  "verify_snapshot cr drive s =
    result_bind (ensure (cr_xonly_from_slice cr (raw (sn_author s))) InvalidAuthorKey) (\<lambda>_.
    result_bind (ensure (cr_signature_from_slice cr (sn_signature s)) BadSnapshotSignature) (\<lambda>_.
    let challenge = snapshot_challenge_for (cr_derive_key cr) s drive in
    ensure (cr_verify_schnorr cr (sn_signature s) challenge (raw (sn_author s))) BadSnapshotSignature))"

section \<open>Phase 1\<close>

definition preverdict ::
  "crypto \<Rightarrow> drive_id \<Rightarrow> membership_log \<Rightarrow> (transition_id \<rightharpoonup> transition_status) \<Rightarrow> snapshot
    \<Rightarrow> device_id set option \<Rightarrow> pre" where
  "preverdict cr drive log statuses s tip_owners =
    (case verify_snapshot cr drive s of
       Inl r \<Rightarrow> PreRejected r
     | Inr _ \<Rightarrow>
    (case log_transition log (sn_membership s) of
       None \<Rightarrow> PrePending UnknownTransition
     | Some t \<Rightarrow>
    (case statuses (sn_membership s) of
       Some SPending \<Rightarrow> PrePending TransitionPending
     | Some SOrphaned \<Rightarrow> PrePending OrphanedTransition
     | Some SContested \<Rightarrow> PrePending ContestedTransition
     | Some SVoided \<Rightarrow> PreVoided
     | Some (SInvalid _) \<Rightarrow> PreRejected TransitionInvalid
     | None \<Rightarrow> PrePending UnknownTransition
     | Some SCanonical \<Rightarrow>
         (let i = transition_id_of (cr_derive_key cr) t;
              is_in = (\<lambda>devices. case devices of None \<Rightarrow> False | Some ds \<Rightarrow> sn_author s \<in> ds) in
          if sn_epoch s \<noteq> mt_epoch t then PreRejected EpochMismatch
          else if \<not> is_in (log_members_of cr log i) then
            (if is_in (log_readers_of cr log i) then PreRejected AuthorIsReader
             else PreRejected AuthorNotMember)
          else if is_recovery s
            \<and> \<not> (case tip_owners of None \<Rightarrow> False | Some owners \<Rightarrow> card owners = 1 \<and> sn_author s \<in> owners)
          then PreRejected RecoveryNotOwner
          else PreAuthorized))))"

section \<open>Phase 2\<close>

record engine =
  eg_dag :: snapshot_dag
  eg_k :: "u64 option"
  eg_children :: "snapshot_id \<rightharpoonup> snapshot_id list"
  eg_pre :: "snapshot_id \<rightharpoonup> pre"
  eg_parent_fate :: "snapshot_id \<rightharpoonup> parent_fate"
  eg_live :: "snapshot_id \<rightharpoonup> live"

text \<open>\<open>children_of\<close> of \<open>classify.rs\<close>: a key for every id, then one push per parent edge.\<close>

definition push_edge :: "snapshot_id \<Rightarrow> snapshot_id \<Rightarrow> (snapshot_id \<rightharpoonup> snapshot_id list) \<Rightarrow> (snapshot_id \<rightharpoonup> snapshot_id list)" where
  "push_edge i parent children =
    (case children parent of None \<Rightarrow> children | Some list \<Rightarrow> children(parent \<mapsto> list @ [i]))"

definition dag_children_of :: "snapshot_dag \<Rightarrow> snapshot_id list \<Rightarrow> snapshot_id \<rightharpoonup> snapshot_id list" where
  "dag_children_of dag is =
    fold (\<lambda>i children. case dag_snapshot dag i of
        None \<Rightarrow> children
      | Some s \<Rightarrow> fold (push_edge i) (sn_parents s) children)
      is (map_of (map (\<lambda>i. (i, [])) is))"

text \<open>The parent loop of \<open>compute_parent_fate\<close>, which breaks at the first verdict.\<close>

fun fate_of :: "snapshot_dag \<Rightarrow> (snapshot_id \<rightharpoonup> pre) \<Rightarrow> snapshot_id list \<Rightarrow> parent_fate" where
  "fate_of dag pre [] = FateOk"
| "fate_of dag pre (parent # parents) =
    (if dag_snapshot dag parent = None then FateUndecided UnknownParent
     else case pre parent of
       Some (PrePending p) \<Rightarrow> FateUndecided p
     | Some (PreRejected _) \<Rightarrow> FateDead
     | Some PreVoided \<Rightarrow> FateDead
     | _ \<Rightarrow> fate_of dag pre parents)"

definition compute_parent_fate :: "engine \<Rightarrow> engine" where
  "compute_parent_fate e =
    fold (\<lambda>i e. case dag_snapshot (eg_dag e) i of
        None \<Rightarrow> e
      | Some s \<Rightarrow> e\<lparr>eg_parent_fate := (eg_parent_fate e)(i \<mapsto> fate_of (eg_dag e) (eg_pre e) (sn_parents s))\<rparr>)
      (dag_ids (eg_dag e)) e"

definition seed_of :: "pre option \<Rightarrow> parent_fate option \<Rightarrow> live" where
  "seed_of p fate =
    (case (p, fate) of
       (Some PreAuthorized, Some FateOk) \<Rightarrow> LiveLive
     | (Some PreAuthorized, Some FateDead) \<Rightarrow> LiveDead
     | (Some PreAuthorized, Some (FateUndecided q)) \<Rightarrow> LiveUndecided q
     | (Some (PrePending q), _) \<Rightarrow> LiveUndecided q
     | _ \<Rightarrow> LiveDead)"

definition seed_live :: "engine \<Rightarrow> engine" where
  "seed_live e =
    fold (\<lambda>i e. e\<lparr>eg_live := (eg_live e)(i \<mapsto> seed_of (eg_pre e i) (eg_parent_fate e i))\<rparr>)
      (dag_ids (eg_dag e)) e"

text \<open>The parent loop of \<open>rederive\<close>; \<open>None\<close> when every parent passes.\<close>

fun rederive_parents :: "engine \<Rightarrow> snapshot \<Rightarrow> snapshot_id list \<Rightarrow> live option" where
  "rederive_parents e s [] = None"
| "rederive_parents e s (parent # parents) =
    (case eg_live e parent of
       Some (LiveUndecided p) \<Rightarrow> Some (LiveUndecided p)
     | Some LiveDead \<Rightarrow> Some LiveDead
     | None \<Rightarrow> Some (LiveUndecided UnknownParent)
     | Some LiveLive \<Rightarrow>
         (case dag_snapshot (eg_dag e) parent of
            None \<Rightarrow> Some LiveDead
          | Some ps \<Rightarrow> if sn_epoch ps > sn_epoch s then Some LiveDead else rederive_parents e s parents))"

text \<open>
  The child index is read with an indexing that panics on a missing key;
  \<open>children_indexed\<close> below shows that no observed id is missing.
\<close>

definition rederive :: "engine \<Rightarrow> snapshot_id \<Rightarrow> live" where
  "rederive e i =
    (case eg_pre e i of
       Some (PrePending p) \<Rightarrow> LiveUndecided p
     | Some PreAuthorized \<Rightarrow>
         (case dag_snapshot (eg_dag e) i of
            None \<Rightarrow> LiveDead
          | Some s \<Rightarrow>
              (case rederive_parents e s (sn_parents s) of
                 Some v \<Rightarrow> v
               | None \<Rightarrow>
                   (let current = (eg_k e = Some (sn_epoch s)) in
                    if \<not> current \<and> \<not> list_ex (\<lambda>c. eg_live e c = Some LiveLive) (the (eg_children e i))
                    then LiveDead else LiveLive)))
     | _ \<Rightarrow> LiveDead)"

fun live_pass :: "snapshot_id list \<Rightarrow> engine \<Rightarrow> bool \<Rightarrow> engine \<times> bool" where
  "live_pass [] e changed = (e, changed)"
| "live_pass (i # is) e changed =
    (if eg_live e i \<noteq> Some LiveLive then live_pass is e changed
     else let next = rederive e i in
       if next \<noteq> LiveLive then live_pass is (e\<lparr>eg_live := (eg_live e)(i \<mapsto> next)\<rparr>) True
       else live_pass is e changed)"

definition live_set :: "engine \<Rightarrow> snapshot_id set" where
  "live_set e = {i. i \<in> set (dag_ids (eg_dag e)) \<and> eg_live e i = Some LiveLive}"

lemma live_pass_dag [simp]: "eg_dag (fst (live_pass is e ch)) = eg_dag e"
  by (induction "is" e ch rule: live_pass.induct) (simp_all add: Let_def)

lemma live_pass_shrinks:
  "live_set (fst (live_pass is e ch)) \<subseteq> live_set e
    \<and> (snd (live_pass is e ch) \<and> \<not> ch \<and> set is \<subseteq> set (dag_ids (eg_dag e))
        \<longrightarrow> live_set (fst (live_pass is e ch)) \<subset> live_set e)"
proof (induction "is" e ch rule: live_pass.induct)
  case (2 i "is" e ch)
  show ?case
  proof (cases "eg_live e i = Some LiveLive \<and> rederive e i \<noteq> LiveLive")
    case True
    let ?e = "e\<lparr>eg_live := (eg_live e)(i \<mapsto> rederive e i)\<rparr>"
    have "live_set ?e = live_set e - {i}" using True by (auto simp: live_set_def)
    moreover have "i \<in> live_set e" if "i \<in> set (dag_ids (eg_dag e))"
      using True that by (simp add: live_set_def)
    ultimately show ?thesis using 2(2) [of "rederive e i"] True by (auto simp: Let_def)
  next
    case False
    with 2 show ?thesis by (auto simp: Let_def)
  qed
qed simp

lemma finite_live_set [simp]: "finite (live_set e)"
  by (simp add: live_set_def)

function live_fixed_point :: "engine \<Rightarrow> engine" where
  "live_fixed_point e =
    (let (e', changed) = live_pass (dag_ids (eg_dag e)) e False in
     if changed then live_fixed_point e' else e')"
  by pat_completeness auto
termination
proof (relation "measure (card \<circ> live_set)")
  fix e e' :: engine and p changed
  assume p: "p = live_pass (dag_ids (eg_dag e)) e False" "(e', changed) = p" "changed"
  then have "live_set e' \<subset> live_set e"
    using live_pass_shrinks [of "dag_ids (eg_dag e)" e False] by (metis fst_conv order_refl snd_conv)
  then show "(e', e) \<in> measure (card \<circ> live_set)" by (simp add: psubset_card_mono)
qed simp

declare live_fixed_point.simps [simp del]

definition recovery_parents_eligible :: "engine \<Rightarrow> snapshot_id \<Rightarrow> bool" where
  "recovery_parents_eligible e i =
    (case dag_snapshot (eg_dag e) i of
       None \<Rightarrow> False
     | Some s \<Rightarrow>
         (let referenced = referenced_by (eg_dag e) (filter (\<lambda>other. other \<noteq> i) (dag_ids (eg_dag e))) in
          list_all (\<lambda>parent. case dag_snapshot (eg_dag e) parent of
              None \<Rightarrow> False
            | Some ps \<Rightarrow> parent \<notin> referenced \<and> Some (sn_epoch ps) = eg_k e \<and> eg_live e parent = Some LiveLive)
            (sn_parents s)))"

section \<open>The classification\<close>

definition compute_pre :: "(snapshot \<Rightarrow> pre) \<Rightarrow> snapshot_id list \<Rightarrow> engine \<Rightarrow> engine" where
  "compute_pre verdict is e =
    fold (\<lambda>i e. case dag_snapshot (eg_dag e) i of
        None \<Rightarrow> e
      | Some s \<Rightarrow> e\<lparr>eg_pre := (eg_pre e)(i \<mapsto> verdict s)\<rparr>) is e"

text \<open>The recovery loop: the engine after it, and whether it rejected anything.\<close>

definition reject_recoveries :: "snapshot_id list \<Rightarrow> engine \<Rightarrow> engine \<times> bool" where
  "reject_recoveries is e =
    fold (\<lambda>i (e, recovery_rejected). case dag_snapshot (eg_dag e) i of
        None \<Rightarrow> (e, recovery_rejected)
      | Some s \<Rightarrow>
          if is_recovery s \<and> eg_pre e i = Some PreAuthorized \<and> \<not> recovery_parents_eligible e i
          then (e\<lparr>eg_pre := (eg_pre e)(i \<mapsto> PreRejected RecoveryParentInvalid)\<rparr>, True)
          else (e, recovery_rejected)) is (e, False)"

definition final_class :: "engine \<Rightarrow> snapshot_id set \<Rightarrow> snapshot_id \<Rightarrow> classification" where
  "final_class e heads i =
    (case dag_snapshot (eg_dag e) i of
       None \<Rightarrow> CStranded
     | Some s \<Rightarrow>
    (case eg_pre e i of
       None \<Rightarrow> CStranded
     | Some (PreRejected r) \<Rightarrow> CRejected r
     | Some (PrePending p) \<Rightarrow> CPending p
     | Some PreVoided \<Rightarrow> CVoided
     | Some PreAuthorized \<Rightarrow>
         (case (case eg_live e i of None \<Rightarrow> LiveDead | Some v \<Rightarrow> v) of
            LiveUndecided p \<Rightarrow> CPending p
          | LiveDead \<Rightarrow>
              (case eg_k e of
                 Some k \<Rightarrow> if sn_epoch s < k then CSuperseded
                           else if sn_epoch s > k then CPending FutureEpoch else CStranded
               | None \<Rightarrow> CStranded)
          | LiveLive \<Rightarrow>
              if i \<in> heads \<and> Some (sn_epoch s) = eg_k e then CEligible else CCanonicalHistory)))"

text \<open>Phase 1 over the whole DAG, then phase 2.\<close>

definition judged :: "crypto \<Rightarrow> membership_log \<Rightarrow> snapshot_dag \<Rightarrow> u64 option \<Rightarrow> engine" where
  "judged cr log dag epoch =
    (let known = log_known_state cr log;
         k = (case epoch of Some e \<Rightarrow> Some e | None \<Rightarrow> map_option ks_epoch known);
         tip_owners = Option.bind known (\<lambda>ks. log_owners_of cr log (ks_transition_id ks));
         statuses = log_statuses cr log;
         is = dag_ids dag;
         e = \<lparr>eg_dag = dag, eg_k = k, eg_children = dag_children_of dag is, eg_pre = Map.empty,
              eg_parent_fate = Map.empty, eg_live = Map.empty\<rparr> in
     compute_pre (\<lambda>s. preverdict cr (dg_drive dag) log statuses s tip_owners) is e)"

definition engine_of :: "crypto \<Rightarrow> membership_log \<Rightarrow> snapshot_dag \<Rightarrow> u64 option \<Rightarrow> engine" where
  "engine_of cr log dag epoch =
    (let e = judged cr log dag epoch;
         e = live_fixed_point (seed_live (compute_parent_fate e));
         (e, recovery_rejected) = reject_recoveries (dag_ids dag) e in
     if recovery_rejected then live_fixed_point e else e)"

definition classify_at_epoch ::
  "crypto \<Rightarrow> membership_log \<Rightarrow> snapshot_dag \<Rightarrow> u64 option \<Rightarrow> (snapshot_id, classification) fmap" where
  "classify_at_epoch cr log dag epoch =
    (let e = engine_of cr log dag epoch; heads = set (dag_heads dag) in
     fold (\<lambda>i out. fmupd i (final_class e heads i) out) (dag_ids dag) fmempty)"

definition dag_classify :: "crypto \<Rightarrow> membership_log \<Rightarrow> snapshot_dag \<Rightarrow> (snapshot_id, classification) fmap" where
  "dag_classify cr log dag =
    (let k = map_option ks_epoch (log_known_state cr log) in classify_at_epoch cr log dag k)"

definition eligible_ids :: "(snapshot_id, classification) fmap \<Rightarrow> snapshot_id list" where
  "eligible_ids out = sort (map fst (filter (\<lambda>(_, c). c = CEligible) (sorted_list_of_fmap out)))"

definition eligible_heads :: "crypto \<Rightarrow> membership_log \<Rightarrow> snapshot_dag \<Rightarrow> snapshot_id list" where
  "eligible_heads cr log dag = eligible_ids (dag_classify cr log dag)"

definition eligible_heads_at_epoch :: "crypto \<Rightarrow> membership_log \<Rightarrow> snapshot_dag \<Rightarrow> u64 \<Rightarrow> snapshot_id list" where
  "eligible_heads_at_epoch cr log dag epoch = eligible_ids (classify_at_epoch cr log dag (Some epoch))"

definition eligible_head_bodies :: "crypto \<Rightarrow> membership_log \<Rightarrow> snapshot_dag \<Rightarrow> snapshot list" where
  "eligible_head_bodies cr log dag = List.map_filter (dag_snapshot dag) (eligible_heads cr log dag)"

end
