(* ===== verification/Wyrd_Lineage.thy ===== *)
theory Wyrd_Lineage
  imports Wyrd_Authorization
begin

text \<open>
  The correctness of the classification engine.  The live snapshots are the
  greatest set closed under the lineage rule of \<open>docs/epochs.md\<close>, whatever the order
  in which the passes visit the ids; the recovery parent rule is evaluated against
  that set and the second run restores it.
\<close>

section \<open>The DAG\<close>

lemma set_dag_ids: "i \<in> set (dag_ids dag) \<longleftrightarrow> dag_snapshot dag i \<noteq> None"
  by (simp add: dag_ids_def dag_snapshot_def sorted_list_of_fset_simps fmdom_notI fmlookup_dom_iff)

lemma dag_ids_ordered [simp]: "sorted (dag_ids dag)" "distinct (dag_ids dag)"
  by (simp_all add: dag_ids_def sorted_list_of_fset.rep_eq)

lemma fold_insert: "fold insert ps R = set ps \<union> R"
  by (induction ps arbitrary: R) auto

lemma referenced_by_set:
  "referenced_by dag is = {p. \<exists>i \<in> set is. \<exists>s. dag_snapshot dag i = Some s \<and> p \<in> set (sn_parents s)}"
proof -
  let ?f = "\<lambda>i R. case dag_snapshot dag i of None \<Rightarrow> R | Some s \<Rightarrow> fold insert (sn_parents s) R"
  have "fold ?f is R = R \<union> {p. \<exists>i \<in> set is. \<exists>s. dag_snapshot dag i = Some s \<and> p \<in> set (sn_parents s)}" for R
    by (induction "is" arbitrary: R) (auto simp: fold_insert split: option.splits)
  then show ?thesis by (simp add: referenced_by_def)
qed

text \<open>\<open>child_in dag c p\<close>: the observed snapshot \<open>c\<close> names \<open>p\<close> as a parent.\<close>

definition child_in :: "snapshot_dag \<Rightarrow> snapshot_id \<Rightarrow> snapshot_id \<Rightarrow> bool" where
  "child_in dag c p \<longleftrightarrow> (\<exists>s. dag_snapshot dag c = Some s \<and> p \<in> set (sn_parents s))"

lemma referenced_child: "p \<in> referenced_by dag is \<longleftrightarrow> (\<exists>c \<in> set is. child_in dag c p)"
  by (auto simp: referenced_by_set child_in_def)

lemma child_in_ids: "child_in dag c p \<Longrightarrow> c \<in> set (dag_ids dag)"
  by (auto simp: child_in_def set_dag_ids)

lemma set_dag_heads:
  "i \<in> set (dag_heads dag) \<longleftrightarrow> dag_snapshot dag i \<noteq> None \<and> (\<nexists>c. child_in dag c i)"
  using child_in_ids [of dag _ i] by (auto simp: dag_heads_def referenced_child set_dag_ids)

section \<open>The child index\<close>

lemma push_edge_apply:
  "push_edge i parent ch j = (if j = parent then map_option (\<lambda>l. l @ [i]) (ch j) else ch j)"
  by (simp add: push_edge_def split: option.splits)

lemma push_edges_apply:
  "fold (push_edge i) ps ch j = map_option (\<lambda>l. l @ replicate (count_list ps j) i) (ch j)"
proof (induction ps arbitrary: ch)
  case (Cons p ps)
  show ?case unfolding fold.simps comp_apply Cons.IH using push_edge_apply [of i p ch j] by (cases "ch j") auto
qed (simp add: option.map_ident)

lemma children_fold:
  "(fold (\<lambda>i ch. case dag_snapshot dag i of None \<Rightarrow> ch | Some s \<Rightarrow> fold (push_edge i) (sn_parents s) ch) is ch j
      = None \<longleftrightarrow> ch j = None)
   \<and> (\<forall>l. ch j = Some l \<longrightarrow>
        (\<exists>l'. fold (\<lambda>i ch. case dag_snapshot dag i of None \<Rightarrow> ch | Some s \<Rightarrow> fold (push_edge i) (sn_parents s) ch)
            is ch j = Some l' \<and> set l' = set l \<union> {c \<in> set is. child_in dag c j}))"
proof (induction "is" arbitrary: ch)
  case (Cons i "is")
  let ?ch = "case dag_snapshot dag i of None \<Rightarrow> ch | Some s \<Rightarrow> fold (push_edge i) (sn_parents s) ch"
  have "?ch j = None \<longleftrightarrow> ch j = None" by (simp add: push_edges_apply split: option.splits)
  moreover have "\<exists>l'. ?ch j = Some l' \<and> set l' = set l \<union> {c \<in> {i}. child_in dag c j}" if "ch j = Some l" for l
    using that by (auto simp: push_edges_apply child_in_def count_list_0_iff split: option.splits)
  ultimately show ?case using Cons.IH [of ?ch] by fastforce
qed simp

lemma children_indexed:
  assumes "dag_snapshot dag i \<noteq> None"
  shows "\<exists>l. dag_children_of dag (dag_ids dag) i = Some l \<and> set l = {c. child_in dag c i}"
proof -
  have "map_of (map (\<lambda>i. (i, [])) (dag_ids dag)) i = Some []"
    using assms by (simp add: map_of_map_restrict set_dag_ids)
  with children_fold [of dag "dag_ids dag" "map_of (map (\<lambda>i. (i, [])) (dag_ids dag))" i] child_in_ids [of dag _ i]
  show ?thesis unfolding dag_children_of_def by auto
qed

section \<open>What the phases compute\<close>

lemma compute_pre_fields:
  "compute_pre v is e = e\<lparr>eg_pre := (\<lambda>i. if i \<in> set is \<and> dag_snapshot (eg_dag e) i \<noteq> None
      then map_option v (dag_snapshot (eg_dag e) i) else eg_pre e i)\<rparr>"
proof (induction "is" arbitrary: e)
  case (Cons i "is")
  show ?case
  proof (cases "dag_snapshot (eg_dag e) i")
    case None
    with Cons.IH [of e] show ?thesis
      by (auto simp: compute_pre_def intro!: engine.equality ext)
  next
    case (Some s)
    with Cons.IH [of "e\<lparr>eg_pre := (eg_pre e)(i \<mapsto> v s)\<rparr>"] show ?thesis
      by (auto simp: compute_pre_def intro!: engine.equality ext)
  qed
qed (simp add: compute_pre_def)

lemma parent_fate_fold:
  "fold (\<lambda>i e. case dag_snapshot (eg_dag e) i of
        None \<Rightarrow> e
      | Some s \<Rightarrow> e\<lparr>eg_parent_fate := (eg_parent_fate e)(i \<mapsto> fate_of (eg_dag e) (eg_pre e) (sn_parents s))\<rparr>) is e
   = e\<lparr>eg_parent_fate := (\<lambda>i. if i \<in> set is \<and> dag_snapshot (eg_dag e) i \<noteq> None
      then map_option (\<lambda>s. fate_of (eg_dag e) (eg_pre e) (sn_parents s)) (dag_snapshot (eg_dag e) i)
      else eg_parent_fate e i)\<rparr>"
proof (induction "is" arbitrary: e)
  case (Cons i "is")
  show ?case
    by (cases "dag_snapshot (eg_dag e) i") (auto simp: Cons.IH intro!: engine.equality ext)
qed simp

lemma seed_fold:
  "fold (\<lambda>i e. e\<lparr>eg_live := (eg_live e)(i \<mapsto> seed_of (eg_pre e i) (eg_parent_fate e i))\<rparr>) is e
   = e\<lparr>eg_live := (\<lambda>i. if i \<in> set is then Some (seed_of (eg_pre e i) (eg_parent_fate e i)) else eg_live e i)\<rparr>"
proof (induction "is" arbitrary: e)
  case (Cons i "is")
  show ?case unfolding fold.simps comp_apply Cons.IH by (auto intro!: engine.equality ext)
qed simp

lemma fate_ok:
  "fate_of dag pre ps = FateOk \<longleftrightarrow>
    (\<forall>p \<in> set ps. dag_snapshot dag p \<noteq> None \<and> (pre p = None \<or> pre p = Some PreAuthorized))"
  by (induction ps) (auto split: option.splits pre.splits)

lemma seed_Live: "seed_of p f = LiveLive \<longleftrightarrow> p = Some PreAuthorized \<and> f = Some FateOk"
  by (auto simp: seed_of_def split: option.splits pre.splits parent_fate.splits)

text \<open>The passes change \<open>eg_live\<close> only.\<close>

lemma live_pass_frame [simp]:
  "eg_k (fst (live_pass is e ch)) = eg_k e" "eg_children (fst (live_pass is e ch)) = eg_children e"
  "eg_pre (fst (live_pass is e ch)) = eg_pre e" "eg_parent_fate (fst (live_pass is e ch)) = eg_parent_fate e"
  by (induction "is" e ch rule: live_pass.induct) (simp_all add: Let_def)

lemma live_fixed_point_frame [simp]:
  "eg_dag (live_fixed_point e) = eg_dag e \<and> eg_k (live_fixed_point e) = eg_k e
   \<and> eg_children (live_fixed_point e) = eg_children e \<and> eg_pre (live_fixed_point e) = eg_pre e
   \<and> eg_parent_fate (live_fixed_point e) = eg_parent_fate e"
proof (induction e rule: live_fixed_point.induct)
  case (1 e)
  obtain e' ch where p: "live_pass (dag_ids (eg_dag e)) e False = (e', ch)" by force
  have "eg_dag e' = eg_dag e" "eg_k e' = eg_k e" "eg_children e' = eg_children e" "eg_pre e' = eg_pre e"
    "eg_parent_fate e' = eg_parent_fate e"
    using live_pass_frame [of "dag_ids (eg_dag e)" e False] live_pass_dag [of "dag_ids (eg_dag e)" e False]
    by (simp_all add: p)
  with 1 [OF p [symmetric] refl] show ?case by (subst (1 2 3 4 5) live_fixed_point.simps) (simp add: p)
qed

section \<open>The lineage rule\<close>

text \<open>
  The rule of \<open>docs/epochs.md\<close>, relative to a set \<open>S\<close> of snapshots taken as live:
  authorized, every parent in \<open>S\<close> and not from a later epoch, and of the current
  epoch unless some child is in \<open>S\<close>.
\<close>

definition lineage :: "engine \<Rightarrow> snapshot_id set \<Rightarrow> snapshot_id \<Rightarrow> bool" where
  "lineage e S i \<longleftrightarrow>
     eg_pre e i = Some PreAuthorized
     \<and> (\<exists>s. dag_snapshot (eg_dag e) i = Some s
         \<and> (\<forall>p \<in> set (sn_parents s). p \<in> S \<and>
              (\<exists>ps. dag_snapshot (eg_dag e) p = Some ps \<and> sn_epoch ps \<le> sn_epoch s))
         \<and> (eg_k e = Some (sn_epoch s) \<or> (\<exists>c \<in> S. child_in (eg_dag e) c i)))"

definition live_lineage :: "engine \<Rightarrow> snapshot_id set" where
  "live_lineage e = gfp (\<lambda>S. {i. lineage e S i})"

lemma lineage_mono: "S \<subseteq> S' \<Longrightarrow> lineage e S i \<Longrightarrow> lineage e S' i"
  unfolding lineage_def by blast

lemma live_lineage_unfold: "i \<in> live_lineage e \<longleftrightarrow> lineage e (live_lineage e) i"
proof -
  have "mono (\<lambda>S. {i. lineage e S i})" using lineage_mono by (auto intro!: monoI)
  from gfp_unfold [OF this] show ?thesis unfolding live_lineage_def by blast
qed

lemma live_lineageD:
  assumes "i \<in> live_lineage e"
  obtains s where "dag_snapshot (eg_dag e) i = Some s" "eg_pre e i = Some PreAuthorized"
    "\<And>p. p \<in> set (sn_parents s) \<Longrightarrow> p \<in> live_lineage e
       \<and> (\<exists>ps. dag_snapshot (eg_dag e) p = Some ps \<and> sn_epoch ps \<le> sn_epoch s)"
    "eg_k e = Some (sn_epoch s) \<or> (\<exists>c \<in> live_lineage e. child_in (eg_dag e) c i)"
proof -
  have "lineage e (live_lineage e) i" using assms live_lineage_unfold [of i e] by blast
  then show ?thesis unfolding lineage_def by (elim conjE exE) (rule that; blast)
qed

lemma live_lineage_greatest: "(\<And>i. i \<in> S \<Longrightarrow> lineage e S i) \<Longrightarrow> S \<subseteq> live_lineage e"
  unfolding live_lineage_def by (rule gfp_upperbound) auto

lemma live_lineage_eqI:
  assumes "\<And>i. i \<in> T \<Longrightarrow> lineage e T i" "\<And>S. (\<And>i. i \<in> S \<Longrightarrow> lineage e S i) \<Longrightarrow> S \<subseteq> T"
  shows "T = live_lineage e"
  using live_lineage_greatest [of T e] assms(1) assms(2) [of "live_lineage e"] live_lineage_unfold [of _ e] by blast

text \<open>Re-deriving a snapshot is the lineage rule at the current live set.\<close>

definition indexed :: "engine \<Rightarrow> bool" where
  "indexed e \<longleftrightarrow> eg_children e = dag_children_of (eg_dag e) (dag_ids (eg_dag e))"

lemma rederive_parents_None:
  "rederive_parents e s ps = None \<longleftrightarrow>
    (\<forall>p \<in> set ps. eg_live e p = Some LiveLive \<and>
       (\<exists>q. dag_snapshot (eg_dag e) p = Some q \<and> sn_epoch q \<le> sn_epoch s))"
  by (induction ps) (auto split: option.splits live.splits)

lemma rederive_parents_not_Live: "rederive_parents e s ps \<noteq> Some LiveLive"
  by (induction ps) (auto split: option.splits live.splits)

lemma in_live_set: "i \<in> live_set e \<longleftrightarrow> dag_snapshot (eg_dag e) i \<noteq> None \<and> eg_live e i = Some LiveLive"
  by (simp add: live_set_def set_dag_ids)

lemma rederive_Live:
  assumes "indexed e"
  shows "rederive e i = LiveLive \<longleftrightarrow> lineage e (live_set e) i"
proof (cases "eg_pre e i = Some PreAuthorized \<and> dag_snapshot (eg_dag e) i \<noteq> None")
  case True
  then obtain s where s: "dag_snapshot (eg_dag e) i = Some s" and a: "eg_pre e i = Some PreAuthorized" by auto
  from children_indexed [of "eg_dag e" i] s obtain l where
    l: "eg_children e i = Some l" "set l = {c. child_in (eg_dag e) c i}"
    using assms by (auto simp: indexed_def)
  have "rederive e i = LiveLive \<longleftrightarrow> rederive_parents e s (sn_parents s) = None
      \<and> (eg_k e = Some (sn_epoch s) \<or> (\<exists>c \<in> set l. eg_live e c = Some LiveLive))"
    using a s l(1) rederive_parents_not_Live [of e s "sn_parents s"]
    by (auto simp: rederive_def Let_def list_ex_iff split: option.splits)
  moreover have "(\<exists>c \<in> set l. eg_live e c = Some LiveLive) \<longleftrightarrow> (\<exists>c \<in> live_set e. child_in (eg_dag e) c i)"
    using l(2) by (auto simp: in_live_set child_in_def)
  ultimately show ?thesis using a s by (auto simp: lineage_def rederive_parents_None in_live_set)
next
  case False
  then show ?thesis by (auto simp: rederive_def lineage_def split: option.splits pre.splits)
qed

section \<open>The fixed point\<close>

text \<open>A set closed under the rule survives a pass, and a pass without a change found the live set closed.\<close>

lemma live_pass_keeps:
  assumes "\<And>i. i \<in> S \<Longrightarrow> lineage e S i"
  shows "indexed e \<Longrightarrow> S \<subseteq> live_set e \<Longrightarrow> S \<subseteq> live_set (fst (live_pass is e ch))"
  using assms
proof (induction "is" e ch rule: live_pass.induct)
  case (2 i "is" e ch)
  show ?case
  proof (cases "eg_live e i = Some LiveLive \<and> rederive e i \<noteq> LiveLive")
    case True
    let ?e = "e\<lparr>eg_live := (eg_live e)(i \<mapsto> rederive e i)\<rparr>"
    have "i \<notin> S"
      using True rederive_Live [OF 2(4)] lineage_mono [OF 2(5)] 2(6) by blast
    then have "S \<subseteq> live_set ?e" using 2(5) by (auto simp: in_live_set)
    moreover have "indexed ?e" using 2(4) by (simp add: indexed_def)
    moreover have "lineage ?e S j" if "j \<in> S" for j using 2(6) [OF that] by (simp add: lineage_def)
    ultimately show ?thesis using 2(2) [of "rederive e i"] True by (simp add: Let_def)
  next
    case False
    with 2 show ?thesis by (auto simp: Let_def)
  qed
qed simp

lemma live_pass_changed: "ch \<Longrightarrow> snd (live_pass is e ch)"
  by (induction "is" e ch rule: live_pass.induct) (simp_all add: Let_def)

lemma live_pass_stable:
  "\<not> snd (live_pass is e ch) \<Longrightarrow>
   fst (live_pass is e ch) = e \<and> (\<forall>i \<in> set is. eg_live e i = Some LiveLive \<longrightarrow> rederive e i = LiveLive)"
proof (induction "is")
  case (Cons i "is")
  have no: "\<not> (eg_live e i = Some LiveLive \<and> rederive e i \<noteq> LiveLive)"
  proof
    assume "eg_live e i = Some LiveLive \<and> rederive e i \<noteq> LiveLive"
    then have "live_pass (i # is) e ch = live_pass is (e\<lparr>eg_live := (eg_live e)(i \<mapsto> rederive e i)\<rparr>) True"
      by (simp add: Let_def)
    with Cons.prems live_pass_changed [OF TrueI] show False by metis
  qed
  then have eq: "live_pass (i # is) e ch = live_pass is e ch" by (simp add: Let_def)
  with Cons no show ?case by (metis set_ConsD)
qed simp

lemma live_fixed_point_closed:
  assumes "indexed e"
  shows "i \<in> live_set (live_fixed_point e) \<Longrightarrow> lineage e (live_set (live_fixed_point e)) i"
  using assms
proof (induction e rule: live_fixed_point.induct)
  case (1 e)
  let ?p = "live_pass (dag_ids (eg_dag e)) e False"
  have "lineage e (live_set (live_fixed_point e)) i" if "\<not> snd ?p"
  proof -
    from live_pass_stable [OF that] have "fst ?p = e" and r: "\<And>i. i \<in> live_set e \<Longrightarrow> rederive e i = LiveLive"
      by (auto simp: live_set_def)
    then have "live_fixed_point e = e" using that by (simp add: live_fixed_point.simps [of e] split_beta)
    with r 1(2) rederive_Live [OF 1(3)] show ?thesis by simp
  qed
  moreover have "lineage e (live_set (live_fixed_point e)) i" if ch: "snd ?p"
  proof -
    have eq: "live_fixed_point e = live_fixed_point (fst ?p)"
      using ch by (simp add: live_fixed_point.simps [of e] split_beta)
    have "indexed (fst ?p)" using 1(3) by (simp add: indexed_def)
    with 1(1) [OF refl prod.collapse ch] 1(2) eq have "lineage (fst ?p) (live_set (live_fixed_point e)) i" by simp
    then show ?thesis by (simp add: lineage_def)
  qed
  ultimately show ?case by blast
qed

lemma live_fixed_point_keeps:
  assumes "\<And>i. i \<in> S \<Longrightarrow> lineage e S i" "indexed e" "S \<subseteq> live_set e"
  shows "S \<subseteq> live_set (live_fixed_point e)"
  using assms
proof (induction e rule: live_fixed_point.induct)
  case (1 e)
  let ?p = "live_pass (dag_ids (eg_dag e)) e False"
  have S: "S \<subseteq> live_set (fst ?p)" using 1(2-4) by (rule live_pass_keeps)
  moreover have "indexed (fst ?p)" using 1(3) by (simp add: indexed_def)
  moreover have "lineage (fst ?p) S j" if "j \<in> S" for j using 1(2) [OF that] by (simp add: lineage_def)
  ultimately show ?case
    using 1(1) [OF refl prod.collapse] by (simp add: live_fixed_point.simps [of e] split_beta)
qed

text \<open>
  Run from any live set that contains the live lineage, the fixed point is the
  live lineage.
\<close>

lemma live_fixed_point_lineage:
  assumes "indexed e" "live_lineage e \<subseteq> live_set e"
  shows "live_set (live_fixed_point e) = live_lineage e"
proof (rule live_lineage_eqI)
  show "lineage e (live_set (live_fixed_point e)) i" if "i \<in> live_set (live_fixed_point e)" for i
    using assms(1) that by (rule live_fixed_point_closed)
  fix S assume S: "\<And>i. i \<in> S \<Longrightarrow> lineage e S i"
  from live_lineage_greatest [OF S] assms(2) have "S \<subseteq> live_set e" by blast
  from live_fixed_point_keeps [OF S assms(1) this] show "S \<subseteq> live_set (live_fixed_point e)" .
qed

section \<open>The engine\<close>

lemma lineage_cong:
  assumes "eg_dag e' = eg_dag e" "eg_k e' = eg_k e" "eg_pre e' = eg_pre e"
  shows "lineage e' = lineage e" "live_lineage e' = live_lineage e"
proof -
  show "lineage e' = lineage e" using assms by (simp add: lineage_def fun_eq_iff)
  then show "live_lineage e' = live_lineage e" by (simp add: live_lineage_def)
qed

text \<open>A snapshot bars a recovery parent when it is another child of it.\<close>

definition recovery_ok :: "engine \<Rightarrow> snapshot_id set \<Rightarrow> snapshot_id \<Rightarrow> bool" where
  "recovery_ok e S i \<longleftrightarrow> (\<exists>s. dag_snapshot (eg_dag e) i = Some s \<and>
     (\<forall>p \<in> set (sn_parents s). p \<in> S \<and> (\<nexists>c. c \<noteq> i \<and> child_in (eg_dag e) c p)
        \<and> (\<exists>ps. dag_snapshot (eg_dag e) p = Some ps \<and> eg_k e = Some (sn_epoch ps))))"

lemma recovery_parents_ok: "recovery_parents_eligible e i \<longleftrightarrow> recovery_ok e (live_set e) i"
proof (cases "dag_snapshot (eg_dag e) i")
  case (Some s)
  have ref: "p \<in> referenced_by (eg_dag e) (filter (\<lambda>other. other \<noteq> i) (dag_ids (eg_dag e)))
      \<longleftrightarrow> (\<exists>c. c \<noteq> i \<and> child_in (eg_dag e) c p)" for p
    using child_in_ids [of "eg_dag e" _ p] unfolding referenced_child by auto
  have "(case dag_snapshot (eg_dag e) p of None \<Rightarrow> False
      | Some ps \<Rightarrow> p \<notin> referenced_by (eg_dag e) (filter (\<lambda>other. other \<noteq> i) (dag_ids (eg_dag e)))
          \<and> Some (sn_epoch ps) = eg_k e \<and> eg_live e p = Some LiveLive)
    \<longleftrightarrow> p \<in> live_set e \<and> (\<nexists>c. c \<noteq> i \<and> child_in (eg_dag e) c p)
        \<and> (\<exists>ps. dag_snapshot (eg_dag e) p = Some ps \<and> eg_k e = Some (sn_epoch ps))" for p
    unfolding ref by (cases "dag_snapshot (eg_dag e) p") (auto simp: in_live_set)
  with Some show ?thesis by (simp add: recovery_parents_eligible_def recovery_ok_def list_all_iff)
qed (simp add: recovery_parents_eligible_def recovery_ok_def)

lemma seeded_lineage: "live_lineage e \<subseteq> live_set (seed_live (compute_parent_fate e))"
proof
  fix i assume "i \<in> live_lineage e"
  then obtain s where s: "dag_snapshot (eg_dag e) i = Some s" "eg_pre e i = Some PreAuthorized"
    and ps: "\<And>p. p \<in> set (sn_parents s) \<Longrightarrow> p \<in> live_lineage e" by (rule live_lineageD) blast
  have "eg_pre e p = Some PreAuthorized \<and> dag_snapshot (eg_dag e) p \<noteq> None" if "p \<in> set (sn_parents s)" for p
    using ps [OF that] by (rule live_lineageD) simp
  then have "fate_of (eg_dag e) (eg_pre e) (sn_parents s) = FateOk" by (simp add: fate_ok)
  with s show "i \<in> live_set (seed_live (compute_parent_fate e))"
    by (simp add: seed_live_def compute_parent_fate_def seed_fold parent_fate_fold in_live_set set_dag_ids seed_Live)
qed

lemma seed_frame [simp]:
  "eg_dag (seed_live (compute_parent_fate e)) = eg_dag e" "eg_k (seed_live (compute_parent_fate e)) = eg_k e"
  "eg_pre (seed_live (compute_parent_fate e)) = eg_pre e"
  "eg_children (seed_live (compute_parent_fate e)) = eg_children e"
  by (simp_all add: seed_live_def compute_parent_fate_def seed_fold parent_fate_fold)

lemma judged_fields:
  "eg_dag (judged cr log dag epoch) = dag" "indexed (judged cr log dag epoch)"
  "eg_live (judged cr log dag epoch) = Map.empty"
  "eg_k (judged cr log dag epoch) = (case epoch of Some e \<Rightarrow> Some e | None \<Rightarrow> map_option ks_epoch (log_known_state cr log))"
  "eg_pre (judged cr log dag epoch) i = map_option (\<lambda>s. preverdict cr (dg_drive dag) log (log_statuses cr log) s
     (Option.bind (log_known_state cr log) (\<lambda>ks. log_owners_of cr log (ks_transition_id ks)))) (dag_snapshot dag i)"
  by (auto simp: judged_def compute_pre_fields Let_def indexed_def set_dag_ids)

text \<open>The first run of phase 2.\<close>

definition first_run :: "engine \<Rightarrow> engine" where
  "first_run e = live_fixed_point (seed_live (compute_parent_fate e))"

lemma first_run_frame [simp]:
  "eg_dag (first_run e) = eg_dag e" "eg_k (first_run e) = eg_k e" "eg_pre (first_run e) = eg_pre e"
  "eg_children (first_run e) = eg_children e"
  by (simp_all add: first_run_def)

lemma first_run_lineage:
  fixes cr log dag epoch
  defines "e \<equiv> judged cr log dag epoch"
  shows "live_set (first_run e) = live_lineage e"
proof -
  let ?e = "seed_live (compute_parent_fate e)"
  have "live_lineage e \<subseteq> live_set ?e" by (rule seeded_lineage)
  moreover have "live_lineage ?e = live_lineage e" by (rule lineage_cong) simp_all
  moreover have "indexed ?e" using judged_fields(2) by (simp add: indexed_def e_def)
  ultimately show ?thesis using live_fixed_point_lineage [of ?e] by (simp add: first_run_def)
qed

text \<open>The recovery loop changes pre-verdicts only, and reads none of those it changed.\<close>

definition refused :: "engine \<Rightarrow> snapshot_id \<Rightarrow> bool" where
  "refused e i \<longleftrightarrow> (\<exists>s. dag_snapshot (eg_dag e) i = Some s \<and> is_recovery s)
     \<and> eg_pre e i = Some PreAuthorized \<and> \<not> recovery_parents_eligible e i"

lemma refused_pre_upd:
  "j \<noteq> i \<Longrightarrow> refused (e\<lparr>eg_pre := (eg_pre e)(i \<mapsto> v)\<rparr>) j \<longleftrightarrow> refused e j"
  by (simp add: refused_def recovery_parents_ok recovery_ok_def in_live_set)

lemma reject_recoveries_fold:
  "distinct is \<Longrightarrow>
   fold (\<lambda>i (e, recovery_rejected). case dag_snapshot (eg_dag e) i of
        None \<Rightarrow> (e, recovery_rejected)
      | Some s \<Rightarrow>
          if is_recovery s \<and> eg_pre e i = Some PreAuthorized \<and> \<not> recovery_parents_eligible e i
          then (e\<lparr>eg_pre := (eg_pre e)(i \<mapsto> PreRejected RecoveryParentInvalid)\<rparr>, True)
          else (e, recovery_rejected)) is (e, b)
   = (e\<lparr>eg_pre := (\<lambda>i. if i \<in> set is \<and> refused e i then Some (PreRejected RecoveryParentInvalid) else eg_pre e i)\<rparr>,
      b \<or> (\<exists>i \<in> set is. refused e i))"
proof (induction "is" arbitrary: e b)
  case (Cons i "is")
  let ?e = "e\<lparr>eg_pre := (eg_pre e)(i \<mapsto> PreRejected RecoveryParentInvalid)\<rparr>"
  have step: "(case dag_snapshot (eg_dag e) i of
        None \<Rightarrow> (e, b)
      | Some s \<Rightarrow>
          if is_recovery s \<and> eg_pre e i = Some PreAuthorized \<and> \<not> recovery_parents_eligible e i
          then (?e, True) else (e, b)) = (if refused e i then (?e, True) else (e, b))"
    by (cases "dag_snapshot (eg_dag e) i") (simp_all add: refused_def)
  have other: "refused ?e j \<longleftrightarrow> refused e j" if "j \<in> set is" for j
    using Cons.prems that by (intro refused_pre_upd) auto
  have d: "distinct is" using Cons.prems by simp
  show ?case
  proof (cases "refused e i")
    case True
    with Cons.IH [OF d, of ?e True] step other Cons.prems show ?thesis
      by (auto intro!: engine.equality ext)
  next
    case False
    with Cons.IH [OF d, of e b] step show ?thesis by (auto intro!: engine.equality ext)
  qed
qed simp

lemma reject_recoveries_result:
  fixes cr log dag epoch
  defines "e \<equiv> first_run (judged cr log dag epoch)"
  shows "reject_recoveries (dag_ids dag) e =
    (e\<lparr>eg_pre := (\<lambda>i. if refused e i then Some (PreRejected RecoveryParentInvalid) else eg_pre e i)\<rparr>,
     \<exists>i. refused e i)"
proof -
  have "i \<in> set (dag_ids dag)" if "refused e i" for i
    using that by (auto simp: refused_def set_dag_ids e_def judged_fields)
  then show ?thesis
    unfolding reject_recoveries_def by (subst reject_recoveries_fold) (auto intro!: engine.equality ext)
qed

text \<open>The engine phase 3 reads.\<close>

lemma engine_of_facts:
  fixes cr log dag epoch
  defines "j \<equiv> judged cr log dag epoch" and "e \<equiv> engine_of cr log dag epoch"
  shows "eg_dag e = dag" "eg_k e = eg_k j"
    "eg_pre e i = (if (\<exists>s. dag_snapshot dag i = Some s \<and> is_recovery s) \<and> eg_pre j i = Some PreAuthorized
       \<and> \<not> recovery_ok j (live_lineage j) i then Some (PreRejected RecoveryParentInvalid) else eg_pre j i)"
    "live_set e = live_lineage e"
proof -
  let ?f = "first_run j"
  let ?r = "?f\<lparr>eg_pre := (\<lambda>i. if refused ?f i then Some (PreRejected RecoveryParentInvalid) else eg_pre ?f i)\<rparr>"
  have dag: "eg_dag j = dag" by (simp add: j_def judged_fields)
  have e: "e = (if \<exists>i. refused ?f i then live_fixed_point ?r else ?r)"
  proof -
    have "e = (case reject_recoveries (dag_ids dag) ?f of (e, r) \<Rightarrow> if r then live_fixed_point e else e)"
      unfolding e_def engine_of_def j_def first_run_def Let_def ..
    also have "reject_recoveries (dag_ids dag) ?f = (?r, \<exists>i. refused ?f i)"
      unfolding j_def by (rule reject_recoveries_result)
    finally show ?thesis by (simp only: case_prod_conv)
  qed
  then show "eg_dag e = dag" "eg_k e = eg_k j" by (auto simp: dag)
  have live: "live_set ?f = live_lineage j" unfolding j_def by (rule first_run_lineage)
  have rec: "recovery_parents_eligible ?f i \<longleftrightarrow> recovery_ok j (live_lineage j) i" for i
    by (simp add: recovery_parents_ok live) (simp add: recovery_ok_def)
  from e have pre: "eg_pre e = eg_pre ?r" by simp
  then show "eg_pre e i = (if (\<exists>s. dag_snapshot dag i = Some s \<and> is_recovery s) \<and> eg_pre j i = Some PreAuthorized
       \<and> \<not> recovery_ok j (live_lineage j) i then Some (PreRejected RecoveryParentInvalid) else eg_pre j i)"
    by (simp add: refused_def rec dag)
  have same: "live_lineage e = live_lineage ?r" by (rule lineage_cong) (auto simp: e)
  show "live_set e = live_lineage e"
  proof (cases "\<exists>i. refused ?f i")
    case True
    have "lineage j S i" if "lineage ?r S i" for S i
      using that by (auto simp: lineage_def dag split: if_splits)
    then have "live_lineage ?r \<subseteq> live_lineage j"
      using live_lineage_unfold [of _ ?r] by (intro live_lineage_greatest) blast
    also have "\<dots> = live_set ?r" using live by (simp add: live_set_def)
    finally have "live_lineage ?r \<subseteq> live_set ?r" .
    moreover have "indexed ?r" using judged_fields(2) by (simp add: indexed_def j_def)
    ultimately show ?thesis using live_fixed_point_lineage [of ?r] True e same by simp
  next
    case False
    then have "e = ?f" using e by (auto intro!: engine.equality)
    moreover have "live_lineage ?f = live_lineage j" by (rule lineage_cong) simp_all
    ultimately show ?thesis using live by simp
  qed
qed

end
