(* ===== verification/Wyrd_Eligibility.thy ===== *)
theory Wyrd_Eligibility
  imports Wyrd_Lineage
begin

text \<open>
  The properties of snapshot authorization: which snapshots the classification
  puts in the live view, what that guarantees about their authors and ancestors,
  the recovery parent rule, and the head lists handed to the rest of the system.
\<close>

section \<open>Reading the classification\<close>

lemma fold_fmupd_lookup:
  "fmlookup (fold (\<lambda>i out. fmupd i (f i) out) is m) j = (if j \<in> set is then Some (f j) else fmlookup m j)"
  by (induction "is" arbitrary: m) auto

lemma classify_lookup:
  "fmlookup (classify_at_epoch cr log dag epoch) i =
    (if dag_snapshot dag i = None then None
     else Some (final_class (engine_of cr log dag epoch) (set (dag_heads dag)) i))"
  by (simp add: classify_at_epoch_def Let_def fold_fmupd_lookup set_dag_ids)

definition live_view :: "crypto \<Rightarrow> membership_log \<Rightarrow> snapshot_dag \<Rightarrow> u64 option \<Rightarrow> snapshot_id set" where
  "live_view cr log dag epoch =
    {i. fmlookup (classify_at_epoch cr log dag epoch) i \<in> {Some CEligible, Some CCanonicalHistory}}"

lemma final_class_live:
  assumes "eg_dag e = dag"
  shows "final_class e H i = CEligible \<longleftrightarrow>
      i \<in> live_set e \<and> eg_pre e i = Some PreAuthorized \<and> i \<in> H
      \<and> (\<exists>s. dag_snapshot dag i = Some s \<and> eg_k e = Some (sn_epoch s))"
    and "final_class e H i \<in> {CEligible, CCanonicalHistory} \<longleftrightarrow>
      i \<in> live_set e \<and> eg_pre e i = Some PreAuthorized"
  using assms by (auto simp: final_class_def in_live_set split: option.splits pre.splits live.splits if_splits)

lemma live_view_lineage: "live_view cr log dag epoch = live_lineage (engine_of cr log dag epoch)"
proof (intro set_eqI)
  fix i
  let ?e = "engine_of cr log dag epoch"
  note e = engine_of_facts(1) [of cr log dag epoch] engine_of_facts(4) [of cr log dag epoch]
  have "eg_pre ?e i = Some PreAuthorized \<and> dag_snapshot dag i \<noteq> None" if "i \<in> live_lineage ?e"
    using that by (rule live_lineageD) (simp add: e)
  then show "i \<in> live_view cr log dag epoch \<longleftrightarrow> i \<in> live_lineage ?e"
    using final_class_live(2) [OF e(1), of "set (dag_heads dag)" i]
    by (auto simp: live_view_def classify_lookup e)
qed

lemma eligible_iff:
  "fmlookup (classify_at_epoch cr log dag epoch) i = Some CEligible \<longleftrightarrow>
    i \<in> live_lineage (engine_of cr log dag epoch) \<and> (\<nexists>c. child_in dag c i)
    \<and> (\<exists>s. dag_snapshot dag i = Some s \<and> eg_k (engine_of cr log dag epoch) = Some (sn_epoch s))"
proof -
  let ?e = "engine_of cr log dag epoch"
  note e = engine_of_facts(1) [of cr log dag epoch] engine_of_facts(4) [of cr log dag epoch]
  have "eg_pre ?e i = Some PreAuthorized" if "i \<in> live_lineage ?e" using that by (rule live_lineageD)
  then show ?thesis
    using final_class_live(1) [OF e(1), of "set (dag_heads dag)" i]
    by (auto simp: classify_lookup e set_dag_heads)
qed

section \<open>What authorization means\<close>

definition tip_owners_of :: "crypto \<Rightarrow> membership_log \<Rightarrow> device_id set option" where
  "tip_owners_of cr log =
     Option.bind (log_known_state cr log) (\<lambda>ks. log_owners_of cr log (ks_transition_id ks))"

text \<open>
  A snapshot is authorized when its signature verifies, the transition it is bound
  to is canonical and of its epoch, its author is a member in the state of that
  transition, and a recovery snapshot is authored by the sole current owner.
\<close>

definition authorized :: "crypto \<Rightarrow> membership_log \<Rightarrow> drive_id \<Rightarrow> snapshot \<Rightarrow> bool" where
  "authorized cr log drive s \<longleftrightarrow>
     verify_snapshot cr drive s = Inr ()
     \<and> log_status cr log (sn_membership s) = Some SCanonical
     \<and> (\<exists>t. log_transition log (sn_membership s) = Some t \<and> mt_epoch t = sn_epoch s)
     \<and> (\<exists>st. log_state_of cr log (sn_membership s) = Some st \<and> sn_author s \<in> st_members st)
     \<and> (is_recovery s \<longrightarrow> tip_owners_of cr log = Some {sn_author s})"

lemma preverdict_authorized:
  assumes r: "log_reach cr drive log"
  shows "preverdict cr d log (log_statuses cr log) s (tip_owners_of cr log) = PreAuthorized
    \<longleftrightarrow> authorized cr log d s"
proof (cases "log_transition log (sn_membership s)")
  case None
  then show ?thesis by (auto simp: preverdict_def authorized_def split: sum.splits)
next
  case (Some t)
  then have i: "transition_id_of (cr_derive_key cr) t = sn_membership s"
    using log_reach_inv [OF r] by (auto simp: log_wf_def log_transition_def fmpred_iff)
  have st: "log_status cr log (sn_membership s) = log_statuses cr log (sn_membership s)"
    using Some by (simp add: reads [OF r] log_contains_def log_transition_def log_statuses_def read_value [OF r])
  have own: "(case T of None \<Rightarrow> False | Some owners \<Rightarrow> card owners = 1 \<and> a \<in> owners) \<longleftrightarrow> T = Some {a}" for T a
    by (auto simp: card_1_singleton_iff split: option.splits)
  show ?thesis
    unfolding preverdict_def authorized_def own Let_def i st
    using Some by (auto simp: i log_members_of_def split: sum.splits option.splits transition_status.splits if_splits)
qed

lemma judged_pre:
  assumes "log_reach cr drive log" "dag_snapshot dag i = Some s"
  shows "eg_pre (judged cr log dag epoch) i = Some PreAuthorized \<longleftrightarrow> authorized cr log (dg_drive dag) s"
  using preverdict_authorized [OF assms(1)] assms(2)
  by (simp add: judged_fields tip_owners_of_def)

lemma engine_pre:
  assumes "log_reach cr drive log" "dag_snapshot dag i = Some s"
    "eg_pre (engine_of cr log dag epoch) i = Some PreAuthorized"
  shows "authorized cr log (dg_drive dag) s"
  using assms(3) judged_pre [OF assms(1,2), of epoch]
  by (simp add: engine_of_facts(3) split: if_splits)

lemma map_filter_total: "(\<And>x. x \<in> set xs \<Longrightarrow> f x \<noteq> None) \<Longrightarrow> map Some (List.map_filter f xs) = map f xs"
  by (induction xs) (auto simp: map_filter_simps split: option.splits)

lemma distinct_map_filter: "distinct (map f xs) \<Longrightarrow> distinct (map f (filter P xs))"
  by (induction xs) auto

section \<open>A sample DAG\<close>

text \<open>
  Over the sample log: a snapshot bound to the genesis, one of the current epoch on
  top of it, and variants that carry the recovery flag.
\<close>

definition sample_snapshot :: "snapshot_id list \<Rightarrow> nat \<Rightarrow> u64 \<Rightarrow> u8 \<Rightarrow> snapshot" where
  "sample_snapshot ps m e flags =
    \<lparr>sn_parents = ps, sn_tree = Ident 0, sn_author = Ident 1, sn_membership = Ident (word_of_nat m),
     sn_epoch = e, sn_flags = flags, sn_timestamp = 0, sn_signature = 0\<rparr>"

definition sample_dag :: "(snapshot_id \<times> snapshot) list \<Rightarrow> snapshot_dag" where
  "sample_dag xs = \<lparr>dg_drive = Ident 9, dg_snapshots = fmap_of_list xs\<rparr>"

lemma sample_dag_snapshot [simp]: "dag_snapshot (sample_dag xs) i = map_of xs i"
  by (simp add: sample_dag_def dag_snapshot_def fmlookup_of_list)

lemma sample_known:
  "log_known_state sample_cr sample_log =
    Some \<lparr>ks_epoch = 2, ks_transition_id = Ident 242, ks_members_root = 0, ks_owners_root = 0, ks_readers_root = 0\<rparr>"
  by (simp add: reads [OF sample_reach] sample_canonical chain_tip_def sample_transition sample_step_def)

lemma sample_states:
  "i \<in> {Ident 311, Ident 242} \<Longrightarrow> log_state_of sample_cr sample_log i = Some sample_state"
  "i \<in> {Ident 311, Ident 242} \<Longrightarrow> log_status sample_cr sample_log i = Some SCanonical"
proof -
  assume i: "i \<in> {Ident 311, Ident 242}"
  then have st: "an_status (served sample_cr sample_log) i = Some SCanonical"
    using analysis_okD(2) [OF served_ok(2) [OF sample_reach], of i] by (auto simp: sample_canonical)
  then show "log_state_of sample_cr sample_log i = Some sample_state"
    using analysis_okD(4) [OF served_ok(2) [OF sample_reach], of i] i
    by (auto simp: reads [OF sample_reach] state_for_def sample_links)
  from st i show "log_status sample_cr sample_log i = Some SCanonical"
    by (auto simp: reads [OF sample_reach] log_contains_def log_transition_def [symmetric] sample_transition)
qed

lemma sample_verify: "verify_snapshot sample_cr d s = Inr ()"
  by (simp add: verify_snapshot_def sample_cr_def Let_def)

lemma sample_authorized:
  "authorized sample_cr sample_log d (sample_snapshot ps 311 1 0)"
  "authorized sample_cr sample_log d (sample_snapshot ps 242 2 flags)"
  by (simp_all add: authorized_def sample_snapshot_def sample_states sample_transition sample_fields
      sample_verify is_recovery_def tip_owners_of_def sample_known log_owners_of_def)
    (simp_all add: sample_state_def)

definition two_dag :: snapshot_dag where
  "two_dag = sample_dag [(Ident 1, sample_snapshot [] 311 1 0), (Ident 2, sample_snapshot [Ident 1] 242 2 0)]"

lemma two_dag_eligible:
  "fmlookup (classify_at_epoch sample_cr sample_log two_dag None) (Ident 2) = Some CEligible"
proof -
  let ?e = "engine_of sample_cr sample_log two_dag None"
  have k: "eg_k ?e = Some 2" by (simp add: engine_of_facts(2) judged_fields sample_known)
  have pre: "eg_pre ?e i = Some PreAuthorized" if "i \<in> {Ident 1, Ident 2}" for i
    using that judged_pre [OF sample_reach, of two_dag "Ident 1" _ None]
      judged_pre [OF sample_reach, of two_dag "Ident 2" _ None]
    by (auto simp: engine_of_facts(3) two_dag_def sample_authorized)
      (auto simp: is_recovery_def sample_snapshot_def)
  have child: "child_in two_dag c p \<longleftrightarrow> c = Ident 2 \<and> p = Ident 1" for c p
    by (auto simp: child_in_def two_dag_def sample_snapshot_def split: if_splits)
  have "{Ident 1, Ident 2} \<subseteq> live_lineage ?e"
    by (rule live_lineage_greatest)
      (auto simp: lineage_def pre k engine_of_facts(1) child, auto simp: two_dag_def sample_snapshot_def)
  then show ?thesis
    by (simp add: eligible_iff child k) (simp add: two_dag_def sample_snapshot_def)
qed

section \<open>Properties\<close>

text \<open>
  C1. The live view is the live lineage: the snapshots classified \<open>Eligible\<close> or
  \<open>CanonicalHistory\<close> are exactly the greatest set in which every member is
  authorized, has only members as parents, none of a later epoch than its own, and
  is of the current epoch or has a child in the set.  The two runs of the
  optimistic iteration and the recovery check between them leave nothing else.
\<close>

theorem live_view_greatest_lineage:
  "live_view cr log dag epoch = gfp (\<lambda>S. {i. lineage (engine_of cr log dag epoch) S i})"
  using live_view_lineage by (simp add: live_lineage_def)

text \<open>
  C5. Only authorized work can advance the live view.  A snapshot classified
  \<open>Eligible\<close> is of the current epoch and the parent of nothing observed; it and each
  of its ancestors is observed, authorized (signature, canonical binding, member
  author, owner for recovery) and of no later epoch; and every proper ancestor is
  classified \<open>CanonicalHistory\<close>.
\<close>

theorem eligible_history_authorized:
  assumes "log_reach cr drive log"
    and "fmlookup (classify_at_epoch cr log dag epoch) i = Some CEligible"
    and "(i, a) \<in> {(c, p). child_in dag c p}\<^sup>*"
  shows "\<exists>s k. dag_snapshot dag a = Some s \<and> authorized cr log (dg_drive dag) s
    \<and> eg_k (engine_of cr log dag epoch) = Some k \<and> sn_epoch s \<le> k \<and> (a = i \<longrightarrow> sn_epoch s = k)
    \<and> (\<nexists>c. child_in dag c i)
    \<and> (a \<noteq> i \<longrightarrow> fmlookup (classify_at_epoch cr log dag epoch) a = Some CCanonicalHistory)"
proof -
  let ?e = "engine_of cr log dag epoch"
  have dag: "eg_dag ?e = dag" by (rule engine_of_facts(1))
  from assms(2) obtain si where i: "i \<in> live_lineage ?e" "\<nexists>c. child_in dag c i"
    and si: "dag_snapshot dag i = Some si" "eg_k ?e = Some (sn_epoch si)"
    unfolding eligible_iff by blast
  from assms(3) have "a \<in> live_lineage ?e \<and> (\<exists>s. dag_snapshot dag a = Some s \<and> sn_epoch s \<le> sn_epoch si)"
  proof (induction rule: rtrancl_induct)
    case (step c p)
    then have c: "c \<in> live_lineage ?e" and "child_in dag c p" by auto
    from c step show ?case
      by (elim live_lineageD) (force simp: dag child_in_def)
  qed (use i si in auto)
  then obtain s where s: "a \<in> live_lineage ?e" "dag_snapshot dag a = Some s" "sn_epoch s \<le> sn_epoch si" by blast
  have "eg_pre ?e a = Some PreAuthorized" using s(1) by (rule live_lineageD)
  with engine_pre [OF assms(1) s(2)] have "authorized cr log (dg_drive dag) s" by blast
  moreover have "fmlookup (classify_at_epoch cr log dag epoch) a = Some CCanonicalHistory" if "a \<noteq> i"
  proof -
    from assms(3) that obtain c where "child_in dag c a" by (auto elim: rtranclE)
    then have "fmlookup (classify_at_epoch cr log dag epoch) a \<noteq> Some CEligible" by (auto simp: eligible_iff)
    with s(1) live_view_lineage [of cr log dag epoch] show ?thesis by (auto simp: live_view_def)
  qed
  ultimately show ?thesis using s si i(2) by auto
qed

theorem eligible_history_authorized_witness:
  "fmlookup (classify_at_epoch sample_cr sample_log two_dag None) (Ident 1) = Some CCanonicalHistory"
proof -
  have "child_in two_dag (Ident 2) (Ident 1)" by (simp add: child_in_def two_dag_def sample_snapshot_def)
  then have "(Ident 2, Ident 1) \<in> {(c, p). child_in two_dag c p}\<^sup>*" by blast
  from eligible_history_authorized [OF sample_reach two_dag_eligible this] show ?thesis by auto
qed

text \<open>
  C36. The recovery parent rule, evaluated at the present: an authorized recovery
  snapshot is rejected as soon as one of its parents is not of the current epoch or
  has another observed child, even if it was eligible when it was authored.
\<close>

theorem recovery_rejected_when_parent_moves_on:
  assumes "log_reach cr drive log" "dag_snapshot dag i = Some s" "authorized cr log (dg_drive dag) s"
    and "is_recovery s" "p \<in> set (sn_parents s)" "dag_snapshot dag p = Some ps"
    and "(\<exists>c. c \<noteq> i \<and> child_in dag c p) \<or> map_option ks_epoch (log_known_state cr log) \<noteq> Some (sn_epoch ps)"
  shows "fmlookup (dag_classify cr log dag) i = Some (CRejected RecoveryParentInvalid)"
proof -
  let ?k = "map_option ks_epoch (log_known_state cr log)"
  let ?j = "judged cr log dag ?k"
  have "eg_k ?j = ?k" by (auto simp: judged_fields split: option.splits)
  then have "\<not> recovery_ok ?j (live_lineage ?j) i"
    using assms(2,6,7) by (auto simp: recovery_ok_def judged_fields(1) intro!: bexI [OF _ assms(5)])
  moreover have "eg_pre ?j i = Some PreAuthorized" using judged_pre [OF assms(1,2)] assms(3) by blast
  ultimately have "eg_pre (engine_of cr log dag ?k) i = Some (PreRejected RecoveryParentInvalid)"
    using assms(2,4) by (simp add: engine_of_facts(3))
  then show ?thesis
    using assms(2) by (simp add: dag_classify_def Let_def classify_lookup final_class_def engine_of_facts(1))
qed

definition recovery_dag :: snapshot_dag where
  "recovery_dag = sample_dag [(Ident 1, sample_snapshot [] 242 2 0), (Ident 2, sample_snapshot [Ident 1] 242 2 1),
     (Ident 3, sample_snapshot [Ident 1] 242 2 0)]"

theorem recovery_rejected_when_parent_moves_on_witness:
  "fmlookup (dag_classify sample_cr sample_log recovery_dag) (Ident 2) = Some (CRejected RecoveryParentInvalid)"
proof (rule recovery_rejected_when_parent_moves_on [OF sample_reach])
  have s: "dag_snapshot recovery_dag (Ident 2) = Some (sample_snapshot [Ident 1] 242 2 1)"
    and p: "dag_snapshot recovery_dag (Ident 1) = Some (sample_snapshot [] 242 2 0)"
    by (simp_all add: recovery_dag_def)
  show "dag_snapshot recovery_dag (Ident 2) = Some (sample_snapshot [Ident 1] 242 2 1)" by (rule s)
  show "dag_snapshot recovery_dag (Ident 1) = Some (sample_snapshot [] 242 2 0)" by (rule p)
  have "child_in recovery_dag (Ident 3) (Ident 1)"
    by (simp add: child_in_def recovery_dag_def sample_snapshot_def)
  then have "\<exists>c. c \<noteq> Ident 2 \<and> child_in recovery_dag c (Ident 1)" by (intro exI [of _ "Ident 3"]) simp
  then show "(\<exists>c. c \<noteq> Ident 2 \<and> child_in recovery_dag c (Ident 1))
      \<or> map_option ks_epoch (log_known_state sample_cr sample_log) \<noteq> Some (sn_epoch (sample_snapshot [] 242 2 0))" ..
qed (simp_all add: sample_authorized, simp_all add: sample_snapshot_def is_recovery_def RECOVERY_FLAG_def)

text \<open>
  The head lists are projections of the classification: \<open>eligible_heads\<close> lists
  exactly the snapshots classified \<open>Eligible\<close>, ascending and without repeats, its
  bodies are the observed snapshots of those ids, one for each, and the
  classification covers exactly the observed ids.
\<close>

theorem eligible_heads_projection:
  "eligible_heads cr log dag = filter (\<lambda>i. fmlookup (dag_classify cr log dag) i = Some CEligible) (dag_ids dag)
   \<and> map Some (eligible_head_bodies cr log dag) = map (dag_snapshot dag) (eligible_heads cr log dag)
   \<and> fmdom (dag_classify cr log dag) = fmdom (dg_snapshots dag)"
proof (intro conjI)
  let ?C = "dag_classify cr log dag"
  have lookup: "fmlookup ?C i = None \<longleftrightarrow> dag_snapshot dag i = None" for i
    by (simp add: dag_classify_def Let_def classify_lookup)
  then show "fmdom ?C = fmdom (dg_snapshots dag)"
    unfolding dag_snapshot_def by (metis fmdom_notD fmdom_notI fset_eqI)
  let ?F = "filter (\<lambda>i. fmlookup ?C i = Some CEligible) (dag_ids dag)"
  have "i \<in> set (eligible_heads cr log dag) \<longleftrightarrow> fmlookup ?C i = Some CEligible" for i
    by (force simp: eligible_heads_def eligible_ids_def sorted_list_of_fmap_def fmlookup_dom_iff)
  then have set: "set (eligible_heads cr log dag) = set ?F"
    using lookup by (auto simp: set_dag_ids) (metis not_None_eq)
  have "distinct (map fst (sorted_list_of_fmap ?C))"
    by (simp add: sorted_list_of_fmap_def comp_def sorted_list_of_fset.rep_eq)
  then have "distinct (eligible_heads cr log dag)"
    by (simp add: eligible_heads_def eligible_ids_def distinct_map_filter)
  moreover have "sorted (eligible_heads cr log dag)" by (simp add: eligible_heads_def eligible_ids_def)
  moreover have "sorted ?F" "distinct ?F" by (simp_all add: sorted_wrt_filter)
  ultimately show eq: "eligible_heads cr log dag = ?F" using set by (intro sorted_distinct_set_unique)
  show "map Some (eligible_head_bodies cr log dag) = map (dag_snapshot dag) (eligible_heads cr log dag)"
    unfolding eligible_head_bodies_def eq
    by (rule map_filter_total) (simp add: set_dag_ids)
qed

text \<open>
  A snapshot signed by its author verifies: signing fills in a signature over
  the drive-bound challenge, which does not cover the signature field.  The curve
  library must accept what it signs with the key pair of the author.
\<close>

theorem signed_snapshot_verifies:
  assumes "cr_xonly_from_slice cr (raw (sn_author s))"
    and "\<And>challenge. cr_signature_from_slice cr (cr_sign_schnorr cr sk challenge)"
    and "\<And>challenge. cr_verify_schnorr cr (cr_sign_schnorr cr sk challenge) challenge (raw (sn_author s))"
  shows "verify_snapshot cr drive (sign_snapshot cr s sk drive) = Inr ()"
  using assms
  by (simp add: verify_snapshot_def sign_snapshot_def snapshot_challenge_for_def snapshot_signing_message_def
      snapshot_signing_preimage_def)

theorem signed_snapshot_verifies_witness:
  "verify_snapshot sample_cr (Ident 9) (sign_snapshot sample_cr (sample_snapshot [] 242 2 0) 7 (Ident 9)) = Inr ()"
  by (rule signed_snapshot_verifies) (simp_all add: sample_cr_def)

end
