(* ===== verification/Wyrd_Tree.thy ===== *)
theory Wyrd_Tree
  imports Wyrd_Identity "HOL-Library.Multiset"
begin

text \<open>
  Directory nodes (\<open>crates/wyrd-format/src/tree.rs\<close>): path components, entries, the
  sorting constructor, lookup by binary search, and the canonical payload with
  its decoder.  A \<open>String\<close> is a byte string; that it is UTF-8, which the Rust type
  guarantees, is part of the well-formedness predicates.
\<close>

section \<open>Components\<close>

datatype component = Component (as_str: bytes)

datatype component_error = CEmpty | CDot | CDotDot | CSeparator | CNullByte

text \<open>The derived \<open>Ord\<close> of \<open>Component\<close>: the bytewise order of the string.\<close>

instantiation component :: linorder
begin

definition less_component :: "component \<Rightarrow> component \<Rightarrow> bool" where
  "less_component a b \<longleftrightarrow> as_str a < as_str b"

definition less_eq_component :: "component \<Rightarrow> component \<Rightarrow> bool" where
  "less_eq_component a b \<longleftrightarrow> as_str a \<le> as_str b"

instance
  by standard (auto simp: less_component_def less_eq_component_def component.expand)

end

definition component_new :: "bytes \<Rightarrow> component_error + component" where
  "component_new name =
    (if name = [] then Inl CEmpty
     else if name = ascii ''.'' then Inl CDot
     else if name = ascii ''..'' then Inl CDotDot
     else if 0x2F \<in> set name then Inl CSeparator
     else if 0x00 \<in> set name then Inl CNullByte
     else Inr (Component name))"

section \<open>Entries and trees\<close>

datatype entry_content =
    File (ec_size: u64) (ec_executable: bool) (ec_chunks: "content_id list")
  | Dir (ec_subtree: content_id)
  | Symlink (ec_target: bytes)

record tree_entry =
  en_name :: component
  en_content :: entry_content

record tree_node =
  tn_entries :: "tree_entry list"

datatype tree_error =
    TrTruncated
  | TrTrailingBytes
  | TrUnsorted
  | UnknownEntryKind u8
  | InvalidExecByte u8
  | InvalidComponent component_error
  | TrInvalidUtf8
  | DuplicateComponent bytes
  | TrCountOverflow nat

definition entry_file :: "bytes \<Rightarrow> u64 \<Rightarrow> bool \<Rightarrow> content_id list \<Rightarrow> component_error + tree_entry" where
  "entry_file name sz executable chunks =
     result_bind (component_new name) (\<lambda>c.
       Inr \<lparr>en_name = c, en_content = File sz executable chunks\<rparr>)"

definition entry_dir :: "bytes \<Rightarrow> content_id \<Rightarrow> component_error + tree_entry" where
  "entry_dir name subtree =
     result_bind (component_new name) (\<lambda>c. Inr \<lparr>en_name = c, en_content = Dir subtree\<rparr>)"

definition entry_symlink :: "bytes \<Rightarrow> bytes \<Rightarrow> component_error + tree_entry" where
  "entry_symlink name target =
     result_bind (component_new name) (\<lambda>c. Inr \<lparr>en_name = c, en_content = Symlink target\<rparr>)"

section \<open>Construction\<close>

text \<open>The wire-count loop of \<open>from_entries\<close>, reporting the first offender.\<close>

fun check_entry_counts :: "tree_entry list \<Rightarrow> tree_error + unit" where
  "check_entry_counts [] = Inr ()"
| "check_entry_counts (e # es) =
    (let name_len = length (as_str (en_name e)) in
     if name_len > U32_MAX then Inl (TrCountOverflow name_len)
     else (case en_content e of
         File _ _ chunks \<Rightarrow>
           if length chunks > U32_MAX then Inl (TrCountOverflow (length chunks))
           else check_entry_counts es
       | Symlink target \<Rightarrow>
           if length target > U32_MAX then Inl (TrCountOverflow (length target))
           else check_entry_counts es
       | Dir _ \<Rightarrow> check_entry_counts es))"

text \<open>The \<open>windows(2)\<close> scan for equal neighbours.\<close>

fun adjacent_duplicate :: "tree_entry list \<Rightarrow> component option" where
  "adjacent_duplicate (a # b # es) =
     (if en_name a = en_name b then Some (en_name a) else adjacent_duplicate (b # es))"
| "adjacent_duplicate _ = None"

definition from_entries :: "tree_entry list \<Rightarrow> tree_error + tree_node" where
  "from_entries entries =
    (if length entries > U32_MAX then Inl (TrCountOverflow (length entries))
     else result_bind (check_entry_counts entries) (\<lambda>_.
       let entries = sort_key en_name entries in
       case adjacent_duplicate entries of
         Some name \<Rightarrow> Inl (DuplicateComponent (as_str name))
       | None \<Rightarrow> Inr \<lparr>tn_entries = entries\<rparr>))"

definition tree_empty :: tree_node where
  "tree_empty = \<lparr>tn_entries = []\<rparr>"

section \<open>Lookup\<close>

text \<open>
  \<open>slice::binary_search_by\<close> as the standard library implements it: the window
  \<open>[base, base + size)\<close> is halved, keeping the upper half unless its first element
  compares greater, and the one remaining element is compared for equality.
\<close>

function bsearch_base :: "(nat \<Rightarrow> bool) \<Rightarrow> nat \<Rightarrow> nat \<Rightarrow> nat" where
  "bsearch_base gt base sz =
    (if sz \<le> 1 then base
     else let half = sz div 2; mid = base + half in
       bsearch_base gt (if gt mid then base else mid) (sz - half))"
  by pat_completeness auto
termination
  by (relation "measure (\<lambda>(_, _, sz). sz)") auto

declare bsearch_base.simps [simp del]

definition binary_search :: "component list \<Rightarrow> component \<Rightarrow> nat option" where
  "binary_search names name =
    (if names = [] then None
     else let base = bsearch_base (\<lambda>i. names ! i > name) 0 (length names) in
       if names ! base = name then Some base else None)"

definition tree_get :: "tree_node \<Rightarrow> component \<Rightarrow> tree_entry option" where
  "tree_get t name =
     map_option (\<lambda>index. tn_entries t ! index) (binary_search (map en_name (tn_entries t)) name)"

section \<open>Encoding\<close>

fun entry_kind :: "entry_content \<Rightarrow> u8" where
  "entry_kind (File _ _ _) = 0x00"
| "entry_kind (Dir _) = 0x01"
| "entry_kind (Symlink _) = 0x02"

fun entry_body :: "entry_content \<Rightarrow> bytes" where
  "entry_body (File sz executable chunks) =
     u64_bytes sz @ [if executable then 1 else 0] @ u32_le (length chunks) @ ids_bytes chunks"
| "entry_body (Dir subtree) = as_bytes subtree"
| "entry_body (Symlink target) = u32_le (length target) @ target"

definition entry_bytes :: "tree_entry \<Rightarrow> bytes" where
  "entry_bytes e =
     [entry_kind (en_content e)]
     @ u32_le (length (as_str (en_name e))) @ as_str (en_name e) @ entry_body (en_content e)"

definition tree_encode :: "tree_node \<Rightarrow> bytes" where
  "tree_encode t = u32_le (length (tn_entries t)) @ concat (map entry_bytes (tn_entries t))"

definition tree_content_id :: "kdf \<Rightarrow> tree_node \<Rightarrow> content_id" where
  "tree_content_id dk t = content_derive dk Tree (tree_encode t)"

section \<open>Decoding\<close>

definition parse_text :: "bytes \<Rightarrow> nat \<Rightarrow> tree_error + bytes \<times> nat" where
  "parse_text payload pos =
    (let len = length payload in
     result_bind (need TrTruncated len pos 4) (\<lambda>_.
     let text_len = read_count payload pos; pos = pos + 4 in
     result_bind (need TrTruncated len pos text_len) (\<lambda>_.
     let text = subslice payload pos text_len in
     result_bind (ensure (utf8_valid text) TrInvalidUtf8) (\<lambda>_.
       Inr (text, pos + text_len)))))"

text \<open>The order check against the last entry pushed.\<close>

definition check_order :: "component option \<Rightarrow> component \<Rightarrow> tree_error + unit" where
  "check_order prev name =
    (case prev of
       None \<Rightarrow> Inr ()
     | Some p \<Rightarrow> if name = p then Inl (DuplicateComponent (as_str name))
               else if name < p then Inl TrUnsorted
               else Inr ())"

definition parse_content :: "u8 \<Rightarrow> bytes \<Rightarrow> nat \<Rightarrow> tree_error + entry_content \<times> nat" where
  "parse_content kind payload pos =
    (let len = length payload in
     if kind = 0x00 then
       result_bind (need TrTruncated len pos 13) (\<lambda>_.
       let sz = u64_of (subslice payload pos 8); pos = pos + 8 in
       result_bind
         (if payload ! pos = 0 then Inr False else if payload ! pos = 1 then Inr True
          else Inl (InvalidExecByte (payload ! pos))) (\<lambda>executable.
       let pos = pos + 1;
           chunk_count = read_count payload pos;
           pos = pos + 4;
           chunk_bytes = chunk_count * ID_LEN in
       result_bind (need TrTruncated len pos chunk_bytes) (\<lambda>_.
         Inr (File sz executable (ids_of (subslice payload pos chunk_bytes)), pos + chunk_bytes))))
     else if kind = 0x01 then
       result_bind (need TrTruncated len pos ID_LEN) (\<lambda>_.
         Inr (Dir (from_bytes (subslice payload pos ID_LEN)), pos + ID_LEN))
     else if kind = 0x02 then
       result_bind (parse_text payload pos) (\<lambda>(target, pos). Inr (Symlink target, pos))
     else Inl (UnknownEntryKind kind))"

definition parse_entry ::
  "component option \<Rightarrow> bytes \<Rightarrow> nat \<Rightarrow> tree_error + tree_entry \<times> nat" where
  "parse_entry prev payload pos =
    result_bind (need TrTruncated (length payload) pos 1) (\<lambda>_.
    let kind = payload ! pos; pos = pos + 1 in
    result_bind (parse_text payload pos) (\<lambda>(name, pos).
    result_bind (map_err InvalidComponent (component_new name)) (\<lambda>name.
    result_bind (check_order prev name) (\<lambda>_.
    result_bind (parse_content kind payload pos) (\<lambda>(content, pos).
      Inr (\<lparr>en_name = name, en_content = content\<rparr>, pos))))))"

fun parse_entries ::
  "component option \<Rightarrow> bytes \<Rightarrow> nat \<Rightarrow> nat \<Rightarrow> tree_error + tree_entry list \<times> nat" where
  "parse_entries prev payload 0 pos = Inr ([], pos)"
| "parse_entries prev payload (Suc n) pos =
     result_bind (parse_entry prev payload pos) (\<lambda>(e, pos).
       result_bind (parse_entries (Some (en_name e)) payload n pos) (\<lambda>(es, pos).
         Inr (e # es, pos)))"

definition tree_decode :: "bytes \<Rightarrow> tree_error + tree_node" where
  "tree_decode payload =
    (let len = length payload in
     result_bind (need TrTruncated len 0 4) (\<lambda>_.
     let count = read_count payload 0 in
     result_bind (parse_entries None payload count 4) (\<lambda>(entries, pos).
     if pos \<noteq> len then Inl TrTrailingBytes
     else Inr \<lparr>tn_entries = entries\<rparr>)))"

section \<open>Well-formed trees\<close>

fun content_valid :: "entry_content \<Rightarrow> bool" where
  "content_valid (File _ _ chunks) = (length chunks \<le> U32_MAX)"
| "content_valid (Dir _) = True"
| "content_valid (Symlink target) = (length target \<le> U32_MAX \<and> utf8_valid target)"

definition component_valid :: "component \<Rightarrow> bool" where
  "component_valid c \<longleftrightarrow>
     utf8_valid (as_str c) \<and> length (as_str c) \<le> U32_MAX \<and> component_new (as_str c) = Inr c"

definition entry_valid :: "tree_entry \<Rightarrow> bool" where
  "entry_valid e \<longleftrightarrow> component_valid (en_name e) \<and> content_valid (en_content e)"

definition tree_valid :: "tree_node \<Rightarrow> bool" where
  "tree_valid t \<longleftrightarrow>
     length (tn_entries t) \<le> U32_MAX \<and> (\<forall>e \<in> set (tn_entries t). entry_valid e)
     \<and> sorted_wrt (<) (map en_name (tn_entries t))"

lemma component_new_Inr: "component_new name = Inr c \<Longrightarrow> c = Component name"
  by (auto simp: component_new_def split: if_splits)

section \<open>The codec laws\<close>

definition text_bytes :: "bytes \<Rightarrow> bytes" where
  "text_bytes s = u32_le (length s) @ s"

interpretation text_item: wire_item text_bytes parse_text "\<lambda>s. length s \<le> U32_MAX \<and> utf8_valid s"
proof (unfold_locales, goal_cases)
  case (1 x pre pos post)
  then show ?case
    by (simp add: parse_text_def text_bytes_def Let_def need_def wire_simps count_simps)
next
  case (2 payload pos x pos')
  let ?n = "read_count payload pos"
  from 2 have len: "pos + 4 + ?n \<le> length payload" and pos': "pos' = pos + 4 + ?n"
    and x: "x = subslice payload (pos + 4) ?n" and utf8: "utf8_valid x"
    by (auto simp: parse_text_def Let_def result_simps)
  have n: "length x = ?n" using len by (simp add: x length_slice)
  have enc: "text_bytes x = subslice payload pos (4 + ?n)"
    using len by (simp add: text_bytes_def n u32_le_read_count slice_split) (simp add: x)
  moreover have "length (text_bytes x) = 4 + ?n"
    using enc len by (simp add: length_slice)
  ultimately show ?case
    using len pos' n utf8 read_count_bound [of payload pos] by simp
qed

lemma parse_content_file:
  assumes "length chunks \<le> U32_MAX" "length pre = pos"
  shows "parse_content 0 (pre @ entry_body (File sz ex chunks) @ post) pos
    = Inr (File sz ex chunks, pos + length (entry_body (File sz ex chunks)))"
proof -
  let ?p = "pre @ entry_body (File sz ex chunks) @ post"
  have "?p ! (pos + 8) = (if ex then 1 else 0)"
    using assms(2) by (simp add: nth_append)
  with assms show ?thesis
    by (simp add: parse_content_def Let_def need_def wire_simps count_simps ID_LEN_def)
qed

lemma parse_content_enc:
  assumes "content_valid c" "length pre = pos"
  shows "parse_content (entry_kind c) (pre @ entry_body c @ post) pos
    = Inr (c, pos + length (entry_body c))"
proof (cases c)
  case (File sz ex chunks)
  with assms parse_content_file show ?thesis by simp
next
  case (Dir subtree)
  with assms show ?thesis
    by (simp add: parse_content_def Let_def need_def wire_simps ID_LEN_def)
next
  case (Symlink target)
  with assms text_item.parse_enc [of target pre pos post] show ?thesis
    by (simp add: parse_content_def text_bytes_def)
qed

lemma parse_content_sound:
  assumes "parse_content kind payload pos = Inr (c, pos')"
  shows "content_valid c \<and> kind = entry_kind c \<and> pos' = pos + length (entry_body c)
    \<and> pos' \<le> length payload \<and> subslice payload pos (length (entry_body c)) = entry_body c"
proof (cases "kind = 0")
  case True
  let ?n = "read_count payload (pos + 9)"
  from assms True obtain ex where len: "pos + 13 + ?n * 32 \<le> length payload"
    and pos': "pos' = pos + 13 + ?n * 32" and ex: "(if ex then 1 else 0) = payload ! (pos + 8)"
    and c: "c = File (u64_of (subslice payload pos 8)) ex (ids_of (subslice payload (pos + 13) (?n * 32)))"
    by (auto simp: parse_content_def Let_def result_simps ID_LEN_def add.commute [of 9 pos]
        add.commute [of 13 pos] split: if_splits)
  have ids: "length (ids_of (subslice payload (pos + 13) (?n * 32)) :: content_id list) = ?n"
    "ids_bytes (ids_of (subslice payload (pos + 13) (?n * 32)) :: content_id list)
      = subslice payload (pos + 13) (?n * 32)"
    using len by (simp_all add: length_ids_of ids_bytes_ids_of length_slice)
  have body: "entry_body c = subslice payload pos (13 + ?n * 32)"
    using len
    by (simp add: c ids ex bytes_of_field length_slice u32_le_read_count slice_join slice_cons_join)
  moreover have "length (entry_body c) = 13 + ?n * 32"
    using body len by (simp add: length_slice)
  ultimately show ?thesis
    using len pos' True ids read_count_bound [of payload "pos + 9"] by (simp add: c)
next
  case False
  with assms show ?thesis
    by (auto simp: parse_content_def Let_def result_simps ID_LEN_def as_from_bytes length_slice
        text_bytes_def dest!: text_item.parse_sound split: if_splits)
qed

lemma entry_bytes_parts:
  "entry_bytes e = [entry_kind (en_content e)] @ text_bytes (as_str (en_name e)) @ entry_body (en_content e)"
  by (simp add: entry_bytes_def text_bytes_def)

interpretation entry_item: wire_item entry_bytes "parse_entry None" entry_valid
proof (unfold_locales, goal_cases)
  case (1 e pre pos post)
  let ?k = "entry_kind (en_content e)" and ?t = "text_bytes (as_str (en_name e))"
    and ?b = "entry_body (en_content e)"
  have valid: "length (as_str (en_name e)) \<le> U32_MAX \<and> utf8_valid (as_str (en_name e))"
    "component_new (as_str (en_name e)) = Inr (en_name e)" "content_valid (en_content e)"
    using 1 by (auto simp: entry_valid_def component_valid_def)
  let ?p = "pre @ [?k] @ ?t @ ?b @ post"
  have "?p ! pos = ?k" using 1 by (simp add: nth_append)
  moreover have "parse_text ?p (pos + 1) = Inr (as_str (en_name e), pos + 1 + length ?t)"
    using text_item.parse_enc [OF valid(1), of "pre @ [?k]" "pos + 1" "?b @ post"] 1 by simp
  moreover have "parse_content ?k ?p (pos + 1 + length ?t)
      = Inr (en_content e, pos + 1 + length ?t + length ?b)"
    using parse_content_enc [OF valid(3), of "pre @ [?k] @ ?t" "pos + 1 + length ?t" post] 1 by simp
  ultimately show ?case
    using valid 1 by (simp add: parse_entry_def entry_bytes_parts check_order_def need_def)
next
  case (2 payload pos e pos')
  then obtain p1 n where
    one: "pos + 1 \<le> length payload" and
    raw: "parse_text payload (pos + 1) = Inr (n, p1)" "component_new n = Inr (en_name e)" and
    content: "parse_content (payload ! pos) payload p1 = Inr (en_content e, pos')"
    by (auto simp: parse_entry_def result_simps)
  have name: "parse_text payload (pos + 1) = Inr (as_str (en_name e), p1)"
    and new: "component_new (as_str (en_name e)) = Inr (en_name e)"
    using raw component_new_Inr [OF raw(2)] by simp_all
  let ?t = "text_bytes (as_str (en_name e))" and ?b = "entry_body (en_content e)"
  have "subslice payload pos (1 + (length ?t + length ?b)) = entry_bytes e"
    using one text_item.parse_sound [OF name] parse_content_sound [OF content]
    by (simp only: slice_split entry_bytes_parts slice_nth)
  then show ?case
    using text_item.parse_sound [OF name] parse_content_sound [OF content] new
    by (simp add: entry_valid_def component_valid_def entry_bytes_parts)
qed

lemma check_order_Inr [result_simps]:
  "check_order prev name = Inr u \<longleftrightarrow> (\<forall>p. prev = Some p \<longrightarrow> p < name)"
  by (cases prev) (auto simp: check_order_def)

lemma parse_entry_order:
  "parse_entry prev payload pos = Inr (e, pos') \<longleftrightarrow>
     parse_entry None payload pos = Inr (e, pos') \<and> (\<forall>p. prev = Some p \<longrightarrow> p < en_name e)"
  by (auto simp: parse_entry_def result_simps)

lemma parse_entries_iff:
  "parse_entries prev payload n pos = Inr (es, pos') \<longleftrightarrow>
     parse_many (parse_entry None) payload n pos = Inr (es, pos')
     \<and> sorted_wrt (<) (map en_name es) \<and> (\<forall>p. prev = Some p \<longrightarrow> (\<forall>e \<in> set es. p < en_name e))"
proof (induction n arbitrary: prev pos es)
  case 0
  then show ?case by auto
next
  case (Suc n)
  have "parse_entries prev payload (Suc n) pos = Inr (es, pos') \<longleftrightarrow>
    (\<exists>e ys p1. parse_entry prev payload pos = Inr (e, p1) \<and> es = e # ys \<and>
      parse_entries (Some (en_name e)) payload n p1 = Inr (ys, pos'))"
    by (auto simp: result_simps)
  also have "\<dots> \<longleftrightarrow> (\<exists>e ys p1. parse_entry None payload pos = Inr (e, p1) \<and> es = e # ys \<and>
      parse_many (parse_entry None) payload n p1 = Inr (ys, pos') \<and> sorted_wrt (<) (map en_name es)
      \<and> (\<forall>p. prev = Some p \<longrightarrow> (\<forall>e \<in> set es. p < en_name e)))"
    unfolding Suc.IH by (subst parse_entry_order) (fastforce intro: less_trans)
  finally show ?case by (auto simp: result_simps)
qed

lemma tree_decode_encode:
  assumes "tree_valid t"
  shows "tree_decode (tree_encode t) = Inr t"
proof -
  let ?n = "u32_le (length (tn_entries t))"
  have valid: "length (tn_entries t) \<le> U32_MAX" "\<And>e. e \<in> set (tn_entries t) \<Longrightarrow> entry_valid e"
    "sorted_wrt (<) (map en_name (tn_entries t))"
    using assms by (auto simp: tree_valid_def)
  have "parse_many (parse_entry None) (tree_encode t) (length (tn_entries t)) 4
      = Inr (tn_entries t, length (tree_encode t))"
    using entry_item.parse_many_enc [of "tn_entries t" ?n 4 "[]"] valid
    by (simp add: tree_encode_def length_u32_le)
  then have "parse_entries None (tree_encode t) (length (tn_entries t)) 4
      = Inr (tn_entries t, length (tree_encode t))"
    by (simp add: parse_entries_iff valid)
  moreover have "read_count (tree_encode t) 0 = length (tn_entries t)"
    "4 \<le> length (tree_encode t)"
    using valid(1) by (simp_all add: tree_encode_def count_simps wire_simps)
  ultimately show ?thesis by (simp add: tree_decode_def Let_def need_def)
qed

lemma tree_decode_sound:
  assumes "tree_decode bs = Inr t"
  shows "tree_valid t \<and> tree_encode t = bs"
proof -
  from assms have len: "4 \<le> length bs" and
    "parse_entries None bs (read_count bs 0) 4 = Inr (tn_entries t, length bs)"
    by (auto simp: tree_decode_def Let_def result_simps split: if_splits)
  then have many: "parse_many (parse_entry None) bs (read_count bs 0) 4 = Inr (tn_entries t, length bs)"
    and sorted: "sorted_wrt (<) (map en_name (tn_entries t))"
    by (simp_all add: parse_entries_iff)
  let ?es = "concat (map entry_bytes (tn_entries t))"
  have es: "\<forall>e \<in> set (tn_entries t). entry_valid e" "length (tn_entries t) = read_count bs 0"
    "length bs = 4 + length ?es" "subslice bs 4 (length ?es) = ?es"
    using entry_item.parse_many_sound [OF many len] by auto
  have "tree_encode t = subslice bs 0 4 @ subslice bs 4 (length ?es)"
    using es len by (simp add: tree_encode_def u32_le_read_count)
  also have "\<dots> = bs" by (simp add: slice_join slice_whole es(3))
  finally show ?thesis
    using es sorted read_count_bound [of bs 0] by (simp add: tree_valid_def)
qed

interpretation tree_codec: canonical_codec tree_encode tree_decode tree_valid
  by unfold_locales (simp_all add: tree_decode_encode tree_decode_sound)

section \<open>The constructor\<close>

lemma check_entry_counts_iff:
  "check_entry_counts es = Inr u \<longleftrightarrow>
     (\<forall>e \<in> set es. length (as_str (en_name e)) \<le> U32_MAX \<and>
        (case en_content e of File _ _ cs \<Rightarrow> length cs \<le> U32_MAX
          | Symlink t \<Rightarrow> length t \<le> U32_MAX | Dir _ \<Rightarrow> True))"
  by (induction es) (auto simp: Let_def split: entry_content.splits)

lemma adjacent_duplicate_None:
  "sorted (map en_name es) \<Longrightarrow> adjacent_duplicate es = None \<longleftrightarrow> distinct (map en_name es)"
  by (induction es rule: adjacent_duplicate.induct) (auto simp: le_less)

lemma adjacent_duplicate_Some:
  "adjacent_duplicate es = Some n \<Longrightarrow> \<exists>xs a b ys. es = xs @ a # b # ys \<and> en_name a = n \<and> en_name b = n"
proof (induction es rule: adjacent_duplicate.induct)
  case (1 a b es)
  show ?case
  proof (cases "en_name a = en_name b")
    case True
    with 1 show ?thesis by (intro exI [of _ "[]"]) auto
  next
    case False
    with 1 obtain xs c d ys where "b # es = xs @ c # d # ys" "en_name c = n" "en_name d = n"
      by auto
    then show ?thesis by (intro exI [of _ "a # xs"]) auto
  qed
qed auto

lemma from_entries_Inr_iff:
  "from_entries es = Inr t \<longleftrightarrow>
     length es \<le> U32_MAX \<and> check_entry_counts es = Inr () \<and> distinct (map en_name es)
     \<and> t = \<lparr>tn_entries = sort_key en_name es\<rparr>"
proof -
  have "adjacent_duplicate (sort_key en_name es) = None \<longleftrightarrow> distinct (map en_name es)"
    by (simp add: adjacent_duplicate_None distinct_map)
  then show ?thesis
    by (auto simp: from_entries_def Let_def result_simps split: option.splits)
qed

lemma from_entries_valid:
  assumes "from_entries es = Inr t"
    and "\<forall>e \<in> set es. utf8_valid (as_str (en_name e)) \<and> component_new (as_str (en_name e)) = Inr (en_name e)"
    and "\<forall>e \<in> set es. \<forall>s. en_content e = Symlink s \<longrightarrow> utf8_valid s"
  shows "tree_valid t"
proof -
  from assms(1) have len: "length es \<le> U32_MAX" and counts: "check_entry_counts es = Inr ()"
    and dist: "distinct (map en_name es)" and t: "t = \<lparr>tn_entries = sort_key en_name es\<rparr>"
    by (simp_all add: from_entries_Inr_iff)
  have "content_valid (en_content e)" if "e \<in> set es" for e
    using that counts assms(3) by (cases "en_content e") (fastforce simp: check_entry_counts_iff)+
  then have "\<forall>e \<in> set es. entry_valid e"
    using counts assms(2) by (auto simp: entry_valid_def component_valid_def check_entry_counts_iff)
  moreover have "distinct (map en_name (sort_key en_name es))"
    using dist by (simp add: distinct_map)
  ultimately show ?thesis
    using len by (simp add: tree_valid_def t strict_sorted_iff)
qed

section \<open>Lookup\<close>

text \<open>
  The window invariant of the binary search: when exactly the positions from
  \<open>k\<close> on compare greater and \<open>k - 1\<close> lies in the window, the search ends there.
\<close>

lemma bsearch_base_bounds:
  "0 < sz \<Longrightarrow> base \<le> bsearch_base gt base sz \<and> bsearch_base gt base sz < base + sz"
proof (induction gt base sz rule: bsearch_base.induct)
  case (1 gt base sz)
  show ?case
  proof (cases "sz \<le> 1")
    case True
    with 1 show ?thesis by (simp add: bsearch_base.simps)
  next
    case False
    let ?b = "if gt (base + sz div 2) then base else base + sz div 2"
    have "?b \<le> bsearch_base gt ?b (sz - sz div 2) \<and>
        bsearch_base gt ?b (sz - sz div 2) < ?b + (sz - sz div 2)"
      using False by (intro 1(1)) auto
    with False show ?thesis by (auto simp: bsearch_base.simps [of gt base sz] Let_def split: if_splits)
  qed
qed

lemma bsearch_base_finds:
  "base \<le> k \<Longrightarrow> k < base + sz \<Longrightarrow> (\<And>i. i < base + sz \<Longrightarrow> gt i \<longleftrightarrow> k < i) \<Longrightarrow>
   bsearch_base gt base sz = k"
proof (induction gt base sz rule: bsearch_base.induct)
  case (1 gt base sz)
  show ?case
  proof (cases "sz \<le> 1")
    case True
    with 1 show ?thesis by (simp add: bsearch_base.simps)
  next
    case False
    let ?h = "sz div 2"
    have gt: "gt (base + ?h) \<longleftrightarrow> k < base + ?h" using False 1(4) by simp
    have "bsearch_base gt (if gt (base + ?h) then base else base + ?h) (sz - ?h) = k"
    proof (rule 1(1) [OF False refl refl])
      fix i
      assume "i < (if gt (base + ?h) then base else base + ?h) + (sz - ?h)"
      then show "gt i \<longleftrightarrow> k < i" using False by (intro 1(4)) (auto split: if_splits)
    qed (use False 1(2,3) gt in auto)
    with False show ?thesis by (simp add: bsearch_base.simps [of gt base sz] Let_def)
  qed
qed

lemma binary_search_Some:
  assumes "sorted_wrt (<) names"
  shows "binary_search names name = Some i \<longleftrightarrow> i < length names \<and> names ! i = name"
proof
  assume "binary_search names name = Some i"
  then show "i < length names \<and> names ! i = name"
    using bsearch_base_bounds [of "length names" 0 "\<lambda>i. names ! i > name"]
    by (auto simp: binary_search_def Let_def split: if_splits)
next
  assume i: "i < length names \<and> names ! i = name"
  have "names ! j > name \<longleftrightarrow> i < j" if "j < length names" for j
    using assms i that sorted_wrt_nth_less [OF assms]
    by (metis linorder_neqE_nat less_asym less_irrefl)
  then have "bsearch_base (\<lambda>j. names ! j > name) 0 (length names) = i"
    using i by (intro bsearch_base_finds) auto
  then show "binary_search names name = Some i"
    using i by (auto simp: binary_search_def)
qed

lemma tree_get_Some:
  assumes "sorted_wrt (<) (map en_name (tn_entries t))"
  shows "tree_get t name = Some e \<longleftrightarrow> e \<in> set (tn_entries t) \<and> en_name e = name"
  by (auto simp: tree_get_def binary_search_Some [OF assms] in_set_conv_nth)

lemma find_unique:
  assumes "distinct (map f xs)"
  shows "find (\<lambda>x. f x = k) xs = Some x \<longleftrightarrow> x \<in> set xs \<and> f x = k"
  using assms by (induction xs) auto

lemma tree_get_find:
  assumes "sorted_wrt (<) (map en_name (tn_entries t))"
  shows "tree_get t name = find (\<lambda>e. en_name e = name) (tn_entries t)"
proof -
  have "distinct (map en_name (tn_entries t))"
    using assms by (simp add: strict_sorted_iff)
  then have "tree_get t name = Some e \<longleftrightarrow> find (\<lambda>e. en_name e = name) (tn_entries t) = Some e" for e
    using tree_get_Some [OF assms] find_unique by metis
  then show ?thesis by (metis not_None_eq)
qed

lemma tree_empty_valid: "tree_valid tree_empty"
  by (simp add: tree_empty_def tree_valid_def)

section \<open>Properties\<close>

text \<open>
  Directory nodes have one byte form: a payload decodes to a tree exactly when
  its names are legal components in strictly ascending order, its texts are
  UTF-8, its counts fit the wire, and the payload is its encoding.
\<close>

theorem tree_canonical:
  "tree_decode payload = Inr t \<longleftrightarrow> tree_valid t \<and> payload = tree_encode t"
  by (rule tree_codec.decode_iff)

end
