(* ===== verification/Wyrd_Store.thy ===== *)
theory Wyrd_Store
  imports Wyrd_Snapshot Wyrd_Tree
begin

text \<open>
  The storage seam (\<open>crates/wyrd-format/src/store.rs\<close>): the \<open>ObjectStore\<close> trait as a
  record of operations over an explicit store state, the in-memory store with
  its byte accountant and discard operation, and the lock-wrapped shared store.
  The locale \<open>object_store\<close> states the trait's contract; both stores interpret it.
\<close>

section \<open>The trait\<close>

text \<open>
  A store operation receives the state and returns the result with the new
  state; the read operations take \<open>&self\<close> and only return a result.
\<close>

record ('s, 'e) store_ops =
  os_insert :: "object_kind \<Rightarrow> bytes \<Rightarrow> 's \<Rightarrow> ('e + content_id) \<times> 's"
  os_insert_verified :: "object_kind \<Rightarrow> content_id \<Rightarrow> bytes \<Rightarrow> 's \<Rightarrow> ('e + unit) \<times> 's"
  os_get :: "content_id \<Rightarrow> 's \<Rightarrow> 'e + bytes option"
  os_has :: "content_id \<Rightarrow> 's \<Rightarrow> 'e + bool"

datatype store_failure = Transient | StorageFull | PermissionDenied

text \<open>The \<open>io::ErrorKind\<close> values \<open>of_io\<close> tells apart; every other kind is \<open>IoOther\<close>.\<close>

datatype io_error_kind = IoStorageFull | IoQuotaExceeded | IoPermissionDenied | IoOther

fun failure_of_io :: "io_error_kind \<Rightarrow> store_failure" where
  "failure_of_io IoStorageFull = StorageFull"
| "failure_of_io IoQuotaExceeded = StorageFull"
| "failure_of_io IoPermissionDenied = PermissionDenied"
| "failure_of_io IoOther = Transient"

text \<open>The \<open>StoreError\<close> trait: the two questions asked of an error, and their defaults.\<close>

record 'e store_error =
  se_failure :: "'e \<Rightarrow> store_failure"
  se_is_verification_failure :: "'e \<Rightarrow> bool"

definition default_store_error :: "'e store_error" where
  "default_store_error = \<lparr>se_failure = (\<lambda>_. Transient), se_is_verification_failure = (\<lambda>_. False)\<rparr>"

datatype discard_outcome = Discarded u64 | Absent | NowValid

section \<open>The byte accountant\<close>

definition retained_add :: "u64 \<Rightarrow> u64 \<Rightarrow> u64" where
  "retained_add current n = current + n"

definition retained_subtract :: "u64 \<Rightarrow> u64 \<Rightarrow> u64" where
  "retained_subtract current n = (if n \<le> current then current - n else 0)"

section \<open>The in-memory store\<close>

record memory_store =
  ms_objects :: "(content_id, object_kind \<times> bytes) fmap"
  ms_retained :: "u64 option"

text \<open>The message strings of the error are the two identifiers; the identifiers stand for them.\<close>

datatype memory_store_error = IdentityMismatch content_id content_id

definition retained_bytes :: "memory_store \<Rightarrow> u64" where
  "retained_bytes s = sum_list (map (\<lambda>(_, _, bs). word_of_nat (length bs)) (sorted_list_of_fmap (ms_objects s)))"

definition with_retained :: "u64 \<Rightarrow> memory_store \<Rightarrow> memory_store" where
  "with_retained counter s = s\<lparr>ms_retained := Some (retained_add counter (retained_bytes s))\<rparr>"

definition memory_insert ::
  "kdf \<Rightarrow> object_kind \<Rightarrow> bytes \<Rightarrow> memory_store \<Rightarrow> (memory_store_error + content_id) \<times> memory_store" where
  "memory_insert dk kind data s =
    (let id = content_derive dk kind data;
         fresh = fmlookup (ms_objects s) id = None;
         objects = (if fresh then fmupd id (kind, data) (ms_objects s) else ms_objects s);
         retained = (if fresh then map_option (\<lambda>c. retained_add c (word_of_nat (length data))) (ms_retained s)
                     else ms_retained s) in
     (Inr id, \<lparr>ms_objects = objects, ms_retained = retained\<rparr>))"

definition memory_insert_verified ::
  "kdf \<Rightarrow> object_kind \<Rightarrow> content_id \<Rightarrow> bytes \<Rightarrow> memory_store
    \<Rightarrow> (memory_store_error + unit) \<times> memory_store" where
  "memory_insert_verified dk kind expected data s =
    (let derived = content_derive dk kind data in
     if derived \<noteq> expected then (Inl (IdentityMismatch expected derived), s)
     else (case memory_insert dk kind data s of
         (Inl e, s) \<Rightarrow> (Inl e, s)
       | (Inr _, s) \<Rightarrow> (Inr (), s)))"

definition memory_get :: "content_id \<Rightarrow> memory_store \<Rightarrow> memory_store_error + bytes option" where
  "memory_get cid s = Inr (map_option snd (fmlookup (ms_objects s) cid))"

definition memory_has :: "content_id \<Rightarrow> memory_store \<Rightarrow> memory_store_error + bool" where
  "memory_has cid s = Inr (fmlookup (ms_objects s) cid \<noteq> None)"

definition memory_ops :: "kdf \<Rightarrow> (memory_store, memory_store_error) store_ops" where
  "memory_ops dk = \<lparr>os_insert = memory_insert dk, os_insert_verified = memory_insert_verified dk,
     os_get = memory_get, os_has = memory_has\<rparr>"

definition memory_discard ::
  "content_id \<Rightarrow> memory_store \<Rightarrow> (memory_store_error + discard_outcome) \<times> memory_store" where
  "memory_discard cid s =
    (case fmlookup (ms_objects s) cid of
       Some (_, bs) \<Rightarrow> (Inr (Discarded (word_of_nat (length bs))),
                       s\<lparr>ms_objects := fmdrop cid (ms_objects s)\<rparr>)
     | None \<Rightarrow> (Inr Absent, s))"

section \<open>The shared store\<close>

text \<open>\<open>Arc<RwLock<S>>\<close>: the guarded state and whether a writer panicked while holding the lock.\<close>

record 's shared_store =
  sh_store :: 's
  sh_poisoned :: bool

datatype 'e shared_store_error = StoreFailed 'e | LockPoisoned

definition shared_new :: "'s \<Rightarrow> 's shared_store" where
  "shared_new s = \<lparr>sh_store = s, sh_poisoned = False\<rparr>"

definition shared_insert ::
  "('s, 'e) store_ops \<Rightarrow> object_kind \<Rightarrow> bytes \<Rightarrow> 's shared_store
    \<Rightarrow> ('e shared_store_error + content_id) \<times> 's shared_store" where
  "shared_insert ops kind data sh =
    (if sh_poisoned sh then (Inl LockPoisoned, sh)
     else let (r, s) = os_insert ops kind data (sh_store sh) in
       (map_err StoreFailed r, sh\<lparr>sh_store := s\<rparr>))"

definition shared_insert_verified ::
  "('s, 'e) store_ops \<Rightarrow> object_kind \<Rightarrow> content_id \<Rightarrow> bytes \<Rightarrow> 's shared_store
    \<Rightarrow> ('e shared_store_error + unit) \<times> 's shared_store" where
  "shared_insert_verified ops kind expected data sh =
    (if sh_poisoned sh then (Inl LockPoisoned, sh)
     else let (r, s) = os_insert_verified ops kind expected data (sh_store sh) in
       (map_err StoreFailed r, sh\<lparr>sh_store := s\<rparr>))"

definition shared_get ::
  "('s, 'e) store_ops \<Rightarrow> content_id \<Rightarrow> 's shared_store \<Rightarrow> 'e shared_store_error + bytes option" where
  "shared_get ops cid sh =
    (if sh_poisoned sh then Inl LockPoisoned else map_err StoreFailed (os_get ops cid (sh_store sh)))"

definition shared_has ::
  "('s, 'e) store_ops \<Rightarrow> content_id \<Rightarrow> 's shared_store \<Rightarrow> 'e shared_store_error + bool" where
  "shared_has ops cid sh =
    (if sh_poisoned sh then Inl LockPoisoned else map_err StoreFailed (os_has ops cid (sh_store sh)))"

definition shared_ops :: "('s, 'e) store_ops \<Rightarrow> ('s shared_store, 'e shared_store_error) store_ops" where
  "shared_ops ops = \<lparr>os_insert = shared_insert ops, os_insert_verified = shared_insert_verified ops,
     os_get = shared_get ops, os_has = shared_has ops\<rparr>"

definition shared_error_class :: "'e store_error \<Rightarrow> 'e shared_store_error store_error" where
  "shared_error_class inner =
    \<lparr>se_failure = (\<lambda>e. case e of StoreFailed x \<Rightarrow> se_failure inner x | LockPoisoned \<Rightarrow> Transient),
     se_is_verification_failure =
       (\<lambda>e. case e of StoreFailed x \<Rightarrow> se_is_verification_failure inner x | LockPoisoned \<Rightarrow> False)\<rparr>"

section \<open>Storing formats\<close>

definition tree_insert_into ::
  "('s, 'e) store_ops \<Rightarrow> tree_node \<Rightarrow> 's \<Rightarrow> ('e + content_id) \<times> 's" where
  "tree_insert_into ops t = os_insert ops Tree (tree_encode t)"

definition snapshot_insert_into ::
  "('s, 'e) store_ops \<Rightarrow> snapshot \<Rightarrow> 's \<Rightarrow> ('e + snapshot_id) \<times> 's" where
  "snapshot_insert_into ops sn s =
    (let (r, s) = os_insert ops Snapshot (snapshot_encode sn) s in
     (result_bind r (\<lambda>i. Inr (from_bytes (as_bytes i))), s))"

section \<open>The contract\<close>

text \<open>
  What \<open>ObjectStore\<close> promises, over an abstraction \<open>content\<close> of the state to the
  objects it holds.  \<open>insert\<close> of content already held is a no-op, a failed
  operation changes nothing, \<open>insert_verified\<close> refuses bytes that do not derive
  the expected identifier, and whatever is held hashes back to its address.
\<close>

definition or_insert :: "content_id \<Rightarrow> bytes \<Rightarrow> (content_id \<rightharpoonup> bytes) \<Rightarrow> (content_id \<rightharpoonup> bytes)" where
  "or_insert i d m = (if m i = None then m(i \<mapsto> d) else m)"

lemma or_insert_mono: "m \<subseteq>\<^sub>m or_insert i d m"
  by (auto simp: or_insert_def map_le_def)

lemma or_insert_present: "or_insert i d m i \<noteq> None"
  by (auto simp: or_insert_def)

lemma or_insert_same: "m i = None \<or> m i = Some d \<Longrightarrow> or_insert i d m i = Some d"
  by (auto simp: or_insert_def)

locale object_store =
  fixes ops :: "('s, 'e) store_ops"
    and dk :: kdf
    and content :: "'s \<Rightarrow> content_id \<rightharpoonup> bytes"
    and inv :: "'s \<Rightarrow> bool"
  assumes insert_Inr: "inv s \<Longrightarrow> os_insert ops k d s = (Inr i, s') \<Longrightarrow>
      i = content_derive dk k d \<and> inv s' \<and> content s' = or_insert i d (content s)"
    and insert_Inl: "inv s \<Longrightarrow> os_insert ops k d s = (Inl e, s') \<Longrightarrow> inv s' \<and> content s' = content s"
    and insert_verified_Inr: "inv s \<Longrightarrow> os_insert_verified ops k x d s = (Inr u, s') \<Longrightarrow>
      x = content_derive dk k d \<and> inv s' \<and> content s' = or_insert x d (content s)"
    and insert_verified_Inl: "inv s \<Longrightarrow> os_insert_verified ops k x d s = (Inl e', s') \<Longrightarrow>
      inv s' \<and> content s' = content s"
    and get_Inr: "inv s \<Longrightarrow> os_get ops i s = Inr r \<Longrightarrow> r = content s i"
    and has_Inr: "inv s \<Longrightarrow> os_has ops i s = Inr b \<Longrightarrow> b = (content s i \<noteq> None)"
    and scrub: "inv s \<Longrightarrow> content s i = Some d \<Longrightarrow> \<exists>k. i = content_derive dk k d"
begin

lemma insert_keeps:
  assumes "inv s" "os_insert ops k d s = (r, s')"
  shows "inv s' \<and> content s \<subseteq>\<^sub>m content s'"
proof (cases r)
  case (Inl e)
  with assms insert_Inl [of s k d e s'] show ?thesis by simp
next
  case (Inr i)
  with assms insert_Inr [of s k d i s'] show ?thesis by (simp add: or_insert_mono)
qed

lemma insert_again:
  assumes "inv s" "os_insert ops k d s = (Inr i, s')" "os_insert ops k d s' = (Inr j, s'')"
  shows "j = i \<and> content s'' = content s'"
proof -
  have 1: "i = content_derive dk k d" "inv s'" "content s' = or_insert i d (content s)"
    using insert_Inr [OF assms(1,2)] by simp_all
  then have "content s' i \<noteq> None" by (simp add: or_insert_present)
  with insert_Inr [OF 1(2) assms(3)] 1(1) show ?thesis by (auto simp: or_insert_def)
qed

text \<open>A read after an insert returns the inserted bytes, unless other bytes collide with them.\<close>

lemma get_after_insert:
  assumes "inv s" "os_insert ops k d s = (Inr i, s')" "os_get ops i s' = Inr r"
    and "\<And>k' b. content s (content_derive dk k' b) = Some b \<Longrightarrow>
      content_derive dk k' b = content_derive dk k d \<Longrightarrow> b = d"
  shows "r = Some d"
proof -
  have i: "i = content_derive dk k d" "inv s'" "content s' = or_insert i d (content s)"
    using insert_Inr [OF assms(1,2)] by simp_all
  have "content s i = None \<or> content s i = Some d"
  proof (cases "content s i")
    case (Some b)
    with scrub [OF assms(1)] obtain k' where "i = content_derive dk k' b" by blast
    with Some assms(4) [of k' b] i(1) show ?thesis by simp
  qed simp
  then have "content s' i = Some d" by (simp add: i(3) or_insert_same)
  with get_Inr [OF i(2) assms(3)] show ?thesis by simp
qed

lemma shared_contract: "object_store (shared_ops ops) dk (content \<circ> sh_store) (inv \<circ> sh_store)"
proof (unfold_locales, goal_cases)
  case (1 s k d i s')
  then show ?case
    by (cases "os_insert ops k d (sh_store s)")
      (auto simp: shared_ops_def shared_insert_def result_simps dest: insert_Inr split: if_splits)
next
  case (2 s k d e s')
  then show ?case
    using insert_Inl [of "sh_store s" k d]
    by (cases "os_insert ops k d (sh_store s)")
      (auto simp: shared_ops_def shared_insert_def map_err_def split: if_splits sum.splits)
next
  case (3 s k x d u s')
  then show ?case
    by (cases "os_insert_verified ops k x d (sh_store s)")
      (auto simp: shared_ops_def shared_insert_verified_def result_simps
        dest: insert_verified_Inr split: if_splits)
next
  case (4 s k x d e s')
  then show ?case
    using insert_verified_Inl [of "sh_store s" k x d]
    by (cases "os_insert_verified ops k x d (sh_store s)")
      (auto simp: shared_ops_def shared_insert_verified_def map_err_def split: if_splits sum.splits)
qed (auto simp: shared_ops_def shared_get_def shared_has_def result_simps
    dest: get_Inr has_Inr scrub split: if_splits)

end

definition memory_content :: "memory_store \<Rightarrow> content_id \<rightharpoonup> bytes" where
  "memory_content s i = map_option snd (fmlookup (ms_objects s) i)"

text \<open>The scrub invariant: every object sits under the identifier its kind and bytes derive.\<close>

definition memory_inv :: "kdf \<Rightarrow> memory_store \<Rightarrow> bool" where
  "memory_inv dk s \<longleftrightarrow> fmpred (\<lambda>i (k, d). i = content_derive dk k d) (ms_objects s)"

lemma memory_inv_iff:
  "memory_inv dk s \<longleftrightarrow> (\<forall>i k d. fmlookup (ms_objects s) i = Some (k, d) \<longrightarrow> i = content_derive dk k d)"
  by (auto simp: memory_inv_def fmpred_iff)

lemma memory_content_insert:
  "memory_content (snd (memory_insert dk k d s)) = or_insert (content_derive dk k d) d (memory_content s)"
  by (auto simp: memory_content_def memory_insert_def Let_def or_insert_def fun_eq_iff)

lemma memory_inv_insert: "memory_inv dk s \<Longrightarrow> memory_inv dk (snd (memory_insert dk k d s))"
  by (auto simp: memory_inv_iff memory_insert_def Let_def split: if_splits)

lemma memory_insert_result: "fst (memory_insert dk k d s) = Inr (content_derive dk k d)"
  by (simp add: memory_insert_def Let_def)

interpretation memory: object_store "memory_ops dk" dk memory_content "memory_inv dk" for dk
proof (unfold_locales, goal_cases)
  case (1 s k d i s')
  then show ?case
    using memory_insert_result [of dk k d s] memory_content_insert [of dk k d s]
      memory_inv_insert [of dk s k d]
    by (simp add: memory_ops_def)
next
  case (2 s k d e s')
  then show ?case using memory_insert_result [of dk k d s] by (simp add: memory_ops_def)
next
  case (3 s k x d u s')
  then show ?case
    using memory_insert_result [of dk k d s] memory_content_insert [of dk k d s]
      memory_inv_insert [of dk s k d]
    by (auto simp: memory_ops_def memory_insert_verified_def Let_def split: if_splits prod.splits sum.splits)
next
  case (4 s k x d e s')
  then show ?case
    using memory_insert_result [of dk k d s]
    by (auto simp: memory_ops_def memory_insert_verified_def Let_def split: if_splits prod.splits sum.splits)
qed (auto simp: memory_ops_def memory_get_def memory_has_def memory_content_def memory_inv_iff)

interpretation shared_memory: object_store "shared_ops (memory_ops dk)" dk
  "memory_content \<circ> sh_store" "memory_inv dk \<circ> sh_store" for dk
  by (rule memory.shared_contract)

section \<open>Accounting\<close>

definition object_len :: "(content_id, object_kind \<times> bytes) fmap \<Rightarrow> content_id \<Rightarrow> u64" where
  "object_len m i = word_of_nat (length (snd (the (fmlookup m i))))"

lemma retained_bytes_sum: "retained_bytes s = sum (object_len (ms_objects s)) (fset (fmdom (ms_objects s)))"
proof -
  have "retained_bytes s = sum_list (map (object_len (ms_objects s)) (sorted_list_of_fset (fmdom (ms_objects s))))"
    by (simp add: retained_bytes_def sorted_list_of_fmap_def object_len_def [abs_def] comp_def
        split_beta)
  also have "\<dots> = sum (object_len (ms_objects s)) (fset (fmdom (ms_objects s)))"
    by (simp add: sum_list_distinct_conv_sum_set sorted_list_of_fset.rep_eq)
  finally show ?thesis .
qed

lemma retained_bytes_fmupd:
  assumes "fmlookup (ms_objects s) i = None"
  shows "retained_bytes (s\<lparr>ms_objects := fmupd i (k, d) (ms_objects s)\<rparr>)
    = retained_bytes s + word_of_nat (length d)"
proof -
  let ?m = "ms_objects s"
  have "i \<notin> fset (fmdom ?m)" using assms by (simp add: fmdom_notI)
  moreover have "sum (object_len (fmupd i (k, d) ?m)) (fset (fmdom ?m)) = sum (object_len ?m) (fset (fmdom ?m))"
    using calculation by (intro sum.cong) (auto simp: object_len_def)
  ultimately show ?thesis by (simp add: retained_bytes_sum object_len_def [of "fmupd i (k, d) ?m" i])
qed

lemma retained_bytes_fmdrop:
  assumes "fmlookup (ms_objects s) i = Some (k, d)"
  shows "retained_bytes (s\<lparr>ms_objects := fmdrop i (ms_objects s)\<rparr>) = retained_bytes s - word_of_nat (length d)"
proof -
  let ?m = "ms_objects s"
  have i: "i \<in> fset (fmdom ?m)" using assms by (simp add: fmdomI)
  have "sum (object_len (fmdrop i ?m)) (fset (fmdom ?m) - {i}) = sum (object_len ?m) (fset (fmdom ?m) - {i})"
    by (intro sum.cong) (auto simp: object_len_def)
  moreover have "sum (object_len ?m) (fset (fmdom ?m)) = object_len ?m i + sum (object_len ?m) (fset (fmdom ?m) - {i})"
    using i by (simp add: sum.remove)
  ultimately show ?thesis using assms by (simp add: retained_bytes_sum object_len_def)
qed

text \<open>The counter an accounted store carries is the number of bytes it holds.\<close>

definition accounted :: "memory_store \<Rightarrow> bool" where
  "accounted s \<longleftrightarrow> ms_retained s = Some (retained_bytes s)"

lemma accounted_with_retained: "accounted (with_retained 0 s)"
  by (simp add: accounted_def with_retained_def retained_add_def retained_bytes_def)

lemma retained_bytes_objects [simp]: "retained_bytes (s\<lparr>ms_retained := r\<rparr>) = retained_bytes s"
  by (simp add: retained_bytes_def)

lemma memory_insert_fresh:
  "fmlookup (ms_objects s) (content_derive dk k d) = None \<Longrightarrow>
   snd (memory_insert dk k d s)
     = s\<lparr>ms_objects := fmupd (content_derive dk k d) (k, d) (ms_objects s),
        ms_retained := map_option (\<lambda>c. c + word_of_nat (length d)) (ms_retained s)\<rparr>"
  by (simp add: memory_insert_def Let_def retained_add_def)

lemma memory_insert_held:
  "fmlookup (ms_objects s) (content_derive dk k d) = Some x \<Longrightarrow> snd (memory_insert dk k d s) = s"
  by (simp add: memory_insert_def Let_def)

lemma accounted_insert: "accounted s \<Longrightarrow> accounted (snd (memory_insert dk k d s))"
  using retained_bytes_fmupd [of s "content_derive dk k d" k d]
  by (cases "fmlookup (ms_objects s) (content_derive dk k d)")
    (auto simp: accounted_def memory_insert_fresh memory_insert_held)

end
