(* ===== verification/Wyrd_Mutation.thy ===== *)
theory Wyrd_Mutation
  imports Wyrd_Store
begin

text \<open>
  Copy-on-write tree mutation (\<open>crates/wyrd-format/src/mutation.rs\<close>): path parsing,
  the recursive rebuilds along one path, and the six operations on a root.  Every
  operation takes the store as a record of operations and threads its state; an
  early return keeps the state reached so far.
\<close>

section \<open>Data\<close>

datatype path_error =
    PathEmpty
  | PathEmptyComponent
  | PathTooDeep nat nat
  | PathComponent component_error

definition MAX_PATH_DEPTH :: nat where
  "MAX_PATH_DEPTH = 256"

text \<open>The two messages of \<open>InvalidRename\<close>, with the operands they are built from.\<close>

datatype rename_problem = TrailingSlashNotDir bytes | InsideItself bytes bytes

datatype 'e mutation_error =
    MPath path_error
  | MStore 'e
  | MissingTree content_id
  | MTree tree_error
  | NotADirectory bytes
  | IsDirectory bytes
  | NotFound bytes
  | AlreadyExists bytes
  | DirectoryNotEmpty bytes
  | InvalidRename rename_problem
  | NameMismatch bytes bytes

section \<open>Stateful results\<close>

text \<open>
  A function that takes \<open>&mut S\<close> and returns a \<open>Result\<close>, the \<open>?\<close> operator, a pure
  result, and a function that only reads the store.
\<close>

type_synonym ('s, 'e, 'a) action = "'s \<Rightarrow> ('e + 'a) \<times> 's"

definition act_bind :: "('s, 'e, 'a) action \<Rightarrow> ('a \<Rightarrow> ('s, 'e, 'b) action) \<Rightarrow> ('s, 'e, 'b) action" where
  "act_bind m f s = (case m s of (Inl e, s') \<Rightarrow> (Inl e, s') | (Inr x, s') \<Rightarrow> f x s')"

definition act_result :: "'e + 'a \<Rightarrow> ('s, 'e, 'a) action" where
  "act_result r s = (r, s)"

definition act_read :: "('s \<Rightarrow> 'e + 'a) \<Rightarrow> ('s, 'e, 'a) action" where
  "act_read f s = (f s, s)"

section \<open>Lists\<close>

definition position :: "('a \<Rightarrow> bool) \<Rightarrow> 'a list \<Rightarrow> nat option" where
  "position P xs = (let n = length (takeWhile (\<lambda>x. \<not> P x) xs) in if n < length xs then Some n else None)"

definition remove_at :: "nat \<Rightarrow> 'a list \<Rightarrow> 'a list" where
  "remove_at i xs = take i xs @ drop (Suc i) xs"

fun upsert :: "tree_entry list \<Rightarrow> tree_entry \<Rightarrow> tree_entry list" where
  "upsert [] entry = [entry]"
| "upsert (x # xs) entry = (if en_name x = en_name entry then entry # xs else x # upsert xs entry)"

abbreviation find_entry :: "component \<Rightarrow> tree_entry list \<Rightarrow> tree_entry option" where
  "find_entry name \<equiv> List.find (\<lambda>candidate. en_name candidate = name)"

section \<open>Paths\<close>

definition split_trailing_slash :: "bytes \<Rightarrow> bytes \<times> bool" where
  "split_trailing_slash path =
    (if path \<noteq> [] \<and> last path = 0x2F \<and> butlast path \<noteq> [] \<and> last (butlast path) \<noteq> 0x2F
     then (butlast path, True) else (path, False))"

fun parse_parts :: "component list \<Rightarrow> bytes list \<Rightarrow> path_error + component list" where
  "parse_parts components [] = Inr components"
| "parse_parts components (part # parts) =
    (if part = [] then Inl PathEmptyComponent
     else result_bind (map_err PathComponent (component_new part)) (\<lambda>c.
       let components = components @ [c] in
       if length components > MAX_PATH_DEPTH then Inl (PathTooDeep (length components) MAX_PATH_DEPTH)
       else parse_parts components parts))"

definition parse_path :: "bytes \<Rightarrow> path_error + component list" where
  "parse_path path = (if path = [] then Inl PathEmpty else parse_parts [] (split_on 0x2F path))"

section \<open>Trees in the store\<close>

definition load_tree :: "('s, 'e) store_ops \<Rightarrow> content_id \<Rightarrow> 's \<Rightarrow> 'e mutation_error + tree_node" where
  "load_tree ops i s =
    result_bind (map_err MStore (os_get ops i s)) (\<lambda>found.
    result_bind (ok_or found (MissingTree i)) (\<lambda>bytes.
    map_err MTree (tree_decode bytes)))"

definition is_dir_empty :: "('s, 'e) store_ops \<Rightarrow> content_id \<Rightarrow> 's \<Rightarrow> 'e mutation_error + bool" where
  "is_dir_empty ops subtree s = result_bind (load_tree ops subtree s) (\<lambda>t. Inr (tn_entries t = []))"

text \<open>\<open>insert_into(store).map_err(MutationError::Store)\<close>.\<close>

definition insert_tree :: "('s, 'e) store_ops \<Rightarrow> tree_node \<Rightarrow> ('s, 'e mutation_error, content_id) action" where
  "insert_tree ops t s = (let (r, s) = tree_insert_into ops t s in (map_err MStore r, s))"

text \<open>\<open>Tree::from_entries(entries)?\<close> followed by \<open>insert_into\<close>, the end of every rebuild.\<close>

definition rebuild :: "('s, 'e) store_ops \<Rightarrow> tree_entry list \<Rightarrow> ('s, 'e mutation_error, content_id) action" where
  "rebuild ops entries =
    act_bind (act_result (map_err MTree (from_entries entries))) (\<lambda>rebuilt.
      insert_tree ops rebuilt)"

text \<open>The descent into an existing directory entry, shared by the strict rebuilds.\<close>

definition dir_of :: "component \<Rightarrow> tree_entry option \<Rightarrow> 'e mutation_error + content_id" where
  "dir_of head found =
    (case found of
       None \<Rightarrow> Inl (NotFound (as_str head))
     | Some existing \<Rightarrow> (case en_content existing of
           Dir subtree \<Rightarrow> Inr subtree
         | _ \<Rightarrow> Inl (NotADirectory (as_str head))))"

text \<open>
  The rebuilds split their path at its first component and panic on an empty path;
  \<open>parse_path\<close> never returns one, so the functions have no equation for it.
\<close>

fun put_node ::
  "('s, 'e) store_ops \<Rightarrow> tree_node \<Rightarrow> component list \<Rightarrow> tree_entry \<Rightarrow> bool
    \<Rightarrow> ('s, 'e mutation_error, content_id) action" where
  "put_node ops tree (head # tail) entry create_intermediates =
    (let entries = tn_entries tree in
     if tail = [] then
       if en_name entry \<noteq> head then act_result (Inl (NameMismatch (as_str head) (as_str (en_name entry))))
       else rebuild ops (upsert entries entry)
     else
       act_bind
         (case find_entry head entries of
            Some existing \<Rightarrow> (case en_content existing of
                Dir subtree \<Rightarrow> act_read (load_tree ops subtree)
              | _ \<Rightarrow> act_result (Inl (NotADirectory (as_str head))))
          | None \<Rightarrow> act_result (if create_intermediates then Inr tree_empty else Inl (NotFound (as_str head))))
         (\<lambda>child.
       act_bind (put_node ops child tail entry create_intermediates) (\<lambda>new_subtree.
       rebuild ops (upsert entries \<lparr>en_name = head, en_content = Dir new_subtree\<rparr>))))"

fun remove_node ::
  "('s, 'e) store_ops \<Rightarrow> tree_node \<Rightarrow> component list \<Rightarrow> ('s, 'e mutation_error, content_id) action" where
  "remove_node ops tree (head # tail) =
    (let entries = tn_entries tree in
     act_bind (act_result (ok_or (position (\<lambda>candidate. en_name candidate = head) entries)
         (NotFound (as_str head)))) (\<lambda>index.
     if tail = [] then rebuild ops (remove_at index entries)
     else
       act_bind (act_result (dir_of head (Some (entries ! index)))) (\<lambda>subtree.
       act_bind (act_read (load_tree ops subtree)) (\<lambda>child.
       act_bind (remove_node ops child tail) (\<lambda>new_subtree.
       rebuild ops (entries[index := (entries ! index)\<lparr>en_content := Dir new_subtree\<rparr>]))))))"

fun mkdir_node ::
  "('s, 'e) store_ops \<Rightarrow> tree_node \<Rightarrow> component list \<Rightarrow> ('s, 'e mutation_error, content_id) action" where
  "mkdir_node ops tree (head # tail) =
    (let entries = tn_entries tree in
     if tail = [] then
       if list_ex (\<lambda>candidate. en_name candidate = head) entries
       then act_result (Inl (AlreadyExists (as_str head)))
       else
         act_bind (insert_tree ops tree_empty) (\<lambda>empty.
         rebuild ops (entries @ [\<lparr>en_name = head, en_content = Dir empty\<rparr>]))
     else
       act_bind (act_result (dir_of head (find_entry head entries))) (\<lambda>subtree.
       act_bind (act_read (load_tree ops subtree)) (\<lambda>child.
       act_bind (mkdir_node ops child tail) (\<lambda>new_subtree.
       rebuild ops (upsert entries \<lparr>en_name = head, en_content = Dir new_subtree\<rparr>)))))"

fun rmdir_node ::
  "('s, 'e) store_ops \<Rightarrow> tree_node \<Rightarrow> component list \<Rightarrow> ('s, 'e mutation_error, content_id) action" where
  "rmdir_node ops tree (head # tail) =
    (let entries = tn_entries tree in
     act_bind (act_result (ok_or (position (\<lambda>candidate. en_name candidate = head) entries)
         (NotFound (as_str head)))) (\<lambda>index.
     act_bind (act_result (dir_of head (Some (entries ! index)))) (\<lambda>subtree.
     if tail = [] then
       act_bind (act_read (is_dir_empty ops subtree)) (\<lambda>empty.
       if \<not> empty then act_result (Inl (DirectoryNotEmpty (as_str head)))
       else rebuild ops (remove_at index entries))
     else
       act_bind (act_read (load_tree ops subtree)) (\<lambda>child.
       act_bind (rmdir_node ops child tail) (\<lambda>new_subtree.
       rebuild ops (entries[index := (entries ! index)\<lparr>en_content := Dir new_subtree\<rparr>]))))))"

text \<open>The loop of \<open>resolve_entry\<close>; the last component returns the entry.\<close>

fun resolve_entry ::
  "('s, 'e) store_ops \<Rightarrow> tree_node \<Rightarrow> component list \<Rightarrow> 's \<Rightarrow> 'e mutation_error + tree_entry" where
  "resolve_entry ops current (component # components) s =
    result_bind (ok_or (find_entry component (tn_entries current)) (NotFound (as_str component))) (\<lambda>entry.
     if components = [] then Inr entry
     else (case en_content entry of
         Dir subtree \<Rightarrow>
           result_bind (load_tree ops subtree s) (\<lambda>current. resolve_entry ops current components s)
       | _ \<Rightarrow> Inl (NotADirectory (as_str component))))"

fun rename_insert ::
  "('s, 'e) store_ops \<Rightarrow> tree_node \<Rightarrow> component list \<Rightarrow> tree_entry \<Rightarrow> bool
    \<Rightarrow> ('s, 'e mutation_error, content_id) action" where
  "rename_insert ops tree (head # tail) entry source_is_dir =
    (let entries = tn_entries tree in
     if tail = [] then
       if en_name entry \<noteq> head then act_result (Inl (NameMismatch (as_str head) (as_str (en_name entry))))
       else (case find_entry head entries of
           None \<Rightarrow> rebuild ops (entries @ [entry])
         | Some existing \<Rightarrow> (case en_content existing of
               Dir subtree \<Rightarrow>
                 if \<not> source_is_dir then act_result (Inl (IsDirectory (as_str head)))
                 else act_bind (act_read (is_dir_empty ops subtree)) (\<lambda>empty.
                   if \<not> empty then act_result (Inl (DirectoryNotEmpty (as_str head)))
                   else rebuild ops (upsert entries entry))
             | _ \<Rightarrow>
                 if source_is_dir then act_result (Inl (NotADirectory (as_str head)))
                 else rebuild ops (upsert entries entry)))
     else
       act_bind (act_result (dir_of head (find_entry head entries))) (\<lambda>subtree.
       act_bind (act_read (load_tree ops subtree)) (\<lambda>child.
       act_bind (rename_insert ops child tail entry source_is_dir) (\<lambda>new_subtree.
       rebuild ops (upsert entries \<lparr>en_name = head, en_content = Dir new_subtree\<rparr>)))))"

section \<open>The operations\<close>

definition put_with ::
  "bool \<Rightarrow> ('s, 'e) store_ops \<Rightarrow> content_id \<Rightarrow> bytes \<Rightarrow> tree_entry \<Rightarrow> ('s, 'e mutation_error, content_id) action" where
  "put_with create_intermediates ops root path entry =
    act_bind (act_result (map_err MPath (parse_path path))) (\<lambda>components.
    act_bind (act_read (load_tree ops root)) (\<lambda>tree.
    put_node ops tree components entry create_intermediates))"

definition put ::
  "('s, 'e) store_ops \<Rightarrow> content_id \<Rightarrow> bytes \<Rightarrow> tree_entry \<Rightarrow> ('s, 'e mutation_error, content_id) action" where
  "put = put_with True"

definition put_strict ::
  "('s, 'e) store_ops \<Rightarrow> content_id \<Rightarrow> bytes \<Rightarrow> tree_entry \<Rightarrow> ('s, 'e mutation_error, content_id) action" where
  "put_strict = put_with False"

definition remove ::
  "('s, 'e) store_ops \<Rightarrow> content_id \<Rightarrow> bytes \<Rightarrow> ('s, 'e mutation_error, content_id) action" where
  "remove ops root path =
    act_bind (act_result (map_err MPath (parse_path path))) (\<lambda>components.
    act_bind (act_read (load_tree ops root)) (\<lambda>tree.
    remove_node ops tree components))"

definition mkdir ::
  "('s, 'e) store_ops \<Rightarrow> content_id \<Rightarrow> bytes \<Rightarrow> ('s, 'e mutation_error, content_id) action" where
  "mkdir ops root path =
    act_bind (act_result (map_err MPath (parse_path path))) (\<lambda>components.
    act_bind (act_read (load_tree ops root)) (\<lambda>tree.
    mkdir_node ops tree components))"

definition rmdir ::
  "('s, 'e) store_ops \<Rightarrow> content_id \<Rightarrow> bytes \<Rightarrow> ('s, 'e mutation_error, content_id) action" where
  "rmdir ops root path =
    act_bind (act_result (map_err MPath (parse_path path))) (\<lambda>components.
    act_bind (act_read (load_tree ops root)) (\<lambda>tree.
    rmdir_node ops tree components))"

fun is_dir :: "entry_content \<Rightarrow> bool" where
  "is_dir (Dir _) = True"
| "is_dir _ = False"

definition rename ::
  "('s, 'e) store_ops \<Rightarrow> content_id \<Rightarrow> bytes \<Rightarrow> bytes \<Rightarrow> ('s, 'e mutation_error, content_id) action" where
  "rename ops root from_path to_path =
    (let (from_path, from_slash) = split_trailing_slash from_path;
         (to_path, to_slash) = split_trailing_slash to_path in
     act_bind (act_result (map_err MPath (parse_path from_path))) (\<lambda>from_components.
     act_bind (act_result (map_err MPath (parse_path to_path))) (\<lambda>to_components.
     act_bind (act_read (load_tree ops root)) (\<lambda>tree.
     act_bind (act_read (resolve_entry ops tree from_components)) (\<lambda>source.
     let source_is_dir = is_dir (en_content source) in
     if from_slash \<and> \<not> source_is_dir then act_result (Inl (InvalidRename (TrailingSlashNotDir from_path)))
     else if from_components = to_components then act_result (Inr root)
     else if length to_components > length from_components
         \<and> take (length from_components) to_components = from_components
       then act_result (Inl (InvalidRename (InsideItself to_path from_path)))
     else
       act_bind
         (if to_slash then
            act_bind (act_read (resolve_entry ops tree to_components)) (\<lambda>dest.
            act_result (if is_dir (en_content dest) then Inr ()
                        else Inl (NotADirectory (as_str (last to_components)))))
          else act_result (Inr ())) (\<lambda>_.
       let moved = \<lparr>en_name = last to_components, en_content = en_content source\<rparr> in
       act_bind (remove_node ops tree from_components) (\<lambda>without_source.
       act_bind (act_read (load_tree ops without_source)) (\<lambda>dest_tree.
       rename_insert ops dest_tree to_components moved source_is_dir))))))))"

end
