(* ===== verification/Wyrd_Drive.thy ===== *)
theory Wyrd_Drive
  imports Wyrd_Mutation
begin

text \<open>
  The namespace a drive serves: the value types of \<open>crates/wyrd-namespace/src/view.rs\<close>
  and the read-only view over a set of heads in \<open>crates/wyrd-fuse/src/view\<close> (merge,
  version grammar, lookup, readdir, open, read and the budgeted child resolution).
\<close>

section \<open>Nodes and errors\<close>

text \<open>The transient fetch status the materialization policy answers with.\<close>

datatype fetch_status = RemoteOnly | Fetching | Available | Unavailable u64 | FetchCorrupt

text \<open>What a path resolves to; a conflict version is a snapshot id with that head's node.\<close>

datatype drive_node =
    FileNode u64 bool "content_id list"
  | DirNode content_id
  | SymlinkNode bytes
  | MergedDir "(snapshot_id \<times> content_id) list"
  | ConflictNode "(snapshot_id \<times> drive_node) list"

datatype node_kind = KFile | KDir | KSymlink | KConflict

record attr =
  at_kind :: node_kind
  at_size :: u64
  at_executable :: bool

record dir_entry =
  de_name :: bytes
  de_node :: drive_node

record lookup_result =
  lr_node :: "drive_node option"
  lr_work :: u64
  lr_limit_exceeded :: bool

record open_file =
  of_chunks :: "content_id list"
  of_size :: u64

definition capture_bytes :: "open_file \<Rightarrow> nat" where
  "capture_bytes f = length (of_chunks f) * 32"

text \<open>The debug text of a store failure is the error it prints.\<close>

datatype 'e view_error =
    VNotFound
  | VInvalidPath
  | VNotADirectory
  | VNotAFile
  | VConflict
  | VNotMaterialized content_id
  | VUnavailable content_id
  | VCorrupt
  | VRejectedRepresentation content_id object_kind
  | VLostRepresentation content_id object_kind
  | VStore store_failure "'e shared_store_error"

section \<open>Merging the heads\<close>

fun all_dirs :: "(snapshot_id \<times> drive_node) list \<Rightarrow> (snapshot_id \<times> content_id) list option" where
  "all_dirs [] = Some []"
| "all_dirs ((snapshot, DirNode subtree) # rest) = map_option (Cons (snapshot, subtree)) (all_dirs rest)"
| "all_dirs ((snapshot, _) # rest) = None"

definition present_in :: "(snapshot_id \<times> drive_node option) list \<Rightarrow> (snapshot_id \<times> drive_node) list" where
  "present_in resolutions = List.map_filter (\<lambda>(snapshot, node). map_option (Pair snapshot) node) resolutions"

definition merge :: "(snapshot_id \<times> drive_node option) list \<Rightarrow> 'e view_error + drive_node" where
  "merge resolutions =
    (let present = present_in resolutions in
     if present = [] then Inl VNotFound
     else if length present = length resolutions \<and> list_all (\<lambda>(_, node). node = snd (hd present)) present
       then Inr (snd (hd present))
     else if length present = length resolutions \<and> all_dirs present \<noteq> None
       then Inr (MergedDir (the (all_dirs present)))
     else Inr (ConflictNode present))"

section \<open>The version grammar\<close>

text \<open>\<open>str::rsplit_once\<close> and \<open>str::parse::<u32>\<close>, which admits one leading plus sign.\<close>

definition rsplit_once :: "u8 \<Rightarrow> bytes \<Rightarrow> (bytes \<times> bytes) option" where
  "rsplit_once c s =
    (if c \<notin> set s then None
     else let suffix = rev (takeWhile (\<lambda>b. b \<noteq> c) (rev s)) in
       Some (take (length s - length suffix - 1) s, suffix))"

definition is_digit :: "u8 \<Rightarrow> bool" where
  "is_digit b \<longleftrightarrow> 0x30 \<le> b \<and> b \<le> 0x39"

definition parse_u32 :: "bytes \<Rightarrow> u32 option" where
  "parse_u32 s =
    (let digits = (case s of b # rest \<Rightarrow> if b = 0x2B \<and> rest \<noteq> [] then rest else s | [] \<Rightarrow> []) in
     if digits = [] \<or> \<not> list_all is_digit digits then None
     else let n = foldl (\<lambda>acc b. acc * 10 + (unat b - 48)) (0 :: nat) digits in
       if n < 2 ^ 32 then Some (word_of_nat n) else None)"

record version_ref =
  vr_index :: nat
  vr_name :: bytes
  vr_version :: u32

definition ref_at :: "nat \<Rightarrow> component \<Rightarrow> version_ref option" where
  "ref_at index c =
    Option.bind (rsplit_once 0x40 (as_str c)) (\<lambda>(name, suffix).
    if name = [] then None
    else Option.bind (parse_u32 suffix) (\<lambda>version.
      if version \<ge> 1 then Some \<lparr>vr_index = index, vr_name = name, vr_version = version\<rparr> else None))"

fun find_map :: "('a \<Rightarrow> 'b option) \<Rightarrow> 'a list \<Rightarrow> 'b option" where
  "find_map f [] = None"
| "find_map f (x # xs) = (case f x of Some y \<Rightarrow> Some y | None \<Rightarrow> find_map f xs)"

definition parse_ref :: "component list \<Rightarrow> version_ref option" where
  "parse_ref components = find_map (\<lambda>(index, c). ref_at index c) (rev (enumerate 0 components))"

definition unversioned_prefix :: "component list \<Rightarrow> version_ref \<Rightarrow> 'e view_error + component list" where
  "unversioned_prefix components target =
    result_bind (map_err (\<lambda>_. VNotFound) (component_new (vr_name target))) (\<lambda>c.
    Inr (take (vr_index target) components @ [c]))"

definition select_version :: "(snapshot_id \<times> drive_node) list \<Rightarrow> u32 \<Rightarrow> (snapshot_id \<times> drive_node) option" where
  "select_version versions version =
    (let sorted = sort_key fst versions; i = unat (version - 1) in
     if i < length sorted then Some (sorted ! i) else None)"

section \<open>The view\<close>

record 's drive_view =
  dv_store :: "'s shared_store"
  dv_materialization :: "content_id \<Rightarrow> fetch_status"
  dv_heads :: "snapshot list"

text \<open>
  What a view is built over: the operations of its store, the classification of the
  store's errors, and the hash.
\<close>

record ('s, 'e) backing =
  bk_ops :: "('s, 'e) store_ops"
  bk_errors :: "'e store_error"
  bk_derive :: kdf

definition drive_shared :: "'s shared_store \<Rightarrow> (content_id \<Rightarrow> fetch_status) \<Rightarrow> snapshot list \<Rightarrow> 's drive_view" where
  "drive_shared store materialization heads =
    \<lparr>dv_store = store, dv_materialization = materialization, dv_heads = heads\<rparr>"

definition drive_new :: "'s \<Rightarrow> (content_id \<Rightarrow> fetch_status) \<Rightarrow> snapshot list \<Rightarrow> 's drive_view" where
  "drive_new store materialization heads = drive_shared (shared_new store) materialization heads"

definition set_heads :: "snapshot list \<Rightarrow> 's drive_view \<Rightarrow> 's drive_view" where
  "set_heads heads v = v\<lparr>dv_heads := heads\<rparr>"

definition set_materialization :: "(content_id \<Rightarrow> fetch_status) \<Rightarrow> 's drive_view \<Rightarrow> 's drive_view" where
  "set_materialization m v = v\<lparr>dv_materialization := m\<rparr>"

definition store_read :: "'s drive_view \<Rightarrow> 'e view_error + 's" where
  "store_read v =
    (if sh_poisoned (dv_store v) then Inl (VStore Transient LockPoisoned) else Inr (sh_store (dv_store v)))"

text \<open>A writer gets the store and gives back what it made of it.\<close>

definition store_write :: "('s \<Rightarrow> 'a \<times> 's) \<Rightarrow> 's drive_view \<Rightarrow> ('e view_error + 'a) \<times> 's drive_view" where
  "store_write f v =
    (if sh_poisoned (dv_store v) then (Inl (VStore Transient LockPoisoned), v)
     else let (x, s) = f (sh_store (dv_store v)) in (Inr x, v\<lparr>dv_store := (dv_store v)\<lparr>sh_store := s\<rparr>\<rparr>))"

definition drive_status :: "'s drive_view \<Rightarrow> content_id \<Rightarrow> fetch_status" where
  "drive_status v i = dv_materialization v i"

definition absent :: "'s drive_view \<Rightarrow> content_id \<Rightarrow> object_kind \<Rightarrow> 'e view_error" where
  "absent v i kind =
    (case dv_materialization v i of
       RemoteOnly \<Rightarrow> VNotMaterialized i
     | Fetching \<Rightarrow> VNotMaterialized i
     | Available \<Rightarrow> VLostRepresentation i kind
     | Unavailable _ \<Rightarrow> VUnavailable i
     | FetchCorrupt \<Rightarrow> VCorrupt)"

text \<open>The match on \<open>get\<close> that the three loaders share.\<close>

definition stored_bytes ::
  "('s, 'e) backing \<Rightarrow> 's drive_view \<Rightarrow> object_kind \<Rightarrow> content_id \<Rightarrow> 'e view_error + bytes" where
  "stored_bytes bk v kind i =
    result_bind (store_read v) (\<lambda>s.
    case os_get (bk_ops bk) i s of
      Inr (Some bytes) \<Rightarrow> Inr bytes
    | Inr None \<Rightarrow> Inl (absent v i kind)
    | Inl e \<Rightarrow>
        if se_is_verification_failure (bk_errors bk) e then Inl (VRejectedRepresentation i kind)
        else Inl (VStore (se_failure (bk_errors bk) e) (StoreFailed e)))"

definition load_chunk :: "('s, 'e) backing \<Rightarrow> 's drive_view \<Rightarrow> content_id \<Rightarrow> 'e view_error + bytes" where
  "load_chunk bk v i = stored_bytes bk v Chunk i"

definition view_load_tree :: "('s, 'e) backing \<Rightarrow> 's drive_view \<Rightarrow> content_id \<Rightarrow> 'e view_error + tree_node" where
  "view_load_tree bk v i =
    result_bind (stored_bytes bk v Tree i) (\<lambda>bytes. map_err (\<lambda>_. VCorrupt) (tree_decode bytes))"

definition u64_or_max :: "nat \<Rightarrow> u64" where
  "u64_or_max n = (if n < 2 ^ 64 then word_of_nat n else - 1)"

definition load_tree_for_resolution ::
  "('s, 'e) backing \<Rightarrow> 's drive_view \<Rightarrow> content_id \<Rightarrow> u64 \<Rightarrow> 'e view_error + tree_node option \<times> u64" where
  "load_tree_for_resolution bk v i max_work =
    result_bind (stored_bytes bk v Tree i) (\<lambda>bytes.
    let work = saturating_add (u64_or_max (length bytes)) 1 in
    if work > max_work then Inr (None, work)
    else result_bind (map_err (\<lambda>_. VCorrupt) (tree_decode bytes)) (\<lambda>tree. Inr (Some tree, work)))"

fun leaf :: "entry_content \<Rightarrow> drive_node" where
  "leaf (File sz executable chunks) = FileNode sz executable chunks"
| "leaf (Dir subtree) = DirNode subtree"
| "leaf (Symlink target) = SymlinkNode target"

section \<open>Paths\<close>

fun collect :: "('a \<Rightarrow> 'e + 'b) \<Rightarrow> 'a list \<Rightarrow> 'e + 'b list" where
  "collect f [] = Inr []"
| "collect f (x # xs) = result_bind (f x) (\<lambda>y. result_bind (collect f xs) (\<lambda>ys. Inr (y # ys)))"

definition strip_slash :: "bytes \<Rightarrow> bytes" where
  "strip_slash path = (case path of b # rest \<Rightarrow> if b = 0x2F then rest else path | [] \<Rightarrow> [])"

definition view_parse_path :: "bytes \<Rightarrow> 'e view_error + component list" where
  "view_parse_path path =
    (let trimmed = strip_slash path in
     if trimmed = [] then Inr []
     else result_bind (map_err (\<lambda>_. VInvalidPath) (collect component_new (split_on 0x2F trimmed))) (\<lambda>components.
       if length components > MAX_PATH_DEPTH then Inl VInvalidPath else Inr components))"

section \<open>Lookup\<close>

fun resolve_one ::
  "('s, 'e) backing \<Rightarrow> 's drive_view \<Rightarrow> content_id \<Rightarrow> component list \<Rightarrow> 'e view_error + drive_node option" where
  "resolve_one bk v tree_id [] = result_bind (view_load_tree bk v tree_id) (\<lambda>_. Inr (Some (DirNode tree_id)))"
| "resolve_one bk v tree_id (first # remaining) =
    result_bind (view_load_tree bk v tree_id) (\<lambda>tree.
    case tree_get tree first of
      None \<Rightarrow> Inr None
    | Some entry \<Rightarrow> (case en_content entry of
        File sz executable chunks \<Rightarrow>
          if remaining = [] then Inr (Some (FileNode sz executable chunks)) else Inl VNotADirectory
      | Symlink target \<Rightarrow> if remaining = [] then Inr (Some (SymlinkNode target)) else Inl VNotADirectory
      | Dir subtree \<Rightarrow>
          if remaining = [] then Inr (Some (DirNode subtree)) else resolve_one bk v subtree remaining))"

definition lookup_literal ::
  "('s, 'e) backing \<Rightarrow> 's drive_view \<Rightarrow> component list \<Rightarrow> 'e view_error + drive_node" where
  "lookup_literal bk v components =
    result_bind (collect (\<lambda>head. result_bind (resolve_one bk v (sn_tree head) components) (\<lambda>node.
      Inr (snapshot_id_of (bk_derive bk) head, node))) (dv_heads v)) merge"

definition lookup_versioned ::
  "('s, 'e) backing \<Rightarrow> 's drive_view \<Rightarrow> component list \<Rightarrow> 'e view_error + drive_node" where
  "lookup_versioned bk v components =
    result_bind (ok_or (parse_ref components) VNotFound) (\<lambda>target.
    result_bind (unversioned_prefix components target) (\<lambda>prefix.
    result_bind (lookup_literal bk v prefix) (\<lambda>node.
    result_bind (case node of ConflictNode versions \<Rightarrow> Inr versions | _ \<Rightarrow> Inl VNotFound) (\<lambda>versions.
    result_bind (ok_or (select_version versions (vr_version target)) VNotFound) (\<lambda>(_, selected).
    let rest = drop (Suc (vr_index target)) components in
    if rest = [] then Inr selected
    else (case selected of
        DirNode subtree \<Rightarrow> result_bind (resolve_one bk v subtree rest) (\<lambda>node. ok_or node VNotFound)
      | _ \<Rightarrow> Inl VNotADirectory))))))"

definition lookup :: "('s, 'e) backing \<Rightarrow> 's drive_view \<Rightarrow> bytes \<Rightarrow> 'e view_error + drive_node" where
  "lookup bk v path =
    result_bind (view_parse_path path) (\<lambda>components.
    if components = [] \<and> dv_heads v = [] then Inr (MergedDir [])
    else (case lookup_literal bk v components of
        Inr node \<Rightarrow> Inr node
      | Inl VNotFound \<Rightarrow> lookup_versioned bk v components
      | Inl e \<Rightarrow> Inl e))"

fun attr_of :: "drive_node \<Rightarrow> attr" where
  "attr_of (FileNode sz executable _) = \<lparr>at_kind = KFile, at_size = sz, at_executable = executable\<rparr>"
| "attr_of (DirNode _) = \<lparr>at_kind = KDir, at_size = 0, at_executable = False\<rparr>"
| "attr_of (MergedDir _) = \<lparr>at_kind = KDir, at_size = 0, at_executable = False\<rparr>"
| "attr_of (SymlinkNode target) =
    \<lparr>at_kind = KSymlink, at_size = word_of_nat (length target), at_executable = False\<rparr>"
| "attr_of (ConflictNode _) = \<lparr>at_kind = KConflict, at_size = 0, at_executable = False\<rparr>"

definition stat :: "('s, 'e) backing \<Rightarrow> 's drive_view \<Rightarrow> bytes \<Rightarrow> 'e view_error + attr" where
  "stat bk v path = result_bind (lookup bk v path) (\<lambda>node. Inr (attr_of node))"

section \<open>Listing\<close>

definition entry_named :: "component \<Rightarrow> tree_node \<Rightarrow> drive_node option" where
  "entry_named name tree = map_option (\<lambda>e. leaf (en_content e)) (find_entry name (tn_entries tree))"

text \<open>
  The names are collected in a \<open>BTreeSet\<close> and the trees in a \<open>BTreeMap\<close> keyed by
  snapshot: both iterate in ascending order.
\<close>

definition readdir_union ::
  "('s, 'e) backing \<Rightarrow> 's drive_view \<Rightarrow> (snapshot_id \<times> content_id) list \<Rightarrow> 'e view_error + dir_entry list" where
  "readdir_union bk v subtrees =
    result_bind (collect (\<lambda>(snapshot, subtree). result_bind (view_load_tree bk v subtree) (\<lambda>tree.
      Inr (snapshot, tree))) subtrees) (\<lambda>loaded.
    let names = sort (remdups (concat (map (\<lambda>(_, tree). map en_name (tn_entries tree)) loaded)));
        trees = sorted_list_of_fmap (fold (\<lambda>(snapshot, tree). fmupd snapshot tree) loaded fmempty) in
    collect (\<lambda>name. result_bind (merge (map (\<lambda>(snapshot, tree). (snapshot, entry_named name tree)) trees)) (\<lambda>node.
      Inr \<lparr>de_name = as_str name, de_node = node\<rparr>)) names)"

definition dir_versions :: "(snapshot_id \<times> drive_node) list \<Rightarrow> (snapshot_id \<times> content_id) list" where
  "dir_versions versions =
    List.map_filter (\<lambda>(snapshot, node). case node of DirNode subtree \<Rightarrow> Some (snapshot, subtree) | _ \<Rightarrow> None) versions"

fun readdir :: "('s, 'e) backing \<Rightarrow> 's drive_view \<Rightarrow> drive_node \<Rightarrow> 'e view_error + dir_entry list" where
  "readdir bk v (DirNode subtree) =
    result_bind (view_load_tree bk v subtree) (\<lambda>tree.
    Inr (map (\<lambda>e. \<lparr>de_name = as_str (en_name e), de_node = leaf (en_content e)\<rparr>) (tn_entries tree)))"
| "readdir bk v (MergedDir subtrees) = readdir_union bk v subtrees"
| "readdir bk v (ConflictNode versions) = readdir_union bk v (dir_versions versions)"
| "readdir bk v (FileNode _ _ _) = Inl VNotADirectory"
| "readdir bk v (SymlinkNode _) = Inl VNotADirectory"

section \<open>Reading\<close>

fun open_node :: "drive_node \<Rightarrow> 'e view_error + open_file" where
  "open_node (FileNode sz _ chunks) = Inr \<lparr>of_chunks = chunks, of_size = sz\<rparr>"
| "open_node (ConflictNode _) = Inl VConflict"
| "open_node (DirNode _) = Inl VNotAFile"
| "open_node (MergedDir _) = Inl VNotAFile"
| "open_node (SymlinkNode _) = Inl VNotAFile"

definition try_u64 :: "nat \<Rightarrow> 'e view_error + u64" where
  "try_u64 n = (if n < 2 ^ 64 then Inr (word_of_nat n) else Inl VCorrupt)"

text \<open>The loop over the chunks: bytes consumed, bytes served, and whether the list was exhausted.\<close>

fun read_chunks ::
  "('s, 'e) backing \<Rightarrow> 's drive_view \<Rightarrow> u64 \<Rightarrow> u64 \<Rightarrow> bool \<Rightarrow> content_id list \<Rightarrow> u64 \<Rightarrow> bytes
    \<Rightarrow> 'e view_error + u64 \<times> bytes \<times> bool" where
  "read_chunks bk v offset stop_at must_validate [] consumed out = Inr (consumed, out, True)"
| "read_chunks bk v offset stop_at must_validate (chunk # chunks) consumed out =
    result_bind (load_chunk bk v chunk) (\<lambda>bytes.
    result_bind (try_u64 (length bytes)) (\<lambda>chunk_len.
    let chunk_end = saturating_add consumed chunk_len;
        from_pos = max offset consumed;
        to_pos = min stop_at chunk_end;
        out = (if from_pos < to_pos
               then out @ subslice bytes (unat (from_pos - consumed)) (unat (to_pos - consumed) - unat (from_pos - consumed))
               else out) in
    if chunk_end \<ge> stop_at \<and> \<not> must_validate then Inr (chunk_end, out, False)
    else read_chunks bk v offset stop_at must_validate chunks chunk_end out))"

definition read :: "('s, 'e) backing \<Rightarrow> 's drive_view \<Rightarrow> open_file \<Rightarrow> u64 \<Rightarrow> nat \<Rightarrow> 'e view_error + bytes" where
  "read bk v f offset len =
    (if len = 0 then Inr []
     else result_bind (try_u64 len) (\<lambda>len.
       let stop_at = min (saturating_add offset len) (of_size f);
           must_validate = (stop_at = of_size f) in
       result_bind (read_chunks bk v offset stop_at must_validate (of_chunks f) 0 []) (\<lambda>(consumed, out, exhausted).
       if exhausted \<and> consumed \<noteq> of_size f then Inl VCorrupt
       else if length out \<noteq> unat (saturating_sub stop_at offset) then Inl VCorrupt
       else Inr out)))"

section \<open>Resolution under a work limit\<close>

text \<open>The comparison of names as text is the order of components.\<close>

definition child_node :: "tree_node \<Rightarrow> bytes \<Rightarrow> drive_node option" where
  "child_node tree name =
    map_option (\<lambda>index. leaf (en_content (tn_entries tree ! index)))
      (binary_search (map en_name (tn_entries tree)) (Component name))"

definition merge_child :: "(snapshot_id \<times> drive_node option) list \<Rightarrow> 'e view_error + drive_node option" where
  "merge_child resolutions =
    (case merge resolutions of Inr node \<Rightarrow> Inr (Some node) | Inl VNotFound \<Rightarrow> Inr None | Inl e \<Rightarrow> Inl e)"

definition single_ref :: "bytes \<Rightarrow> version_ref option" where
  "single_ref name = (case component_new name of Inl _ \<Rightarrow> None | Inr c \<Rightarrow> parse_ref [c])"

definition versioned_child ::
  "bytes \<Rightarrow> (snapshot_id \<times> drive_node option) list \<Rightarrow> 'e view_error + drive_node option" where
  "versioned_child name resolutions =
    (case single_ref name of
       None \<Rightarrow> Inr None
     | Some target \<Rightarrow>
         result_bind (merge_child resolutions) (\<lambda>node.
         case node of
           Some (ConflictNode versions) \<Rightarrow>
             result_bind (ok_or (select_version versions (vr_version target)) VNotFound) (\<lambda>(_, selected).
             Inr (Some selected))
         | _ \<Rightarrow> Inr None))"

text \<open>
  The loop that loads one tree per head within the remaining budget; \<open>None\<close> is the early
  return when a tree does not fit.
\<close>

fun load_all ::
  "('s, 'e) backing \<Rightarrow> 's drive_view \<Rightarrow> u64 \<Rightarrow> u64 \<Rightarrow> (snapshot_id \<times> content_id) list
    \<Rightarrow> 'e view_error + (snapshot_id \<times> tree_node) list option \<times> u64" where
  "load_all bk v max_work work [] = Inr (Some [], work)"
| "load_all bk v max_work work ((snapshot, i) # rest) =
    result_bind (load_tree_for_resolution bk v i (saturating_sub max_work work)) (\<lambda>(tree, cost).
    let work = saturating_add work cost in
    case tree of
      None \<Rightarrow> Inr (None, work)
    | Some tree \<Rightarrow>
        result_bind (load_all bk v max_work work rest) (\<lambda>(trees, work).
        Inr (map_option (Cons (snapshot, tree)) trees, work)))"

definition over_limit :: "u64 \<Rightarrow> lookup_result" where
  "over_limit work = \<lparr>lr_node = None, lr_work = work, lr_limit_exceeded = True\<rparr>"

definition head_trees :: "kdf \<Rightarrow> snapshot list \<Rightarrow> (snapshot_id \<times> content_id) list" where
  "head_trees dk heads = map (\<lambda>head. (snapshot_id_of dk head, sn_tree head)) heads"

definition resolve_root :: "('s, 'e) backing \<Rightarrow> 's drive_view \<Rightarrow> u64 \<Rightarrow> 'e view_error + lookup_result" where
  "resolve_root bk v max_work =
    (if dv_heads v = [] then Inr \<lparr>lr_node = Some (MergedDir []), lr_work = 1, lr_limit_exceeded = (1 > max_work)\<rparr>
     else let roots = head_trees (bk_derive bk) (dv_heads v) in
       result_bind (load_all bk v max_work 0 roots) (\<lambda>(trees, work).
       if trees = None then Inr (over_limit work)
       else result_bind (merge (map (\<lambda>(snapshot, i). (snapshot, Some (DirNode i))) roots)) (\<lambda>node.
         Inr \<lparr>lr_node = Some node, lr_work = work, lr_limit_exceeded = (work > max_work)\<rparr>)))"

definition merged_child ::
  "bytes \<Rightarrow> (snapshot_id \<times> tree_node) list \<Rightarrow> 'e view_error + drive_node option" where
  "merged_child name trees =
    result_bind (merge_child (map (\<lambda>(snapshot, tree). (snapshot, child_node tree name)) trees)) (\<lambda>literal.
    if literal \<noteq> None then Inr literal
    else (case single_ref name of
        Some target \<Rightarrow> versioned_child name (map (\<lambda>(snapshot, tree). (snapshot, child_node tree (vr_name target))) trees)
      | None \<Rightarrow> Inr None))"

fun resolve_child ::
  "('s, 'e) backing \<Rightarrow> 's drive_view \<Rightarrow> drive_node \<Rightarrow> bytes \<Rightarrow> u64 \<Rightarrow> 'e view_error + lookup_result" where
  "resolve_child bk v (DirNode subtree) name max_work =
    result_bind (load_tree_for_resolution bk v subtree max_work) (\<lambda>(tree, work).
    Inr \<lparr>lr_node = Option.bind tree (\<lambda>tree. child_node tree name), lr_work = work,
         lr_limit_exceeded = (tree = None \<or> work > max_work)\<rparr>)"
| "resolve_child bk v (MergedDir subtrees) name max_work =
    result_bind (load_all bk v max_work 0 subtrees) (\<lambda>(trees, work).
    case trees of
      None \<Rightarrow> Inr (over_limit work)
    | Some trees \<Rightarrow>
        result_bind (merged_child name trees) (\<lambda>node.
        Inr \<lparr>lr_node = node, lr_work = work, lr_limit_exceeded = (work > max_work)\<rparr>))"
| "resolve_child bk v (ConflictNode _) name max_work = Inl VConflict"
| "resolve_child bk v (FileNode _ _ _) name max_work = Inl VNotADirectory"
| "resolve_child bk v (SymlinkNode _) name max_work = Inl VNotADirectory"

text \<open>The default bodies of the trait, over its \<open>lookup\<close> and \<open>readdir\<close>.\<close>

definition default_resolve_root :: "(bytes \<Rightarrow> 'e view_error + drive_node) \<Rightarrow> u64 \<Rightarrow> 'e view_error + lookup_result" where
  "default_resolve_root look max_work =
    result_bind (look []) (\<lambda>node. Inr \<lparr>lr_node = Some node, lr_work = 1, lr_limit_exceeded = (1 > max_work)\<rparr>)"

definition default_resolve_child ::
  "(drive_node \<Rightarrow> 'e view_error + dir_entry list) \<Rightarrow> drive_node \<Rightarrow> bytes \<Rightarrow> u64 \<Rightarrow> 'e view_error + lookup_result" where
  "default_resolve_child list_dir parent name max_work =
    result_bind (list_dir parent) (\<lambda>entries.
    let work = saturating_add (u64_or_max (length entries)) 1 in
    Inr \<lparr>lr_node = map_option de_node (List.find (\<lambda>e. de_name e = name) entries), lr_work = work,
         lr_limit_exceeded = (work > max_work)\<rparr>)"

end
