(* ===== verification/Wyrd_Chunk.thy ===== *)
theory Wyrd_Chunk
  imports Wyrd_Store
begin

text \<open>
  Content-defined chunking (\<open>crates/wyrd-format/src/chunk.rs\<close>).  The chunker of the
  \<open>fastcdc\<close> crate is a parameter that yields the offset and length of each cut; the
  documented behaviour the format relies on is that the cuts tile the input within the
  size bounds.
\<close>

definition MIN_CHUNK :: nat where
  "MIN_CHUNK = 16 * 1024"

definition TARGET_CHUNK :: nat where
  "TARGET_CHUNK = 64 * 1024"

definition MAX_CHUNK :: nat where
  "MAX_CHUNK = 256 * 1024"

type_synonym chunker = "bytes \<Rightarrow> nat \<Rightarrow> nat \<Rightarrow> nat \<Rightarrow> (nat \<times> nat) list"

record chunk =
  ck_id :: content_id
  ck_bytes :: bytes

definition chunk_content_id :: "kdf \<Rightarrow> bytes \<Rightarrow> content_id" where
  "chunk_content_id dk data = content_derive dk Chunk data"

text \<open>Slicing out of range panics: \<open>None\<close>.\<close>

definition cut_chunk :: "kdf \<Rightarrow> bytes \<Rightarrow> nat \<times> nat \<Rightarrow> chunk option" where
  "cut_chunk dk data = (\<lambda>(offset, len).
     if offset + len \<le> length data
     then Some \<lparr>ck_id = chunk_content_id dk (subslice data offset len), ck_bytes = subslice data offset len\<rparr>
     else None)"

definition split_chunks :: "chunker \<Rightarrow> kdf \<Rightarrow> bytes \<Rightarrow> chunk list option" where
  "split_chunks cdc dk data =
    (if data = [] then Some [] else those (map (cut_chunk dk data) (cdc data MIN_CHUNK TARGET_CHUNK MAX_CHUNK)))"

fun insert_each :: "('s, 'e) store_ops \<Rightarrow> chunk list \<Rightarrow> 's \<Rightarrow> ('e + content_id list) \<times> 's" where
  "insert_each ops [] s = (Inr [], s)"
| "insert_each ops (c # cs) s =
    (case os_insert ops Chunk (ck_bytes c) s of
       (Inl e, s) \<Rightarrow> (Inl e, s)
     | (Inr i, s) \<Rightarrow> (case insert_each ops cs s of (Inl e, s) \<Rightarrow> (Inl e, s) | (Inr is, s) \<Rightarrow> (Inr (i # is), s)))"

definition insert_chunks ::
  "chunker \<Rightarrow> kdf \<Rightarrow> ('s, 'e) store_ops \<Rightarrow> bytes \<Rightarrow> 's \<Rightarrow> (('e + content_id list) \<times> 's) option" where
  "insert_chunks cdc dk ops data s = map_option (\<lambda>cs. insert_each ops cs s) (split_chunks cdc dk data)"

section \<open>What the chunker documents\<close>

fun tiles :: "nat \<Rightarrow> (nat \<times> nat) list \<Rightarrow> nat \<Rightarrow> bool" where
  "tiles pos [] n \<longleftrightarrow> pos = n"
| "tiles pos ((offset, len) # cuts) n \<longleftrightarrow>
    offset = pos \<and> 0 < len \<and> len \<le> MAX_CHUNK \<and> (cuts \<noteq> [] \<longrightarrow> MIN_CHUNK \<le> len) \<and> tiles (pos + len) cuts n"

lemma tiles_le: "tiles pos cuts n \<Longrightarrow> pos \<le> n"
  by (induction pos cuts n rule: tiles.induct) auto

lemma tiles_cut:
  assumes "tiles pos cuts (length data)"
  shows "\<exists>cs. those (map (cut_chunk dk data) cuts) = Some cs \<and> concat (map ck_bytes cs) = drop pos data
    \<and> (\<forall>c \<in> set cs. ck_id c = content_derive dk Chunk (ck_bytes c) \<and> length (ck_bytes c) \<le> MAX_CHUNK)
    \<and> (\<forall>c \<in> set (butlast cs). MIN_CHUNK \<le> length (ck_bytes c))"
  using assms
proof (induction pos cuts "length data" rule: tiles.induct)
  case (2 pos offset len cuts)
  from 2(2) have t: "offset = pos" "0 < len" "len \<le> MAX_CHUNK" "cuts \<noteq> [] \<longrightarrow> MIN_CHUNK \<le> len"
    "tiles (pos + len) cuts (length data)" by auto
  from 2(1) [OF t(5)] obtain cs where cs: "those (map (cut_chunk dk data) cuts) = Some cs"
    "concat (map ck_bytes cs) = drop (pos + len) data"
    "\<forall>c \<in> set cs. ck_id c = content_derive dk Chunk (ck_bytes c) \<and> length (ck_bytes c) \<le> MAX_CHUNK"
    "\<forall>c \<in> set (butlast cs). MIN_CHUNK \<le> length (ck_bytes c)" by blast
  have le: "pos + len \<le> length data" using tiles_le [OF t(5)] .
  have ne: "cs = [] \<longleftrightarrow> cuts = []" using cs(1) by (cases cuts) (auto split: option.splits)
  have "subslice data pos len @ drop (pos + len) data = drop pos data"
    by (metis add.commute append_take_drop_id drop_drop subslice_def)
  with t cs le ne show ?case
    by (auto simp: cut_chunk_def chunk_content_id_def subslice_def)
qed simp

end
