(* ===== verification/Wyrd_Reading.thy ===== *)
theory Wyrd_Reading
  imports Wyrd_Drive Wyrd_Chunk
begin

text \<open>
  Reading files (\<open>DriveView::read\<close> in \<open>crates/wyrd-fuse/src/view/drive.rs\<close>): the windowed
  walk over the chunk list serves the slice of the whole file, and a file cut into
  chunks, stored and read back is the file.
\<close>

section \<open>The window\<close>

definition window :: "'a list \<Rightarrow> nat \<Rightarrow> nat \<Rightarrow> 'a list" where
  "window xs a b = take (b - a) (drop a xs)"

lemma length_window: "b \<le> length xs \<Longrightarrow> length (window xs a b) = b - a"
  by (auto simp: window_def)

lemma window_extend:
  assumes "k \<le> k'" "k' \<le> length xs"
  shows "window xs a (min b k') = window xs a (min b k) @
    (if max a k < min b k' then window xs (max a k) (min b k') else [])"
proof (cases "max a k < min b k'")
  case False
  then have "min b k' - a = min b k - a \<or> (min b k' \<le> a \<and> min b k \<le> a)" using assms by linarith
  with False show ?thesis by (auto simp: window_def)
next
  case True
  show ?thesis
  proof (cases "a \<le> k")
    case a: True
    have "min b k' - a = (k - a) + (min b k' - k)" using True a by simp
    then have "take (min b k' - a) (drop a xs) = take (k - a) (drop a xs) @ take (min b k' - k) (drop k xs)"
      by (simp only: take_add) (use a in simp)
    with True a show ?thesis by (simp add: window_def)
  next
    case False
    with True show ?thesis by (auto simp: window_def)
  qed
qed

lemma window_chunk:
  assumes "drop k xs = bs @ rest" "k \<le> a" "b \<le> k + length bs" "k + length bs \<le> length xs"
  shows "subslice bs (a - k) (b - k - (a - k)) = window xs a b"
proof -
  have "bs = take (length bs) (drop k xs)" using assms(1) by simp
  then have "drop (a - k) bs = take (length bs - (a - k)) (drop a xs)"
    using assms(2) by (metis drop_drop drop_take le_add_diff_inverse2)
  with assms(2,3) show ?thesis by (auto simp: subslice_def window_def min_def)
qed

text \<open>Positions below \<open>2\<^sup>6\<^sup>4\<close> as words.\<close>

lemma unat_u64: "n < 2 ^ 64 \<Longrightarrow> unat (word_of_nat n :: u64) = n"
  by (simp add: unsigned_of_nat take_bit_nat_eq_self)

lemma unat_u64_less: "unat (x :: u64) < 2 ^ 64"
  using unsigned_less [of x] by simp

lemma saturating_position:
  "k + n < 2 ^ 64 \<Longrightarrow> saturating_add (word_of_nat k) (word_of_nat n) = word_of_nat (k + n)"
  by (simp add: saturating_add_def unat_u64)

section \<open>The loop\<close>

lemma read_chunk_step:
  fixes off stop_at :: u64
  assumes "drop k D = bs @ rest" "k \<le> length D" "length D < 2 ^ 64"
  defines "consumed \<equiv> word_of_nat k" and "chunk_end \<equiv> word_of_nat (k + length bs)"
  shows "window D (unat off) (min (unat stop_at) (k + length bs)) = window D (unat off) (min (unat stop_at) k) @
    (if max off consumed < min stop_at chunk_end
     then subslice bs (unat (max off consumed - consumed)) (unat (min stop_at chunk_end - consumed) - unat (max off consumed - consumed))
     else [])"
proof -
  have len: "k + length bs \<le> length D" using arg_cong [OF assms(1), of length] assms(2) by simp
  have k: "unat consumed = k" "unat chunk_end = k + length bs"
    using len assms(3) by (simp_all add: consumed_def chunk_end_def unat_u64 del: of_nat_add)
  have max: "unat (max off consumed) = max (unat off) k" by (simp add: max_def word_le_nat_alt k)
  have min: "unat (min stop_at chunk_end) = min (unat stop_at) (k + length bs)"
    by (simp add: min_def word_le_nat_alt k)
  have lt: "max off consumed < min stop_at chunk_end \<longleftrightarrow> max (unat off) k < min (unat stop_at) (k + length bs)"
    by (simp only: word_less_nat_alt max min)
  have "consumed \<le> max off consumed" by simp
  then have d1: "unat (max off consumed - consumed) = max (unat off) k - k"
    by (simp only: unat_sub max k)
  have d2: "unat (min stop_at chunk_end - consumed) = min (unat stop_at) (k + length bs) - k"
    if "max off consumed < min stop_at chunk_end"
  proof -
    have "consumed \<le> min stop_at chunk_end" using that by (meson max.cobounded2 order.strict_implies_order order.trans)
    then show ?thesis by (simp only: unat_sub min k)
  qed
  note ext = window_extend [of k "k + length bs" D "unat off" "unat stop_at", OF le_add1 len]
  show ?thesis
  proof (cases "max off consumed < min stop_at chunk_end")
    case True
    then have "subslice bs (unat (max off consumed - consumed)) (unat (min stop_at chunk_end - consumed) - unat (max off consumed - consumed))
        = window D (max (unat off) k) (min (unat stop_at) (k + length bs))"
      unfolding d1 d2 [OF True] by (intro window_chunk [OF assms(1)]) (use len in auto)
    with ext True lt show ?thesis by (simp only: if_True)
  next
    case False
    with ext lt show ?thesis by (simp only: if_False)
  qed
qed

lemma read_chunks_spec:
  assumes "list_all2 (\<lambda>i bs. load_chunk bk v i = Inr bs) chunks bss" "drop k D = concat bss"
    and "k \<le> length D" "length D < 2 ^ 64" "must \<or> k < unat stop_at"
  shows "\<exists>e. read_chunks bk v off stop_at must chunks (word_of_nat k) (window D (unat off) (min (unat stop_at) k)) =
    Inr (if must \<or> length D < unat stop_at then (word_of_nat (length D), window D (unat off) (min (unat stop_at) (length D)), True)
         else (e, window D (unat off) (unat stop_at), False))"
  using assms
proof (induction chunks bss arbitrary: k rule: list_all2_induct)
  case Nil
  then have "k = length D" by simp
  with Nil show ?case by auto
next
  case (Cons i ids bs bss)
  let ?k = "k + length bs"
  have step: "drop k D = bs @ concat bss" using Cons.prems(1) by simp
  have len: "?k \<le> length D" using arg_cong [OF step, of length] Cons.prems(2) by simp
  have dk: "drop ?k D = concat bss" using step by (metis add.commute append_eq_conv_conj drop_drop)
  have n: "length bs < 2 ^ 64" "?k < 2 ^ 64" using len Cons.prems(3) by auto
  let ?out = "window D (unat off) (min (unat stop_at) ?k)"
  have eq: "read_chunks bk v off stop_at must (i # ids) (word_of_nat k) (window D (unat off) (min (unat stop_at) k)) =
    (if word_of_nat ?k \<ge> stop_at \<and> \<not> must then Inr (word_of_nat ?k, ?out, False)
     else read_chunks bk v off stop_at must ids (word_of_nat ?k) ?out)"
    unfolding read_chunk_step [OF step Cons.prems(2,3), of off stop_at]
    using Cons.hyps(1) n saturating_position [OF n(2)] by (simp add: try_u64_def Let_def del: of_nat_add)
  have ge: "word_of_nat ?k \<ge> stop_at \<longleftrightarrow> unat stop_at \<le> ?k" using n by (simp add: word_le_nat_alt unat_u64 del: of_nat_add)
  show ?case
  proof (cases "unat stop_at \<le> ?k \<and> \<not> must")
    case True
    with ge len show ?thesis unfolding eq by (auto simp: min_def simp del: of_nat_add)
  next
    case False
    then have n1: "\<not> (word_of_nat ?k \<ge> stop_at \<and> \<not> must)" and n2: "must \<or> ?k < unat stop_at" using ge by auto
    from Cons.IH [OF dk len Cons.prems(3) n2] n1 show ?thesis unfolding eq by (simp only: if_False)
  qed
qed

section \<open>A whole file\<close>

definition holds_file :: "('s, 'e) backing \<Rightarrow> 's drive_view \<Rightarrow> content_id list \<Rightarrow> bytes \<Rightarrow> bool" where
  "holds_file bk v chunks data \<longleftrightarrow>
    (\<exists>bss. list_all2 (\<lambda>i bs. load_chunk bk v i = Inr bs) chunks bss \<and> concat bss = data)"

definition read_end :: "open_file \<Rightarrow> u64 \<Rightarrow> nat \<Rightarrow> nat" where
  "read_end f offset len = min (unat offset + len) (unat (of_size f))"

lemma read_window:
  assumes "holds_file bk v (of_chunks f) data" "length data < 2 ^ 64" "0 < len" "len < 2 ^ 64"
  shows "read bk v f offset len =
    (if (if read_end f offset len = unat (of_size f) then length data = unat (of_size f)
         else read_end f offset len \<le> length data)
     then Inr (take (read_end f offset len - unat offset) (drop (unat offset) data)) else Inl VCorrupt)"
proof -
  let ?stop = "read_end f offset len"
  obtain bss where bss: "list_all2 (\<lambda>i bs. load_chunk bk v i = Inr bs) (of_chunks f) bss" "drop 0 data = concat bss"
    using assms(1) by (auto simp: holds_file_def)
  define stop where "stop = min (saturating_add offset (word_of_nat len)) (of_size f)"
  have s: "unat stop = ?stop"
    using assms(4) unat_u64_less [of "of_size f"]
    by (auto simp: stop_def read_end_def min_def word_le_nat_alt unat_saturating_add unat_u64)
  have must: "stop = of_size f \<longleftrightarrow> ?stop = unat (of_size f)" using s by (simp add: word_unat_eq_iff)
  have pos: "stop = of_size f \<or> 0 < unat stop"
    using must s assms(3) by (auto simp: read_end_def)
  obtain e where e: "read_chunks bk v offset stop (stop = of_size f) (of_chunks f) 0 [] =
    Inr (if stop = of_size f \<or> length data < ?stop
      then (word_of_nat (length data), window data (unat offset) (min ?stop (length data)), True)
      else (e, window data (unat offset) ?stop, False))"
    using read_chunks_spec [OF bss le0 assms(2) pos, where off = offset] unfolding s by (auto simp: window_def)
  have total: "word_of_nat (length data) = of_size f \<longleftrightarrow> length data = unat (of_size f)"
    using assms(2) by (simp add: word_unat_eq_iff unat_u64)
  have sub: "unat (saturating_sub stop offset) = ?stop - unat offset" by (simp add: unat_saturating_sub s)
  have le_size: "?stop \<le> unat (of_size f)" by (simp add: read_end_def )
  have run: "read bk v f offset len = result_bind (read_chunks bk v offset stop (stop = of_size f) (of_chunks f) 0 [])
    (\<lambda>(consumed, out, exhausted). if exhausted \<and> consumed \<noteq> of_size f then Inl VCorrupt
       else if length out \<noteq> ?stop - unat offset then Inl VCorrupt else Inr out)"
    unfolding sub [symmetric] stop_def using assms(3,4) by (simp add: read_def try_u64_def Let_def)
  show ?thesis
    unfolding run unfolding e unfolding must using total le_size length_window [of ?stop data "unat offset"]
    by (auto simp: window_def)
qed

lemma read_exact_slice:
  assumes "holds_file bk v (of_chunks f) data" "length data < 2 ^ 64" "0 < len" "len < 2 ^ 64"
    and "length data = unat (of_size f)"
  shows "read bk v f offset len = Inr (take len (drop (unat offset) data))"
proof -
  have "take (read_end f offset len - unat offset) (drop (unat offset) data) = take len (drop (unat offset) data)"
    using assms(5) by (auto simp: read_end_def min_def)
  with read_window [OF assms(1-4), of offset] assms(5) show ?thesis by (auto simp: read_end_def)
qed

text \<open>
  C16.  Reading is exact and checked: when the chunks of an open file all load and hold
  \<open>data\<close>, a read of a non-empty range returns that range of the file, cut at the declared size,
  if the declared size is not contradicted.  A read that reaches the declared end requires the
  chunks to hold exactly the declared size; a read that ends before it requires them to reach
  the end of its range; otherwise the content is corrupt, and no byte is served.
\<close>

theorem read_exact:
  assumes "holds_file bk v (of_chunks f) data" "length data < 2 ^ 64" "0 < len" "len < 2 ^ 64"
  shows "read bk v f offset len =
    (if (if read_end f offset len = unat (of_size f) then length data = unat (of_size f)
         else read_end f offset len \<le> length data)
     then Inr (take (read_end f offset len - unat offset) (drop (unat offset) data)) else Inl VCorrupt)"
  by (rule read_window [OF assms])

definition one_chunk_view :: "memory_store drive_view" where
  "one_chunk_view =
    \<lparr>dv_store = shared_new \<lparr>ms_objects = fmupd (Ident 1) (Chunk, [7, 8, 9]) fmempty, ms_retained = None\<rparr>,
     dv_materialization = (\<lambda>_. RemoteOnly), dv_heads = []\<rparr>"

definition one_chunk_backing :: "(memory_store, memory_store_error) backing" where
  "one_chunk_backing = \<lparr>bk_ops = memory_ops (\<lambda>_ _. 1), bk_errors = default_store_error, bk_derive = (\<lambda>_ _. 1)\<rparr>"

lemma one_chunk_holds: "holds_file one_chunk_backing one_chunk_view [Ident 1] [7, 8, 9]"
  unfolding holds_file_def
  by (intro exI [of _ "[[7, 8, 9]]"]) (simp add: one_chunk_backing_def one_chunk_view_def load_chunk_def stored_bytes_def
      store_read_def shared_new_def memory_ops_def memory_get_def)

theorem read_exact_witness:
  "read one_chunk_backing one_chunk_view \<lparr>of_chunks = [Ident 1], of_size = 3\<rparr> 1 5 = Inr [8, 9]
   \<and> read one_chunk_backing one_chunk_view \<lparr>of_chunks = [Ident 1], of_size = 4\<rparr> 1 5 = Inl VCorrupt"
  using read_exact [of one_chunk_backing one_chunk_view "\<lparr>of_chunks = [Ident 1], of_size = 3\<rparr>" "[7, 8, 9]" 5 1]
    read_exact [of one_chunk_backing one_chunk_view "\<lparr>of_chunks = [Ident 1], of_size = 4\<rparr>" "[7, 8, 9]" 5 1]
    one_chunk_holds by (simp add: read_end_def)

end
