(* ===== verification/Wyrd_Paths.thy ===== *)
theory Wyrd_Paths
  imports Wyrd_Mutation "HOL-Library.Sublist"
begin

text \<open>
  The meaning of the tree operations: a root is the namespace it presents, a partial
  function from paths to nodes, and each operation on the store refines an update
  of that function.  Lookup goes through content addressing, so the statements ask
  that the payloads an operation writes do not collide; the recording store names
  those payloads.
\<close>

section \<open>Entry lists\<close>

lemma find_upsert:
  "find_entry c (upsert es e) = (if c = en_name e then Some e else find_entry c es)"
  by (induction es) auto

lemma upsert_fresh: "find_entry (en_name e) es = None \<Longrightarrow> upsert es e = es @ [e]"
  by (induction es) (auto split: if_splits)

lemma set_upsert: "set (upsert es e) \<subseteq> insert e (set es)"
  by (induction es) auto

lemma find_entry_Some: "find_entry c es = Some e \<Longrightarrow> e \<in> set es \<and> en_name e = c"
  by (auto simp: find_Some_iff)

lemma find_snoc:
  "\<not> list_ex (\<lambda>x. en_name x = en_name e) es \<Longrightarrow>
   find_entry c (es @ [e]) = (if c = en_name e then Some e else find_entry c es)"
  by (induction es) auto

lemma find_permuted:
  assumes "distinct (map en_name xs)" "set xs = set ys" "distinct (map en_name ys)"
  shows "find_entry c xs = find_entry c ys"
  using find_unique [OF assms(1), of c] find_unique [OF assms(3), of c] assms(2) by (metis not_None_eq)

lemma find_from_entries: "from_entries es = Inr t \<Longrightarrow> find_entry c (tn_entries t) = find_entry c es"
  unfolding from_entries_Inr_iff by (intro find_permuted) (auto simp: distinct_map)

lemma position_Some:
  assumes "position P xs = Some i"
  shows "i < length xs" "P (xs ! i)" "List.find P xs = Some (xs ! i)" "\<forall>j < i. \<not> P (xs ! j)"
proof -
  have i: "i = length (takeWhile (\<lambda>x. \<not> P x) xs)" "i < length xs"
    using assms by (auto simp: position_def Let_def split: if_splits)
  then show len: "i < length xs" and p: "P (xs ! i)" using nth_length_takeWhile [of "\<lambda>x. \<not> P x" xs] by auto
  show no: "\<forall>j < i. \<not> P (xs ! j)"
    using i(1) by (metis nth_mem set_takeWhileD takeWhile_nth)
  show "List.find P xs = Some (xs ! i)" using len p no by (auto simp: find_Some_iff)
qed

lemma position_None: "position P xs = None \<Longrightarrow> List.find P xs = None"
  by (auto simp: position_def Let_def find_None_iff split: if_splits)
    (metis length_takeWhile_le linorder_neqE_nat not_less takeWhile_eq_all_conv takeWhile_eq_take take_all)

text \<open>Removing or overwriting the entry at an index, when names are distinct.\<close>

lemma split_at:
  assumes "distinct (map f es)" "i < length es"
  shows "es = take i es @ es ! i # drop (Suc i) es"
    and "\<And>x. x \<in> set (take i es) \<Longrightarrow> f x \<noteq> f (es ! i)" "\<And>x. x \<in> set (drop (Suc i) es) \<Longrightarrow> f x \<noteq> f (es ! i)"
proof -
  show es: "es = take i es @ es ! i # drop (Suc i) es" using assms(2) by (rule id_take_nth_drop)
  have d: "distinct (map f (take i es @ es ! i # drop (Suc i) es))"
    using assms(1) by (simp only: es [symmetric])
  then have n: "f (es ! i) \<notin> f ` set (take i es)" "f (es ! i) \<notin> f ` set (drop (Suc i) es)" by simp_all
  show "f x \<noteq> f (es ! i)" if "x \<in> set (take i es)" for x using imageI [OF that, of f] n(1) by metis
  show "f x \<noteq> f (es ! i)" if "x \<in> set (drop (Suc i) es)" for x using imageI [OF that, of f] n(2) by metis
qed

lemma distinct_without: "distinct (map f (xs @ y # zs)) \<Longrightarrow> distinct (map f (xs @ zs))"
  by auto

lemma find_remove_at:
  assumes "distinct (map en_name es)" "i < length es"
  shows "find_entry c (remove_at i es) = (if c = en_name (es ! i) then None else find_entry c es)"
proof -
  note es = split_at [OF assms]
  have d: "distinct (map en_name (remove_at i es))"
    using assms(1) es(1) distinct_without unfolding remove_at_def by metis
  have s: "set es = insert (es ! i) (set (remove_at i es))"
    unfolding remove_at_def by (subst es(1)) auto
  have n: "en_name x \<noteq> en_name (es ! i)" if "x \<in> set (remove_at i es)" for x
    using es(2,3) that by (auto simp: remove_at_def)
  show ?thesis
  proof (cases "c = en_name (es ! i)")
    case True
    with n show ?thesis by (auto simp: find_None_iff)
  next
    case False
    then have "find_entry c (remove_at i es) = Some e \<longleftrightarrow> find_entry c es = Some e" for e
      using find_unique [OF assms(1), of c e] find_unique [OF d, of c e] s by auto
    with False show ?thesis by (metis not_None_eq)
  qed
qed

lemma find_update_at:
  assumes "distinct (map en_name es)" "i < length es" "en_name e = en_name (es ! i)"
  shows "find_entry c (es[i := e]) = (if c = en_name e then Some e else find_entry c es)"
proof -
  have d: "distinct (map en_name (es[i := e]))"
    using assms by (metis list_update_id map_update nth_map)
  note es = split_at [OF assms(1,2)]
  have s: "set (es[i := e]) = insert e (set (take i es) \<union> set (drop (Suc i) es))"
    using assms(2) by (simp add: upd_conv_take_nth_drop)
  have s': "set es = insert (es ! i) (set (take i es) \<union> set (drop (Suc i) es))" by (subst es(1)) auto
  have "find_entry c (es[i := e]) = Some x \<longleftrightarrow> (if c = en_name e then x = e else find_entry c es = Some x)" for x
    using find_unique [OF d, of c x] find_unique [OF assms(1), of c x] es(2,3) assms(3) unfolding s s' by auto
  then show ?thesis by (metis not_None_eq)
qed

section \<open>Paths\<close>

lemma split_on_skip:
  "c \<notin> set ys \<Longrightarrow> \<exists>q qs. split_on c r = q # qs \<and> split_on c (ys @ r) = (ys @ q) # qs"
proof (induction ys)
  case Nil
  then show ?case by (cases "split_on c r") auto
qed auto

text \<open>A multi-byte sequence at the start of valid text: no byte of it is ASCII.\<close>

lemma utf8_sequence:
  assumes "utf8_valid (b # rest)" "\<not> b \<le> 0x7F"
  shows "\<exists>ys r. b # rest = ys @ r \<and> ys \<noteq> [] \<and> (\<forall>y \<in> set ys. \<not> y \<le> 0x7F) \<and> utf8_valid r
    \<and> (\<forall>q. utf8_valid (ys @ q) \<longleftrightarrow> utf8_valid q)"
proof -
  have big: "\<not> y \<le> 0x7F" if "continuation y" for y
    using that unfolding continuation_def by (auto simp: word_le_nat_alt)
  define P2 P3 P4 where "P2 \<longleftrightarrow> 0xC2 \<le> b \<and> b \<le> 0xDF" and "P3 \<longleftrightarrow> 0xE0 \<le> b \<and> b \<le> 0xEF"
    and "P4 \<longleftrightarrow> 0xF0 \<le> b \<and> b \<le> 0xF4"
  define A3 A4 where "A3 c \<longleftrightarrow> continuation c \<and> (b = 0xE0 \<longrightarrow> 0xA0 \<le> c) \<and> (b = 0xED \<longrightarrow> c \<le> 0x9F)"
    and "A4 c \<longleftrightarrow> continuation c \<and> (b = 0xF0 \<longrightarrow> 0x90 \<le> c) \<and> (b = 0xF4 \<longrightarrow> c \<le> 0x8F)" for c
  have cont: "continuation c" if "A3 c \<or> A4 c" for c using that by (auto simp: A3_def A4_def)
  have u: "utf8_valid (b # xs) \<longleftrightarrow>
      (if P2 then (case xs of c1 # r \<Rightarrow> continuation c1 \<and> utf8_valid r | _ \<Rightarrow> False)
       else if P3 then (case xs of c1 # c2 # r \<Rightarrow> A3 c1 \<and> continuation c2 \<and> utf8_valid r | _ \<Rightarrow> False)
       else P4 \<and> (case xs of c1 # c2 # c3 # r \<Rightarrow>
         A4 c1 \<and> continuation c2 \<and> continuation c3 \<and> utf8_valid r | _ \<Rightarrow> False))" for xs
    unfolding utf8_valid.simps P2_def P3_def P4_def A3_def A4_def
    using assms(2) by (simp split: list.split) blast
  consider (two) c1 r where "P2" "rest = c1 # r" "continuation c1" "utf8_valid r"
    | (three) c1 c2 r where "\<not> P2" "P3" "rest = c1 # c2 # r" "A3 c1" "continuation c2" "utf8_valid r"
    | (four) c1 c2 c3 r where "\<not> P2" "\<not> P3" "P4" "rest = c1 # c2 # c3 # r" "A4 c1" "continuation c2"
        "continuation c3" "utf8_valid r"
    using assms(1) unfolding u by (auto split: if_splits list.splits)
  moreover have ?thesis if "b # rest = ys @ r" "ys \<noteq> []" "\<forall>y \<in> set ys. \<not> y \<le> 0x7F" "utf8_valid r"
    "\<And>q. utf8_valid (ys @ q) \<longleftrightarrow> utf8_valid q" for ys r
    using that by blast
  note enough = this
  ultimately show ?thesis
  proof cases
    case two
    with big assms(2) show ?thesis by (intro enough [of "[b, c1]" r]) (simp_all add: u del: utf8_valid.simps)
  next
    case three
    with big cont assms(2) show ?thesis by (intro enough [of "[b, c1, c2]" r]) (simp_all add: u del: utf8_valid.simps)
  next
    case four
    with big cont assms(2) show ?thesis
      by (intro enough [of "[b, c1, c2, c3]" r]) (simp_all add: u del: utf8_valid.simps)
  qed
qed

lemma utf8_split_step:
  assumes "c \<notin> set ys" "p \<in> set (split_on c (ys @ r))"
    and "\<And>p. p \<in> set (split_on c r) \<Longrightarrow> utf8_valid p" "\<And>q. utf8_valid (ys @ q) \<longleftrightarrow> utf8_valid q"
  shows "utf8_valid p"
proof -
  from split_on_skip [OF assms(1), of r] obtain q qs
    where "split_on c r = q # qs" "split_on c (ys @ r) = (ys @ q) # qs" by blast
  with assms(2-4) show ?thesis by auto
qed

lemma utf8_split:
  assumes c: "c \<le> 0x7F"
  shows "utf8_valid bs \<Longrightarrow> p \<in> set (split_on c bs) \<Longrightarrow> utf8_valid p"
proof (induction "length bs" arbitrary: bs p rule: less_induct)
  case less
  show ?case
  proof (cases bs)
    case Nil
    with less show ?thesis by simp
  next
    case (Cons b rest)
    show ?thesis
    proof (cases "b \<le> 0x7F")
      case True
      then have "utf8_valid rest" using less.prems(1) Cons by simp
      with less.hyps [of rest] Cons have rest: "\<And>p. p \<in> set (split_on c rest) \<Longrightarrow> utf8_valid p" by simp
      with True less.prems(2) Cons utf8_split_step [of c "[b]" p rest] show ?thesis
        by (cases "b = c") auto
    next
      case False
      from utf8_sequence [OF _ False] less.prems(1) Cons obtain ys r where ys: "bs = ys @ r" "ys \<noteq> []"
        "\<forall>y \<in> set ys. \<not> y \<le> 0x7F" "utf8_valid r" "\<And>q. utf8_valid (ys @ q) \<longleftrightarrow> utf8_valid q" by metis
      have "\<And>p. p \<in> set (split_on c r) \<Longrightarrow> utf8_valid p" using less.hyps [of r] ys by simp
      with ys c less.prems(2) utf8_split_step [of c ys p r] show ?thesis by auto
    qed
  qed
qed

text \<open>What the Rust types guarantee of components and entries: legal names, UTF-8 texts.\<close>

definition component_typed :: "component \<Rightarrow> bool" where
  "component_typed c \<longleftrightarrow> utf8_valid (as_str c) \<and> component_new (as_str c) = Inr c"

definition entry_typed :: "tree_entry \<Rightarrow> bool" where
  "entry_typed e \<longleftrightarrow> component_typed (en_name e) \<and> (\<forall>t. en_content e = Symlink t \<longrightarrow> utf8_valid t)"

lemma entry_valid_typed: "entry_valid e \<Longrightarrow> entry_typed e"
  by (auto simp: entry_valid_def entry_typed_def component_valid_def component_typed_def)

lemma parse_parts_Inr:
  "parse_parts acc parts = Inr cs \<Longrightarrow>
   \<exists>ds. cs = acc @ ds \<and> map as_str ds = parts \<and> (\<forall>d \<in> set ds. component_new (as_str d) = Inr d)"
proof (induction acc parts rule: parse_parts.induct)
  case (2 acc part parts)
  then obtain c where c: "component_new part = Inr c" and rest: "parse_parts (acc @ [c]) parts = Inr cs"
    by (auto simp: Let_def result_simps split: if_splits)
  have len: "\<not> MAX_PATH_DEPTH < length (acc @ [c])" and part: "part \<noteq> []"
    using 2(2) c by (auto simp: Let_def split: if_splits)
  have "map_err PathComponent (component_new part) = Inr c" using c by simp
  from 2(1) [OF part this refl len rest] obtain ds where
    "cs = (acc @ [c]) @ ds" "map as_str ds = parts" "\<forall>d \<in> set ds. component_new (as_str d) = Inr d" by blast
  with c component_new_Inr [OF c] show ?case by (intro exI [of _ "c # ds"]) simp
qed simp

lemma parse_path_Inr:
  assumes "parse_path path = Inr cs"
  shows "cs \<noteq> []" "map as_str cs = split_on 0x2F path"
    and "c \<in> set cs \<Longrightarrow> component_new (as_str c) = Inr c"
proof -
  have "parse_parts [] (split_on 0x2F path) = Inr cs"
    using assms by (auto simp: parse_path_def split: if_splits)
  from parse_parts_Inr [OF this] show m: "map as_str cs = split_on 0x2F path"
    and "c \<in> set cs \<Longrightarrow> component_new (as_str c) = Inr c" by auto
  then show "cs \<noteq> []" using split_on_nonempty [of "0x2F" path] by force
qed

lemma parse_path_typed:
  assumes "parse_path p = Inr cs" "utf8_valid path" "set (split_on 0x2F p) \<subseteq> set (split_on 0x2F path)"
    and "c \<in> set cs"
  shows "component_typed c"
proof -
  have "as_str c \<in> set (map as_str cs)" using assms(4) by simp
  then have "as_str c \<in> set (split_on 0x2F path)" unfolding parse_path_Inr(2) [OF assms(1)] using assms(3) by blast
  with utf8_split [of "0x2F", OF _ assms(2)] parse_path_Inr(3) [OF assms(1,4)] show ?thesis
    by (simp add: component_typed_def)
qed

section \<open>The namespace of a root\<close>

datatype node = NFile u64 bool "content_id list" | NDir | NSymlink bytes

definition load :: "(content_id \<rightharpoonup> bytes) \<Rightarrow> content_id \<Rightarrow> tree_node option" where
  "load m i = (case m i of None \<Rightarrow> None | Some bs \<Rightarrow> (case tree_decode bs of Inl _ \<Rightarrow> None | Inr t \<Rightarrow> Some t))"

fun node_of :: "entry_content \<Rightarrow> node" where
  "node_of (File sz x cs) = NFile sz x cs"
| "node_of (Dir _) = NDir"
| "node_of (Symlink t) = NSymlink t"

fun view :: "(content_id \<rightharpoonup> bytes) \<Rightarrow> entry_content \<Rightarrow> component list \<Rightarrow> node option" where
  "view m content [] = Some (node_of content)"
| "view m content (c # cs) =
    (case content of
       Dir subtree \<Rightarrow> Option.bind (load m subtree) (\<lambda>t.
         Option.bind (find_entry c (tn_entries t)) (\<lambda>e. view m (en_content e) cs))
     | _ \<Rightarrow> None)"

definition entries_view :: "(content_id \<rightharpoonup> bytes) \<Rightarrow> tree_entry list \<Rightarrow> component list \<Rightarrow> node option" where
  "entries_view m es p =
    (case p of [] \<Rightarrow> Some NDir | c # cs \<Rightarrow> Option.bind (find_entry c es) (\<lambda>e. view m (en_content e) cs))"

lemma entries_view_simps [simp]:
  "entries_view m es [] = Some NDir"
  "entries_view m es (c # cs) = Option.bind (find_entry c es) (\<lambda>e. view m (en_content e) cs)"
  by (simp_all add: entries_view_def)

lemma view_dir: "load m d = Some t \<Longrightarrow> view m (Dir d) = entries_view m (tn_entries t)"
  by (auto simp: fun_eq_iff entries_view_def split: list.splits)

text \<open>
  The updates: put a subtree at a path, making every proper prefix a directory, and
  drop everything at and under a path.
\<close>

definition put_view ::
  "(component list \<Rightarrow> node option) \<Rightarrow> component list \<Rightarrow> (component list \<Rightarrow> node option)
    \<Rightarrow> component list \<Rightarrow> node option" where
  "put_view V p W q =
    (if prefix p q then W (drop (length p) q) else if strict_prefix q p then Some NDir else V q)"

definition remove_view ::
  "(component list \<Rightarrow> node option) \<Rightarrow> component list \<Rightarrow> component list \<Rightarrow> node option" where
  "remove_view V p q = (if prefix p q then None else V q)"

lemma put_view_simps [simp]:
  "put_view V [] W q = W q"
  "put_view V (c # p) W [] = Some NDir"
  "put_view V (c # p) W (d # q) = (if d = c then put_view (\<lambda>q. V (c # q)) p W q else V (d # q))"
  by (auto simp: put_view_def)

lemma remove_view_simps [simp]:
  "remove_view V (c # p) [] = V []"
  "remove_view V (c # p) (d # q) =
    (if d = c then (if p = [] then None else remove_view (\<lambda>q. V (c # q)) p q) else V (d # q))"
  by (auto simp: remove_view_def)

lemma put_view_cong:
  assumes "p \<noteq> []" "\<And>q. q \<noteq> [] \<Longrightarrow> V q = V' q"
  shows "put_view V p W q = put_view V' p W q"
  using assms by (cases p; cases q) (auto simp: put_view_def)

end
