(* ===== verification/Wyrd_Refinement.thy ===== *)
theory Wyrd_Refinement
  imports Wyrd_Paths
begin

text \<open>
  The tree operations refine the updates of the namespace.  A recording store logs
  the payloads an operation inserts; erasing the log gives back the run on the
  plain store.  Against any final content in which every logged payload reads back,
  each rebuilt node decodes to the tree it was built from.
\<close>

section \<open>The recording store\<close>

type_synonym written = "(object_kind \<times> bytes) list"

definition trace_ops :: "('s, 'e) store_ops \<Rightarrow> ('s \<times> written, 'e) store_ops" where
  "trace_ops ops =
    \<lparr>os_insert = (\<lambda>k d (s, l). let (r, s') = os_insert ops k d s in
       (r, (s', case r of Inl _ \<Rightarrow> l | Inr _ \<Rightarrow> (k, d) # l))),
     os_insert_verified = (\<lambda>k x d (s, l). let (r, s') = os_insert_verified ops k x d s in
       (r, (s', case r of Inl _ \<Rightarrow> l | Inr _ \<Rightarrow> (k, d) # l))),
     os_get = (\<lambda>i (s, l). os_get ops i s),
     os_has = (\<lambda>i (s, l). os_has ops i s)\<rparr>"

definition erases :: "('s \<times> written, 'e, 'a) action \<Rightarrow> ('s, 'e, 'a) action \<Rightarrow> bool" where
  "erases f g \<longleftrightarrow> (\<forall>s l. g s = (fst (f (s, l)), fst (snd (f (s, l)))))"

lemma erases_bind:
  assumes "erases f g" "\<And>x. erases (f' x) (g' x)"
  shows "erases (act_bind f f') (act_bind g g')"
  unfolding erases_def
proof (intro allI)
  fix s l
  obtain r s' l' where f: "f (s, l) = (r, (s', l'))" by (cases "f (s, l)") auto
  then have "g s = (r, s')" using assms(1) [unfolded erases_def, rule_format, of s l] by simp
  moreover have "g' x s' = (fst (f' x (s', l')), fst (snd (f' x (s', l'))))" for x
    using assms(2) [unfolded erases_def, rule_format, of x s' l'] .
  ultimately show "act_bind g g' s = (fst (act_bind f f' (s, l)), fst (snd (act_bind f f' (s, l))))"
    using f by (cases r) (auto simp: act_bind_def)
qed

lemma erases_simple [simp]:
  "erases (act_result r) (act_result r)"
  "erases (act_read f) (act_read g) \<longleftrightarrow> (\<forall>s l. f (s, l) = g s)"
  by (auto simp: erases_def act_result_def act_read_def)

lemma trace_load [simp]: "load_tree (trace_ops ops) i (s, l) = load_tree ops i s"
  by (simp add: load_tree_def trace_ops_def)

lemma trace_empty [simp]: "is_dir_empty (trace_ops ops) i (s, l) = is_dir_empty ops i s"
  by (simp add: is_dir_empty_def)

text \<open>A store call with its error wrapped.\<close>

definition lifted :: "('e \<Rightarrow> 'f) \<Rightarrow> ('s, 'e, 'a) action \<Rightarrow> ('s, 'f, 'a) action" where
  "lifted h f s = (case f s of (r, s) \<Rightarrow> (map_err h r, s))"

lemma insert_tree_lifted: "insert_tree ops t = lifted MStore (os_insert ops Tree (tree_encode t))"
  by (simp add: fun_eq_iff lifted_def insert_tree_def tree_insert_into_def)

lemma erases_os_insert: "erases (os_insert (trace_ops ops) k d) (os_insert ops k d)"
  by (simp add: erases_def trace_ops_def split_beta Let_def)

lemma erases_lifted: "erases f g \<Longrightarrow> erases (lifted h f) (lifted h g)"
  by (simp add: erases_def lifted_def split_beta) (metis fst_conv snd_conv)

lemma erases_insert: "erases (insert_tree (trace_ops ops) t) (insert_tree ops t)"
  unfolding insert_tree_lifted by (intro erases_lifted erases_os_insert)

lemma erases_rebuild: "erases (rebuild (trace_ops ops) es) (rebuild ops es)"
  unfolding rebuild_def by (intro erases_bind erases_simple erases_insert)

lemma trace_resolve [simp]:
  "cs \<noteq> [] \<Longrightarrow> resolve_entry (trace_ops ops) t cs (s, l) = resolve_entry ops t cs s"
proof (induction cs arbitrary: t)
  case (Cons c cs)
  then show ?case
    by (cases "find_entry c (tn_entries t)"; cases cs)
      (auto split: entry_content.splits simp: result_bind_def split: sum.splits)
qed simp

lemmas erases_rules = erases_bind erases_rebuild erases_insert

lemma erases_put_node:
  "cs \<noteq> [] \<Longrightarrow> erases (put_node (trace_ops ops) t cs e ci) (put_node ops t cs e ci)"
proof (induction cs arbitrary: t)
  case (Cons c cs)
  then show ?case
    by (auto simp: Let_def intro!: erases_rules split: option.splits entry_content.splits)
qed simp

lemma erases_remove_node: "cs \<noteq> [] \<Longrightarrow> erases (remove_node (trace_ops ops) t cs) (remove_node ops t cs)"
proof (induction cs arbitrary: t)
  case (Cons c cs)
  then show ?case by (auto simp: Let_def intro!: erases_rules)
qed simp

lemma erases_mkdir_node: "cs \<noteq> [] \<Longrightarrow> erases (mkdir_node (trace_ops ops) t cs) (mkdir_node ops t cs)"
proof (induction cs arbitrary: t)
  case (Cons c cs)
  then show ?case by (auto simp: Let_def intro!: erases_rules)
qed simp

lemma erases_rmdir_node: "cs \<noteq> [] \<Longrightarrow> erases (rmdir_node (trace_ops ops) t cs) (rmdir_node ops t cs)"
proof (induction cs arbitrary: t)
  case (Cons c cs)
  then show ?case by (auto simp: Let_def intro!: erases_rules)
qed simp

lemma erases_rename_insert:
  "cs \<noteq> [] \<Longrightarrow> erases (rename_insert (trace_ops ops) t cs e d) (rename_insert ops t cs e d)"
proof (induction cs arbitrary: t)
  case (Cons c cs)
  then show ?case
    by (auto simp: Let_def intro!: erases_rules split: option.splits entry_content.splits)
qed simp

section \<open>Runs\<close>

lemma act_bind_Inr:
  "act_bind f g s = (Inr y, s') \<longleftrightarrow> (\<exists>x s1. f s = (Inr x, s1) \<and> g x s1 = (Inr y, s'))"
  by (auto simp: act_bind_def split: prod.splits sum.splits)

text \<open>
  What a recorded run does to the store: the invariant stays, nothing is lost, new
  content comes from logged payloads, and logged payloads have content.
\<close>

definition grows ::
  "('s \<Rightarrow> bool) \<Rightarrow> ('s \<Rightarrow> content_id \<rightharpoonup> bytes) \<Rightarrow> kdf \<Rightarrow> ('s \<times> written, 'e, 'a) action \<Rightarrow> bool" where
  "grows I C dk f \<longleftrightarrow> (\<forall>s l r s' l'. I s \<longrightarrow> f (s, l) = (r, (s', l')) \<longrightarrow>
     I s' \<and> C s \<subseteq>\<^sub>m C s' \<and> set l \<subseteq> set l'
     \<and> (\<forall>i b. C s' i = Some b \<longrightarrow>
          C s i = Some b \<or> (\<exists>k. (k, b) \<in> set l' \<and> i = content_derive dk k b))
     \<and> (\<forall>k d. (k, d) \<in> set l' \<longrightarrow> (k, d) \<in> set l \<or> C s' (content_derive dk k d) \<noteq> None))"

text \<open>Every logged payload reads back from \<open>m\<close>.\<close>

definition settles :: "kdf \<Rightarrow> (content_id \<rightharpoonup> bytes) \<Rightarrow> written \<Rightarrow> bool" where
  "settles dk m l \<longleftrightarrow> (\<forall>k d. (k, d) \<in> set l \<longrightarrow> m (content_derive dk k d) = Some d)"

definition runs ::
  "('s \<Rightarrow> bool) \<Rightarrow> ('s \<Rightarrow> content_id \<rightharpoonup> bytes) \<Rightarrow> kdf \<Rightarrow> (content_id \<rightharpoonup> bytes)
    \<Rightarrow> ('s \<times> written, 'e, 'a) action \<Rightarrow> ('a \<Rightarrow> bool) \<Rightarrow> bool" where
  "runs I C dk m f P \<longleftrightarrow> (\<forall>s l x s' l'. I s \<longrightarrow> f (s, l) = (Inr x, (s', l')) \<longrightarrow>
     C s' \<subseteq>\<^sub>m m \<longrightarrow> settles dk m l' \<longrightarrow> P x)"

lemma grows_simple [simp, intro]:
  "grows I C dk (act_result r)" "grows I C dk (act_read f)"
  by (auto simp: grows_def act_result_def act_read_def)

lemma grows_lifted: "grows I C dk f \<Longrightarrow> grows I C dk (lifted h f)"
  unfolding grows_def lifted_def by (auto split: prod.splits)

lemma runs_lifted: "runs I C dk m f P \<Longrightarrow> (\<And>x. P x \<Longrightarrow> Q x) \<Longrightarrow> runs I C dk m (lifted h f) Q"
  unfolding runs_def lifted_def by (fastforce simp: result_simps split: prod.splits)

lemma growsD:
  assumes "grows I C dk f" "I s" "f (s, l) = (r, (s', l'))"
  shows "I s'" "C s \<subseteq>\<^sub>m C s'" "set l \<subseteq> set l'"
    "C s' i = Some b \<Longrightarrow> C s i = Some b \<or> (\<exists>k. (k, b) \<in> set l' \<and> i = content_derive dk k b)"
    "(k, d) \<in> set l' \<Longrightarrow> (k, d) \<in> set l \<or> C s' (content_derive dk k d) \<noteq> None"
  using assms unfolding grows_def by blast+

lemma grows_bind:
  assumes f: "grows I C dk f" and g: "\<And>x. grows I C dk (g x)"
  shows "grows I C dk (act_bind f g)"
  unfolding grows_def
proof (intro allI impI)
  fix s l r s' l'
  assume s: "I s" and run: "act_bind f g (s, l) = (r, (s', l'))"
  obtain r1 s1 l1 where 1: "f (s, l) = (r1, (s1, l1))" by (cases "f (s, l)") auto
  note F = growsD [OF f s 1]
  show "I s' \<and> C s \<subseteq>\<^sub>m C s' \<and> set l \<subseteq> set l'
     \<and> (\<forall>i b. C s' i = Some b \<longrightarrow>
          C s i = Some b \<or> (\<exists>k. (k, b) \<in> set l' \<and> i = content_derive dk k b))
     \<and> (\<forall>k d. (k, d) \<in> set l' \<longrightarrow> (k, d) \<in> set l \<or> C s' (content_derive dk k d) \<noteq> None)"
  proof (cases r1)
    case (Inl e)
    with run 1 F show ?thesis by (auto simp: act_bind_def)
  next
    case (Inr x)
    with run 1 have "g x (s1, l1) = (r, (s', l'))" by (simp add: act_bind_def)
    note G = growsD [OF g F(1) this]
    have "C s i = Some b \<or> (\<exists>k. (k, b) \<in> set l' \<and> i = content_derive dk k b)"
      if "C s' i = Some b" for i b
      using G(4) [OF that] F(4) [of i b] G(3) by blast
    moreover have "(k, d) \<in> set l \<or> C s' (content_derive dk k d) \<noteq> None" if "(k, d) \<in> set l'" for k d
      using G(5) [OF that] F(5) [of k d] map_le_present [OF G(2)] by blast
    ultimately show ?thesis using G(1) F(3) G(3) map_le_trans [OF F(2) G(2)] by blast
  qed
qed

lemma runs_bind:
  assumes "grows I C dk f" "\<And>x. grows I C dk (g x)"
    and "runs I C dk m f P" "\<And>x. P x \<Longrightarrow> runs I C dk m (g x) Q"
  shows "runs I C dk m (act_bind f g) Q"
  unfolding runs_def
proof (intro allI impI)
  fix s l y s' l'
  assume s: "I s" and run: "act_bind f g (s, l) = (Inr y, (s', l'))"
    and m: "C s' \<subseteq>\<^sub>m m" "settles dk m l'"
  from run obtain x s1 l1 where 1: "f (s, l) = (Inr x, (s1, l1))" and 2: "g x (s1, l1) = (Inr y, (s', l'))"
    unfolding act_bind_Inr by auto
  note F = growsD [OF assms(1) s 1]
  note G = growsD [OF assms(2) F(1) 2]
  have "C s1 \<subseteq>\<^sub>m m" using G(2) m(1) by (rule map_le_trans)
  moreover have "settles dk m l1" using m(2) G(3) by (auto simp: settles_def)
  ultimately have "P x" using assms(3) s 1 unfolding runs_def by blast
  from assms(4) [OF this] F(1) 2 m show "Q y" unfolding runs_def by blast
qed

lemma runs_simple:
  "(\<And>x. r = Inr x \<Longrightarrow> P x) \<Longrightarrow> runs I C dk m (act_result r) P"
  "(\<And>s l x. I s \<Longrightarrow> C s \<subseteq>\<^sub>m m \<Longrightarrow> f (s, l) = Inr x \<Longrightarrow> P x) \<Longrightarrow> runs I C dk m (act_read f) P"
  by (auto simp: runs_def act_result_def act_read_def)

text \<open>Without a collision among what was held and what was logged, everything logged reads back.\<close>

definition payloads :: "kdf \<Rightarrow> (content_id \<rightharpoonup> bytes) \<Rightarrow> (object_kind \<times> bytes) set" where
  "payloads dk m = {(k, d). m (content_derive dk k d) = Some d}"

lemma no_collision_settles:
  assumes "grows I C dk f" "I s" "f (s, []) = (r, (s', l'))"
    and scrub: "\<And>i d. C s i = Some d \<Longrightarrow> \<exists>k. i = content_derive dk k d"
    and inj: "inj_on (\<lambda>(k, d). content_derive dk k d) (payloads dk (C s) \<union> set l')"
  shows "settles dk (C s') l'"
  unfolding settles_def
proof (intro allI impI)
  fix k d
  assume kd: "(k, d) \<in> set l'"
  note F = growsD [OF assms(1-3)]
  from F(5) [OF kd] obtain b where b: "C s' (content_derive dk k d) = Some b" by auto
  obtain k' where k': "content_derive dk k' b = content_derive dk k d" "(k', b) \<in> payloads dk (C s) \<union> set l'"
    using F(4) [OF b] scrub [of "content_derive dk k d" b] by (auto simp: payloads_def)
  have "(k', b) = (k, d)"
    using k' kd by (intro inj_onD [OF inj]) auto
  with b show "C s' (content_derive dk k d) = Some d" by simp
qed

section \<open>The rebuilds\<close>

text \<open>One level of a rebuild: the new list agrees with the old one but at one name.\<close>

lemma level_view:
  assumes "from_entries es' = Inr t'" "\<And>c. find_entry c es' = (if c = h then Some e else find_entry c es)"
  shows "entries_view m (tn_entries t') [] = Some NDir"
    and "entries_view m (tn_entries t') (c # q) = (if c = h then view m (en_content e) q else entries_view m es (c # q))"
  using assms by (simp_all add: find_from_entries)

definition dirs_above :: "(component list \<Rightarrow> node option) \<Rightarrow> component list \<Rightarrow> bool" where
  "dirs_above V p \<longleftrightarrow> (\<forall>q. strict_prefix q p \<longrightarrow> V q = Some NDir)"

lemma dirs_above_simps [simp]:
  "dirs_above V [c] \<longleftrightarrow> V [] = Some NDir"
  "p \<noteq> [] \<Longrightarrow> dirs_above V (c # p) \<longleftrightarrow> V [] = Some NDir \<and> dirs_above (\<lambda>q. V (c # q)) p"
proof -
  show "dirs_above V [c] \<longleftrightarrow> V [] = Some NDir"
    by (auto simp: dirs_above_def strict_prefix_def prefix_Cons)
  show "dirs_above V (c # p) \<longleftrightarrow> V [] = Some NDir \<and> dirs_above (\<lambda>q. V (c # q)) p" if "p \<noteq> []"
  proof -
    have "strict_prefix q (c # p) \<longleftrightarrow> q = [] \<or> (\<exists>q'. q = c # q' \<and> strict_prefix q' p)" for q
      by (cases q) auto
    then show ?thesis unfolding dirs_above_def by metis
  qed
qed

lemma dir_of_Inr: "dir_of h r = Inr i \<longleftrightarrow> (\<exists>e. r = Some e \<and> en_content e = Dir i)"
  by (auto simp: dir_of_def split: option.splits entry_content.splits)

context object_store
begin

lemma grows_os_insert: "grows inv content dk (os_insert (trace_ops ops) k d)"
  unfolding grows_def
proof (intro allI impI)
  fix s l r s' l'
  assume s: "inv s" and run: "os_insert (trace_ops ops) k d (s, l) = (r, (s', l'))"
  obtain q s1 where q: "os_insert ops k d s = (q, s1)" by force
  show "inv s' \<and> content s \<subseteq>\<^sub>m content s' \<and> set l \<subseteq> set l'
     \<and> (\<forall>i b. content s' i = Some b \<longrightarrow>
          content s i = Some b \<or> (\<exists>k. (k, b) \<in> set l' \<and> i = content_derive dk k b))
     \<and> (\<forall>k d. (k, d) \<in> set l' \<longrightarrow> (k, d) \<in> set l \<or> content s' (content_derive dk k d) \<noteq> None)"
  proof (cases q)
    case (Inl e)
    with run q insert_Inl [OF s, of k d] show ?thesis by (auto simp: trace_ops_def)
  next
    case (Inr i)
    with run q have l: "s' = s1" "l' = (k, d) # l" by (auto simp: trace_ops_def)
    from insert_Inr [OF s, of k d] q Inr
    have i: "i = content_derive dk k d" "inv s1" "content s1 = or_insert i d (content s)" by auto
    then show ?thesis
      using or_insert_mono [of "content s" i d] or_insert_present [of i d "content s"]
      by (auto simp: l or_insert_def split: if_splits)
  qed
qed

lemma runs_os_insert:
  "runs inv content dk m (os_insert (trace_ops ops) k d) (\<lambda>i. i = content_derive dk k d \<and> m i = Some d)"
  unfolding runs_def
proof (intro allI impI)
  fix s l i s' l'
  assume s: "inv s" and run: "os_insert (trace_ops ops) k d (s, l) = (Inr i, (s', l'))" and st: "settles dk m l'"
  obtain q s1 where q: "os_insert ops k d s = (q, s1)" by force
  with run have "q = Inr i" "l' = (k, d) # l" by (auto simp: trace_ops_def split: sum.splits)
  moreover from calculation q insert_Inr [OF s, of k d] have "i = content_derive dk k d" by blast
  ultimately show "i = content_derive dk k d \<and> m i = Some d" using st by (simp add: settles_def)
qed

lemma grows_insert_tree: "grows inv content dk (insert_tree (trace_ops ops) t)"
  unfolding insert_tree_lifted by (intro grows_lifted grows_os_insert)

lemma runs_insert_tree:
  assumes "tree_valid t"
  shows "runs inv content dk m (insert_tree (trace_ops ops) t) (\<lambda>i. load m i = Some t)"
  unfolding insert_tree_lifted
  by (rule runs_lifted [OF runs_os_insert]) (simp add: load_def tree_decode_encode [OF assms])

lemma grows_rebuild: "grows inv content dk (rebuild (trace_ops ops) es)"
  unfolding rebuild_def by (intro grows_bind grows_simple grows_insert_tree)

lemma runs_rebuild:
  assumes "\<And>e. e \<in> set es \<Longrightarrow> entry_typed e"
  shows "runs inv content dk m (rebuild (trace_ops ops) es)
    (\<lambda>i. \<exists>t. from_entries es = Inr t \<and> tree_valid t \<and> load m i = Some t)"
  unfolding rebuild_def
proof (rule runs_bind)
  show "runs inv content dk m (act_result (map_err MTree (from_entries es)))
      (\<lambda>t. from_entries es = Inr t \<and> tree_valid t)"
    using assms from_entries_valid [of es]
    by (intro runs_simple) (auto simp: result_simps entry_typed_def component_typed_def)
  fix t assume t: "from_entries es = Inr t \<and> tree_valid t"
  then show "runs inv content dk m (insert_tree (trace_ops ops) t)
      (\<lambda>i. \<exists>t. from_entries es = Inr t \<and> tree_valid t \<and> load m i = Some t)"
    using runs_insert_tree [of t m] by (auto simp: runs_def)
qed (auto intro: grows_insert_tree)

lemma load_tree_Inr:
  assumes "inv s" "content s \<subseteq>\<^sub>m m" "load_tree ops i s = Inr t"
  shows "load m i = Some t" "tree_valid t"
proof -
  from assms(3) obtain bs where "os_get ops i s = Inr (Some bs)" "tree_decode bs = Inr t"
    by (auto simp: load_tree_def result_simps)
  with get_Inr [OF assms(1)] map_le_Some [OF assms(2)] tree_decode_sound
  show "load m i = Some t" "tree_valid t" by (auto simp: load_def)
qed

lemma runs_load:
  "runs inv content dk m (act_read (load_tree (trace_ops ops) i)) (\<lambda>t. load m i = Some t \<and> tree_valid t)"
  by (rule runs_simple) (auto dest: load_tree_Inr)

lemma runs_empty:
  "runs inv content dk m (act_read (is_dir_empty (trace_ops ops) i))
    (\<lambda>b. b \<longrightarrow> (\<forall>q. q \<noteq> [] \<longrightarrow> view m (Dir i) q = None))"
proof (rule runs_simple)
  fix s l b
  assume "inv s" "content s \<subseteq>\<^sub>m m" "is_dir_empty (trace_ops ops) i (s, l) = Inr b"
  then obtain t where "load m i = Some t" "b \<longleftrightarrow> tn_entries t = []"
    by (auto simp: is_dir_empty_def result_simps dest: load_tree_Inr)
  then show "b \<longrightarrow> (\<forall>q. q \<noteq> [] \<longrightarrow> view m (Dir i) q = None)"
    by (auto simp: view_dir neq_Nil_conv)
qed

end

end
