(* ===== verification/Wyrd_Namespace.thy ===== *)
theory Wyrd_Namespace
  imports Wyrd_Refinement
begin

text \<open>
  What each tree operation does to the namespace of a root, for any store that keeps
  the \<open>object_store\<close> contract, and the properties of the six operations on the
  in-memory store.
\<close>

section \<open>The recursive rebuilds\<close>

lemma runs_weaken: "runs I C dk m f P \<Longrightarrow> (\<And>x. P x \<Longrightarrow> Q x) \<Longrightarrow> runs I C dk m f Q"
  unfolding runs_def by blast

lemma runs_Inl [simp]: "runs I C dk m (act_result (Inl e)) P"
  by (rule runs_simple) simp

text \<open>The namespace of the root \<open>i\<close> is \<open>F\<close>; one level of a directory over its names.\<close>

definition presents :: "(content_id \<rightharpoonup> bytes) \<Rightarrow> content_id \<Rightarrow> (component list \<Rightarrow> node option) \<Rightarrow> bool" where
  "presents m i F \<longleftrightarrow> (\<exists>t. load m i = Some t \<and> entries_view m (tn_entries t) = F)"

definition level ::
  "(component list \<Rightarrow> node option) \<Rightarrow> component \<Rightarrow> (component list \<Rightarrow> node option) \<Rightarrow> component list \<Rightarrow> node option" where
  "level V c G q = (case q of [] \<Rightarrow> Some NDir | d # qs \<Rightarrow> if d = c then G qs else V (d # qs))"

definition empty_dir :: "component list \<Rightarrow> node option" where
  "empty_dir q = (if q = [] then Some NDir else None)"

lemma presents_empty: "load m d = Some tree_empty \<Longrightarrow> presents m d empty_dir"
  by (auto simp: presents_def tree_empty_def empty_dir_def entries_view_def fun_eq_iff split: list.splits)

lemma presents_view: "presents m i F \<Longrightarrow> view m (Dir i) = F"
  by (auto simp: presents_def view_dir)

lemma put_view_level: "put_view V (c # p) W = level V c (put_view (\<lambda>q. V (c # q)) p W)"
proof
  fix q show "put_view V (c # p) W q = level V c (put_view (\<lambda>q. V (c # q)) p W) q"
    by (cases q) (auto simp: level_def)
qed

lemma put_view_Nil: "put_view V [] W = W"
  by (simp add: fun_eq_iff)

lemma put_view_change: "p \<noteq> [] \<Longrightarrow> (\<And>q. q \<noteq> [] \<Longrightarrow> V q = V' q) \<Longrightarrow> put_view V p W = put_view V' p W"
  by (intro ext put_view_cong) auto

lemma remove_view_level:
  assumes "V [] = Some NDir"
  shows "remove_view V (c # p) = level V c (if p = [] then (\<lambda>q. None) else remove_view (\<lambda>q. V (c # q)) p)"
proof
  fix q show "remove_view V (c # p) q = level V c (if p = [] then (\<lambda>q. None) else remove_view (\<lambda>q. V (c # q)) p) q"
    using assms by (cases q) (auto simp: level_def)
qed

lemma entries_view_below:
  assumes "find_entry c es = Some e" "en_content e = Dir d" "load m d = Some t"
  shows "(\<lambda>q. entries_view m es (c # q)) = entries_view m (tn_entries t)"
  using assms by (simp add: view_dir)

lemma valid_entries: "tree_valid t \<Longrightarrow> e \<in> set (tn_entries t) \<Longrightarrow> entry_typed e"
  by (auto simp: tree_valid_def intro: entry_valid_typed)

lemma valid_names: "tree_valid t \<Longrightarrow> distinct (map en_name (tn_entries t))"
  by (simp add: tree_valid_def strict_sorted_iff)

lemma typed_upsert:
  "tree_valid t \<Longrightarrow> entry_typed e \<Longrightarrow> x \<in> set (upsert (tn_entries t) e) \<Longrightarrow> entry_typed x"
  using set_upsert [of "tn_entries t" e] valid_entries by blast

lemma typed_dir: "component_typed c \<Longrightarrow> entry_typed \<lparr>en_name = c, en_content = Dir d\<rparr>"
  by (simp add: entry_typed_def)

context object_store
begin

text \<open>One level: the rebuilt list differs from the old one at the name \<open>c\<close> only.\<close>

lemma runs_level:
  assumes "\<And>x. x \<in> set es' \<Longrightarrow> entry_typed x"
    and "\<And>x. find_entry x es' = (if x = c then E else find_entry x es)"
  shows "runs inv content dk m (rebuild (trace_ops ops) es')
    (\<lambda>i. presents m i (level (entries_view m es) c (\<lambda>q. Option.bind E (\<lambda>e. view m (en_content e) q))))"
proof (rule runs_weaken [OF runs_rebuild [OF assms(1)]])
  fix i assume "\<exists>t. from_entries es' = Inr t \<and> tree_valid t \<and> load m i = Some t"
  then obtain t where t: "from_entries es' = Inr t" "load m i = Some t" by blast
  have "entries_view m (tn_entries t) q
      = level (entries_view m es) c (\<lambda>q. Option.bind E (\<lambda>e. view m (en_content e) q)) q" for q
    using find_from_entries [OF t(1)] assms(2) by (cases q) (auto simp: level_def)
  with t(2) show "presents m i (level (entries_view m es) c (\<lambda>q. Option.bind E (\<lambda>e. view m (en_content e) q)))"
    by (auto simp: presents_def fun_eq_iff)
qed

text \<open>The rebuild of a parent whose child directory was replaced by one that presents \<open>G\<close>.\<close>

lemma runs_parent:
  assumes "\<And>x. x \<in> set es' \<Longrightarrow> entry_typed x" "presents m d G"
    and "\<And>x. find_entry x es' = (if x = c then Some e else find_entry x es)" "en_content e = Dir d"
  shows "runs inv content dk m (rebuild (trace_ops ops) es') (\<lambda>i. presents m i (level (entries_view m es) c G))"
proof -
  have "(\<lambda>q. Option.bind (Some e) (\<lambda>e. view m (en_content e) q)) = G"
    using presents_view [OF assms(2)] assms(4) by simp
  with runs_level [OF assms(1,3), of m] show ?thesis by simp
qed

lemma grows_put_node: "cs \<noteq> [] \<Longrightarrow> grows inv content dk (put_node (trace_ops ops) t cs e ci)"
proof (induction cs arbitrary: t)
  case (Cons c cs)
  then show ?case
    by (auto simp: Let_def intro!: grows_bind grows_rebuild split: option.splits entry_content.splits)
qed simp

lemma runs_put_child:
  assumes "tree_valid t"
  shows "runs inv content dk m
    (case find_entry c (tn_entries t) of
        Some existing \<Rightarrow> (case en_content existing of
            Dir subtree \<Rightarrow> act_read (load_tree (trace_ops ops) subtree)
          | _ \<Rightarrow> act_result (Inl (NotADirectory (as_str c))))
      | None \<Rightarrow> act_result (if ci then Inr tree_empty else Inl (NotFound (as_str c))))
    (\<lambda>child. tree_valid child
      \<and> (\<forall>q. q \<noteq> [] \<longrightarrow> entries_view m (tn_entries child) q = entries_view m (tn_entries t) (c # q))
      \<and> (ci \<or> entries_view m (tn_entries child) = (\<lambda>q. entries_view m (tn_entries t) (c # q))))"
proof (cases "find_entry c (tn_entries t)")
  case None
  have "entries_view m (tn_entries tree_empty) q = None" if "q \<noteq> []" for q
    using that by (cases q) (simp_all add: tree_empty_def)
  with None show ?thesis by (auto intro!: runs_simple simp: tree_empty_valid split: if_splits)
next
  case (Some e)
  show ?thesis
  proof (cases "en_content e")
    case (Dir d)
    have "entries_view m (tn_entries child) = (\<lambda>q. entries_view m (tn_entries t) (c # q))"
      if "load m d = Some child" for child
      using entries_view_below [OF Some Dir that] by simp
    with Some Dir show ?thesis
      by (simp del: entries_view_simps) (rule runs_weaken [OF runs_load], simp del: entries_view_simps)
  qed (use Some in \<open>auto intro!: runs_simple\<close>)
qed

lemma runs_put_node:
  assumes e: "entry_typed e"
  shows "cs \<noteq> [] \<Longrightarrow> tree_valid t \<Longrightarrow> (\<And>c. c \<in> set cs \<Longrightarrow> component_typed c) \<Longrightarrow>
    runs inv content dk m (put_node (trace_ops ops) t cs e ci)
      (\<lambda>i. en_name e = last cs \<and> (ci \<or> dirs_above (entries_view m (tn_entries t)) cs)
        \<and> presents m i (put_view (entries_view m (tn_entries t)) cs (view m (en_content e))))"
proof (induction cs arbitrary: t)
  case (Cons c cs)
  let ?V = "entries_view m (tn_entries t)"
  show ?case
  proof (cases "cs = []")
    case True
    have "runs inv content dk m (rebuild (trace_ops ops) (upsert (tn_entries t) e))
      (\<lambda>i. presents m i (put_view ?V [c] (view m (en_content e))))" if "en_name e = c"
      using runs_level [OF typed_upsert [OF Cons.prems(2) e] find_upsert, of "tn_entries t" e m] that
      by (simp add: put_view_level put_view_Nil)
    with True show ?thesis by (auto simp: Let_def intro!: runs_simple elim: runs_weaken)
  next
    case False
    let ?P = "\<lambda>child. tree_valid child \<and> (\<forall>q. q \<noteq> [] \<longrightarrow> entries_view m (tn_entries child) q = ?V (c # q))
      \<and> (ci \<or> entries_view m (tn_entries child) = (\<lambda>q. ?V (c # q)))"
    let ?W = "view m (en_content e)"
    have step: "runs inv content dk m (act_bind (put_node (trace_ops ops) child cs e ci) (\<lambda>new_subtree.
        rebuild (trace_ops ops) (upsert (tn_entries t) \<lparr>en_name = c, en_content = Dir new_subtree\<rparr>)))
      (\<lambda>i. en_name e = last (c # cs) \<and> (ci \<or> dirs_above ?V (c # cs)) \<and> presents m i (put_view ?V (c # cs) ?W))"
      if child: "?P child" for child
    proof (rule runs_bind)
      let ?Q = "\<lambda>i. en_name e = last cs \<and> (ci \<or> dirs_above (entries_view m (tn_entries child)) cs)
        \<and> presents m i (put_view (entries_view m (tn_entries child)) cs ?W)"
      show "runs inv content dk m (put_node (trace_ops ops) child cs e ci) ?Q"
        using Cons.IH [OF False] child Cons.prems(3) by simp
      fix d assume d: "?Q d"
      have "put_view (entries_view m (tn_entries child)) cs ?W = put_view (\<lambda>q. ?V (c # q)) cs ?W"
        using child False by (intro put_view_change) auto
      with d have G: "presents m d (put_view (\<lambda>q. ?V (c # q)) cs ?W)" by simp
      have "runs inv content dk m
          (rebuild (trace_ops ops) (upsert (tn_entries t) \<lparr>en_name = c, en_content = Dir d\<rparr>))
          (\<lambda>i. presents m i (level ?V c (put_view (\<lambda>q. ?V (c # q)) cs ?W)))"
        using Cons.prems(2,3) by (intro runs_parent [OF typed_upsert G]) (auto simp: find_upsert typed_dir)
      then show "runs inv content dk m
          (rebuild (trace_ops ops) (upsert (tn_entries t) \<lparr>en_name = c, en_content = Dir d\<rparr>))
          (\<lambda>i. en_name e = last (c # cs) \<and> (ci \<or> dirs_above ?V (c # cs)) \<and> presents m i (put_view ?V (c # cs) ?W))"
        using d child False by (elim runs_weaken) (auto simp: put_view_level)
    qed (use False in \<open>auto intro: grows_put_node grows_rebuild\<close>)
    have "grows inv content dk (case find_entry c (tn_entries t) of
        Some existing \<Rightarrow> (case en_content existing of
            Dir subtree \<Rightarrow> act_read (load_tree (trace_ops ops) subtree)
          | _ \<Rightarrow> act_result (Inl (NotADirectory (as_str c))))
      | None \<Rightarrow> act_result (if ci then Inr tree_empty else Inl (NotFound (as_str c))))"
      by (auto split: option.splits entry_content.splits)
    then show ?thesis
      unfolding put_node.simps Let_def if_not_P [OF False]
    proof (rule runs_bind [OF _ _ runs_put_child [OF Cons.prems(2)]])
      fix child
      show "grows inv content dk (act_bind (put_node (trace_ops ops) child cs e ci) (\<lambda>new_subtree.
          rebuild (trace_ops ops) (upsert (tn_entries t) \<lparr>en_name = c, en_content = Dir new_subtree\<rparr>)))"
        by (intro grows_bind grows_put_node [OF False] grows_rebuild)
      assume "?P child"
      then show "runs inv content dk m (act_bind (put_node (trace_ops ops) child cs e ci) (\<lambda>new_subtree.
          rebuild (trace_ops ops) (upsert (tn_entries t) \<lparr>en_name = c, en_content = Dir new_subtree\<rparr>)))
        (\<lambda>i. en_name e = last (c # cs) \<and> (ci \<or> dirs_above ?V (c # cs)) \<and> presents m i (put_view ?V (c # cs) ?W))"
        by (rule step)
    qed
  qed
qed simp

text \<open>The strict descent the other rebuilds share.\<close>

lemma runs_descend:
  fixes node :: "tree_node \<Rightarrow> ('s \<times> written, 'e mutation_error, content_id) action"
  assumes "\<And>x. r = Some x \<Longrightarrow> find_entry c (tn_entries t) = Some x"
    and "\<And>child. tree_valid child \<Longrightarrow>
      entries_view m (tn_entries child) = (\<lambda>q. entries_view m (tn_entries t) (c # q)) \<Longrightarrow>
      runs inv content dk m (node child) (\<lambda>i. R \<and> presents m i G)"
    and "\<And>child. grows inv content dk (node child)"
    and "\<And>x d y. r = Some x \<Longrightarrow> y \<in> set (es' d) \<Longrightarrow> entry_typed y"
    and "\<And>x d y. r = Some x \<Longrightarrow> find_entry y (es' d) = (if y = c then Some (E d) else find_entry y (tn_entries t))"
    and "\<And>d. en_content (E d) = Dir d"
  shows "runs inv content dk m
    (act_bind (act_result (dir_of c r)) (\<lambda>subtree.
     act_bind (act_read (load_tree (trace_ops ops) subtree)) (\<lambda>child.
     act_bind (node child) (\<lambda>d. rebuild (trace_ops ops) (es' d)))))
    (\<lambda>i. R \<and> presents m i (level (entries_view m (tn_entries t)) c G))"
proof (rule runs_bind [where P = "\<lambda>d. \<exists>x. r = Some x \<and> en_content x = Dir d"])
  fix sub assume "\<exists>x. r = Some x \<and> en_content x = Dir sub"
  then obtain x where x: "r = Some x" "en_content x = Dir sub" by blast
  show "runs inv content dk m (act_bind (act_read (load_tree (trace_ops ops) sub)) (\<lambda>child.
      act_bind (node child) (\<lambda>d. rebuild (trace_ops ops) (es' d))))
    (\<lambda>i. R \<and> presents m i (level (entries_view m (tn_entries t)) c G))"
  proof (rule runs_bind [OF _ _ runs_load])
    fix child assume child: "load m sub = Some child \<and> tree_valid child"
    have "entries_view m (tn_entries child) = (\<lambda>q. entries_view m (tn_entries t) (c # q))"
      using entries_view_below [OF assms(1) [OF x(1)] x(2)] child by simp
    with assms(2) child have node: "runs inv content dk m (node child) (\<lambda>i. R \<and> presents m i G)" by blast
    show "runs inv content dk m (act_bind (node child) (\<lambda>d. rebuild (trace_ops ops) (es' d)))
      (\<lambda>i. R \<and> presents m i (level (entries_view m (tn_entries t)) c G))"
    proof (rule runs_bind [OF assms(3) _ node])
      fix d assume d: "R \<and> presents m d G"
      have "runs inv content dk m (rebuild (trace_ops ops) (es' d))
          (\<lambda>i. presents m i (level (entries_view m (tn_entries t)) c G))"
        using assms(4-6) x d by (intro runs_parent [where d = d and e = "E d"]) auto
      with d show "runs inv content dk m (rebuild (trace_ops ops) (es' d))
          (\<lambda>i. R \<and> presents m i (level (entries_view m (tn_entries t)) c G))" by simp
    qed (rule grows_rebuild)
  qed (auto intro: grows_bind assms(3) grows_rebuild)
qed (auto intro!: grows_bind runs_simple assms(3) grows_rebuild simp: dir_of_Inr)

lemma grows_remove_node: "cs \<noteq> [] \<Longrightarrow> grows inv content dk (remove_node (trace_ops ops) t cs)"
proof (induction cs arbitrary: t)
  case (Cons c cs)
  then show ?case by (auto simp: Let_def intro!: grows_bind grows_rebuild)
qed simp

lemma grows_mkdir_node: "cs \<noteq> [] \<Longrightarrow> grows inv content dk (mkdir_node (trace_ops ops) t cs)"
proof (induction cs arbitrary: t)
  case (Cons c cs)
  then show ?case by (auto simp: Let_def intro!: grows_bind grows_rebuild grows_insert_tree)
qed simp

lemma grows_rmdir_node: "cs \<noteq> [] \<Longrightarrow> grows inv content dk (rmdir_node (trace_ops ops) t cs)"
proof (induction cs arbitrary: t)
  case (Cons c cs)
  then show ?case by (auto simp: Let_def intro!: grows_bind grows_rebuild)
qed simp

lemma grows_rename_insert: "cs \<noteq> [] \<Longrightarrow> grows inv content dk (rename_insert (trace_ops ops) t cs e d)"
proof (induction cs arbitrary: t)
  case (Cons c cs)
  then show ?case
    by (auto simp: Let_def intro!: grows_bind grows_rebuild split: option.splits entry_content.splits)
qed simp

lemma runs_position:
  "runs inv content dk m (act_result (ok_or (position P xs) e)) (\<lambda>i. position P xs = Some i)"
  by (rule runs_simple) (simp add: result_simps)

text \<open>The replacement of an index, as the parent step of a descent.\<close>

lemma runs_descend_at:
  fixes node :: "tree_node \<Rightarrow> ('s \<times> written, 'e mutation_error, content_id) action"
  assumes t: "tree_valid t" and i: "position (\<lambda>candidate. en_name candidate = c) (tn_entries t) = Some i"
    and "\<And>child. tree_valid child \<Longrightarrow>
      entries_view m (tn_entries child) = (\<lambda>q. entries_view m (tn_entries t) (c # q)) \<Longrightarrow>
      runs inv content dk m (node child) (\<lambda>i. R \<and> presents m i G)"
    and "\<And>child. grows inv content dk (node child)"
  shows "runs inv content dk m
    (act_bind (act_result (dir_of c (Some (tn_entries t ! i)))) (\<lambda>subtree.
     act_bind (act_read (load_tree (trace_ops ops) subtree)) (\<lambda>child.
     act_bind (node child) (\<lambda>d.
     rebuild (trace_ops ops) ((tn_entries t)[i := (tn_entries t ! i)\<lparr>en_content := Dir d\<rparr>])))))
    (\<lambda>i. R \<and> presents m i (level (entries_view m (tn_entries t)) c G))"
proof (rule runs_descend [where E = "\<lambda>d. (tn_entries t ! i)\<lparr>en_content := Dir d\<rparr>", OF _ assms(3,4)])
  let ?es = "tn_entries t"
  note p = position_Some [OF i]
  show "find_entry c ?es = Some x" if "Some (?es ! i) = Some x" for x using p(3) that by simp
  show "entry_typed y" if "y \<in> set (?es[i := (?es ! i)\<lparr>en_content := Dir d\<rparr>])" for d y
    using that set_update_subset_insert [of ?es i] valid_entries [OF t] nth_mem [OF p(1)]
    by (fastforce simp: entry_typed_def)
  show "find_entry y (?es[i := (?es ! i)\<lparr>en_content := Dir d\<rparr>])
      = (if y = c then Some ((?es ! i)\<lparr>en_content := Dir d\<rparr>) else find_entry y ?es)" for d y
    using find_update_at [OF valid_names [OF t] p(1), of "(?es ! i)\<lparr>en_content := Dir d\<rparr>" y] p(2) by simp
qed simp_all

lemma runs_remove_at:
  assumes t: "tree_valid t" and i: "position (\<lambda>candidate. en_name candidate = c) (tn_entries t) = Some i"
  shows "runs inv content dk m (rebuild (trace_ops ops) (remove_at i (tn_entries t)))
    (\<lambda>j. presents m j (level (entries_view m (tn_entries t)) c (\<lambda>q. None)))"
proof -
  let ?es = "tn_entries t"
  note p = position_Some [OF i]
  have "entry_typed x" if "x \<in> set (remove_at i ?es)" for x
    using that valid_entries [OF t] by (auto simp: remove_at_def dest: in_set_takeD in_set_dropD)
  moreover have "find_entry x (remove_at i ?es) = (if x = c then None else find_entry x ?es)" for x
    using find_remove_at [OF valid_names [OF t] p(1)] p(2) by simp
  ultimately show ?thesis using runs_level [of "remove_at i ?es" c None ?es m] by simp
qed

lemma runs_remove_node:
  "cs \<noteq> [] \<Longrightarrow> tree_valid t \<Longrightarrow>
   runs inv content dk m (remove_node (trace_ops ops) t cs)
     (\<lambda>i. entries_view m (tn_entries t) cs \<noteq> None
       \<and> presents m i (remove_view (entries_view m (tn_entries t)) cs))"
proof (induction cs arbitrary: t)
  case (Cons c cs)
  let ?es = "tn_entries t" and ?V = "entries_view m (tn_entries t)"
  show ?case
    unfolding remove_node.simps Let_def
  proof (rule runs_bind [OF _ _ runs_position])
    fix i assume i: "position (\<lambda>candidate. en_name candidate = c) ?es = Some i"
    show "runs inv content dk m
      (if cs = [] then rebuild (trace_ops ops) (remove_at i ?es)
       else act_bind (act_result (dir_of c (Some (?es ! i)))) (\<lambda>subtree.
         act_bind (act_read (load_tree (trace_ops ops) subtree)) (\<lambda>child.
         act_bind (remove_node (trace_ops ops) child cs) (\<lambda>new_subtree.
         rebuild (trace_ops ops) (?es[i := (?es ! i)\<lparr>en_content := Dir new_subtree\<rparr>])))))
      (\<lambda>j. ?V (c # cs) \<noteq> None \<and> presents m j (remove_view ?V (c # cs)))"
    proof (cases "cs = []")
      case True
      with runs_remove_at [OF Cons.prems(2) i, of m] position_Some(3) [OF i] show ?thesis
        by (simp add: remove_view_level)
    next
      case False
      have "runs inv content dk m (act_bind (act_result (dir_of c (Some (?es ! i)))) (\<lambda>subtree.
         act_bind (act_read (load_tree (trace_ops ops) subtree)) (\<lambda>child.
         act_bind (remove_node (trace_ops ops) child cs) (\<lambda>new_subtree.
         rebuild (trace_ops ops) (?es[i := (?es ! i)\<lparr>en_content := Dir new_subtree\<rparr>])))))
        (\<lambda>j. ?V (c # cs) \<noteq> None \<and> presents m j (level ?V c (remove_view (\<lambda>q. ?V (c # q)) cs)))"
      proof (rule runs_descend_at [OF Cons.prems(2) i _ grows_remove_node [OF False]])
        fix child assume child: "tree_valid child" and e: "entries_view m (tn_entries child) = (\<lambda>q. ?V (c # q))"
        show "runs inv content dk m (remove_node (trace_ops ops) child cs)
            (\<lambda>j. ?V (c # cs) \<noteq> None \<and> presents m j (remove_view (\<lambda>q. ?V (c # q)) cs))"
          using Cons.IH [OF False child] unfolding e append_Cons .
      qed
      then show ?thesis using False by (simp only: if_False remove_view_level entries_view_simps)
    qed
  qed (auto intro!: grows_bind grows_rebuild grows_remove_node)
qed simp

lemma runs_rmdir_node:
  "cs \<noteq> [] \<Longrightarrow> tree_valid t \<Longrightarrow>
   runs inv content dk m (rmdir_node (trace_ops ops) t cs)
     (\<lambda>i. (entries_view m (tn_entries t) cs = Some NDir
         \<and> (\<forall>q. q \<noteq> [] \<longrightarrow> entries_view m (tn_entries t) (cs @ q) = None))
       \<and> presents m i (remove_view (entries_view m (tn_entries t)) cs))"
proof (induction cs arbitrary: t)
  case (Cons c cs)
  let ?es = "tn_entries t" and ?V = "entries_view m (tn_entries t)"
  let ?R = "?V (c # cs) = Some NDir \<and> (\<forall>q. q \<noteq> [] \<longrightarrow> ?V ((c # cs) @ q) = None)"
  show ?case
    unfolding rmdir_node.simps Let_def
  proof (rule runs_bind [OF _ _ runs_position])
    fix i assume i: "position (\<lambda>candidate. en_name candidate = c) ?es = Some i"
    note p = position_Some [OF i]
    show "runs inv content dk m
      (act_bind (act_result (dir_of c (Some (?es ! i)))) (\<lambda>subtree.
       if cs = [] then
         act_bind (act_read (is_dir_empty (trace_ops ops) subtree)) (\<lambda>empty.
         if \<not> empty then act_result (Inl (DirectoryNotEmpty (as_str c)))
         else rebuild (trace_ops ops) (remove_at i ?es))
       else
         act_bind (act_read (load_tree (trace_ops ops) subtree)) (\<lambda>child.
         act_bind (rmdir_node (trace_ops ops) child cs) (\<lambda>new_subtree.
         rebuild (trace_ops ops) (?es[i := (?es ! i)\<lparr>en_content := Dir new_subtree\<rparr>])))))
      (\<lambda>j. ?R \<and> presents m j (remove_view ?V (c # cs)))"
    proof (cases "cs = []")
      case True
      have "runs inv content dk m
        (act_bind (act_result (dir_of c (Some (?es ! i)))) (\<lambda>subtree.
         act_bind (act_read (is_dir_empty (trace_ops ops) subtree)) (\<lambda>empty.
         if \<not> empty then act_result (Inl (DirectoryNotEmpty (as_str c)))
         else rebuild (trace_ops ops) (remove_at i ?es))))
        (\<lambda>j. ?R \<and> presents m j (level ?V c (\<lambda>q. None)))"
      proof (rule runs_bind [where P = "\<lambda>d. en_content (?es ! i) = Dir d"])
        fix d assume d: "en_content (?es ! i) = Dir d"
        show "runs inv content dk m (act_bind (act_read (is_dir_empty (trace_ops ops) d)) (\<lambda>empty.
            if \<not> empty then act_result (Inl (DirectoryNotEmpty (as_str c)))
            else rebuild (trace_ops ops) (remove_at i ?es)))
          (\<lambda>j. ?R \<and> presents m j (level ?V c (\<lambda>q. None)))"
        proof (rule runs_bind [OF _ _ runs_empty])
          fix b assume b: "b \<longrightarrow> (\<forall>q. q \<noteq> [] \<longrightarrow> view m (Dir d) q = None)"
          have ?R if b using b that d p(3) True by simp
          with runs_remove_at [OF Cons.prems(2) i, of m]
          show "runs inv content dk m (if \<not> b then act_result (Inl (DirectoryNotEmpty (as_str c)))
              else rebuild (trace_ops ops) (remove_at i ?es)) (\<lambda>j. ?R \<and> presents m j (level ?V c (\<lambda>q. None)))"
            by (cases b) simp_all
        qed (auto intro: grows_rebuild)
      qed (auto intro!: grows_bind grows_rebuild runs_simple simp: dir_of_Inr)
      with True show ?thesis by (simp add: remove_view_level)
    next
      case False
      have "runs inv content dk m (act_bind (act_result (dir_of c (Some (?es ! i)))) (\<lambda>subtree.
         act_bind (act_read (load_tree (trace_ops ops) subtree)) (\<lambda>child.
         act_bind (rmdir_node (trace_ops ops) child cs) (\<lambda>new_subtree.
         rebuild (trace_ops ops) (?es[i := (?es ! i)\<lparr>en_content := Dir new_subtree\<rparr>])))))
        (\<lambda>j. ?R \<and> presents m j (level ?V c (remove_view (\<lambda>q. ?V (c # q)) cs)))"
      proof (rule runs_descend_at [OF Cons.prems(2) i _ grows_rmdir_node [OF False]])
        fix child assume child: "tree_valid child" and e: "entries_view m (tn_entries child) = (\<lambda>q. ?V (c # q))"
        show "runs inv content dk m (rmdir_node (trace_ops ops) child cs)
            (\<lambda>j. ?R \<and> presents m j (remove_view (\<lambda>q. ?V (c # q)) cs))"
          using Cons.IH [OF False child] unfolding e append_Cons .
      qed
      then show ?thesis using False by (simp only: if_False remove_view_level entries_view_simps)
    qed
  qed (auto intro!: grows_bind grows_rebuild grows_rmdir_node)
qed simp

text \<open>The insertion of a directory, as the parent step of a descent.\<close>

lemma runs_descend_upsert:
  fixes node :: "tree_node \<Rightarrow> ('s \<times> written, 'e mutation_error, content_id) action"
  assumes t: "tree_valid t" and c: "component_typed c"
    and "\<And>child. tree_valid child \<Longrightarrow>
      entries_view m (tn_entries child) = (\<lambda>q. entries_view m (tn_entries t) (c # q)) \<Longrightarrow>
      runs inv content dk m (node child) (\<lambda>i. R \<and> presents m i G)"
    and "\<And>child. grows inv content dk (node child)"
  shows "runs inv content dk m
    (act_bind (act_result (dir_of c (find_entry c (tn_entries t)))) (\<lambda>subtree.
     act_bind (act_read (load_tree (trace_ops ops) subtree)) (\<lambda>child.
     act_bind (node child) (\<lambda>d.
     rebuild (trace_ops ops) (upsert (tn_entries t) \<lparr>en_name = c, en_content = Dir d\<rparr>)))))
    (\<lambda>i. R \<and> presents m i (level (entries_view m (tn_entries t)) c G))"
proof (rule runs_descend [where E = "\<lambda>d. \<lparr>en_name = c, en_content = Dir d\<rparr>", OF _ assms(3,4)])
  show "entry_typed y" if "y \<in> set (upsert (tn_entries t) \<lparr>en_name = c, en_content = Dir d\<rparr>)" for d y
    using t typed_dir [OF c] that by (rule typed_upsert)
qed (simp_all add: find_upsert)

lemma runs_mkdir_node:
  "cs \<noteq> [] \<Longrightarrow> tree_valid t \<Longrightarrow> (\<And>c. c \<in> set cs \<Longrightarrow> component_typed c) \<Longrightarrow>
   runs inv content dk m (mkdir_node (trace_ops ops) t cs)
     (\<lambda>i. (entries_view m (tn_entries t) cs = None \<and> dirs_above (entries_view m (tn_entries t)) cs)
       \<and> presents m i (put_view (entries_view m (tn_entries t)) cs empty_dir))"
proof (induction cs arbitrary: t)
  case (Cons c cs)
  let ?es = "tn_entries t" and ?V = "entries_view m (tn_entries t)"
  let ?R = "?V (c # cs) = None \<and> dirs_above ?V (c # cs)"
  show ?case
  proof (cases "cs = []")
    case True
    show ?thesis
    proof (cases "list_ex (\<lambda>candidate. en_name candidate = c) ?es")
      case False
      then have none: "find_entry c ?es = None" by (auto simp: find_None_iff list_ex_iff)
      have "runs inv content dk m (act_bind (insert_tree (trace_ops ops) tree_empty) (\<lambda>empty.
          rebuild (trace_ops ops) (?es @ [\<lparr>en_name = c, en_content = Dir empty\<rparr>])))
        (\<lambda>i. presents m i (level ?V c empty_dir))"
      proof (rule runs_bind [OF _ _ runs_insert_tree [OF tree_empty_valid]])
        fix d assume "load m d = Some tree_empty"
        then have "presents m d empty_dir" by (rule presents_empty)
        then show "runs inv content dk m (rebuild (trace_ops ops) (?es @ [\<lparr>en_name = c, en_content = Dir d\<rparr>]))
            (\<lambda>i. presents m i (level ?V c empty_dir))"
          using valid_entries [OF Cons.prems(2)] Cons.prems(3) False
          by (intro runs_parent [where d = d and e = "\<lparr>en_name = c, en_content = Dir d\<rparr>"])
            (auto simp: find_snoc typed_dir)
      qed (auto intro: grows_insert_tree grows_rebuild)
      with True False none show ?thesis by (simp add: put_view_level put_view_Nil)
    qed (use True in simp)
  next
    case False
    have "runs inv content dk m (act_bind (act_result (dir_of c (find_entry c ?es))) (\<lambda>subtree.
       act_bind (act_read (load_tree (trace_ops ops) subtree)) (\<lambda>child.
       act_bind (mkdir_node (trace_ops ops) child cs) (\<lambda>new_subtree.
       rebuild (trace_ops ops) (upsert ?es \<lparr>en_name = c, en_content = Dir new_subtree\<rparr>)))))
      (\<lambda>i. ?R \<and> presents m i (level ?V c (put_view (\<lambda>q. ?V (c # q)) cs empty_dir)))"
    proof (rule runs_descend_upsert [OF Cons.prems(2) _ _ grows_mkdir_node [OF False]])
      fix child assume child: "tree_valid child" and e: "entries_view m (tn_entries child) = (\<lambda>q. ?V (c # q))"
      have "?R \<longleftrightarrow> ?V (c # cs) = None \<and> dirs_above (\<lambda>q. ?V (c # q)) cs" using False by simp
      then show "runs inv content dk m (mkdir_node (trace_ops ops) child cs)
          (\<lambda>j. ?R \<and> presents m j (put_view (\<lambda>q. ?V (c # q)) cs empty_dir))"
        using Cons.IH [OF False child] Cons.prems(3) unfolding e by simp
    qed (use Cons.prems(3) in simp)
    then show ?thesis using False unfolding mkdir_node.simps Let_def by (simp only: if_False put_view_level)
  qed
qed simp

lemma runs_rename_insert:
  assumes e: "entry_typed e"
  shows "cs \<noteq> [] \<Longrightarrow> tree_valid t \<Longrightarrow> (\<And>c. c \<in> set cs \<Longrightarrow> component_typed c) \<Longrightarrow>
   runs inv content dk m (rename_insert (trace_ops ops) t cs e d)
     (\<lambda>i. (dirs_above (entries_view m (tn_entries t)) cs
         \<and> (entries_view m (tn_entries t) cs = Some NDir \<longrightarrow>
              d \<and> (\<forall>q. q \<noteq> [] \<longrightarrow> entries_view m (tn_entries t) (cs @ q) = None))
         \<and> (entries_view m (tn_entries t) cs \<notin> {None, Some NDir} \<longrightarrow> \<not> d))
       \<and> presents m i (put_view (entries_view m (tn_entries t)) cs (view m (en_content e))))"
proof (induction cs arbitrary: t)
  case (Cons c cs)
  let ?es = "tn_entries t" and ?V = "entries_view m (tn_entries t)" and ?W = "view m (en_content e)"
  let ?R = "\<lambda>p. (?V p = Some NDir \<longrightarrow> d \<and> (\<forall>q. q \<noteq> [] \<longrightarrow> ?V (p @ q) = None))
      \<and> (?V p \<notin> {None, Some NDir} \<longrightarrow> \<not> d)"
  show ?case
  proof (cases "cs = []")
    case True
    have up: "runs inv content dk m (rebuild (trace_ops ops) (upsert ?es e)) (\<lambda>i. presents m i (put_view ?V [c] ?W))"
      if "en_name e = c"
      using runs_level [OF typed_upsert [OF Cons.prems(2) e] find_upsert, of ?es e m] that
      by (simp add: put_view_level put_view_Nil)
    show ?thesis
    proof (cases "en_name e = c")
      case name: True
      show ?thesis
      proof (cases "find_entry c ?es")
        case None
        with True name up upsert_fresh [of e ?es] show ?thesis by simp
      next
        case (Some x)
        show ?thesis
        proof (cases "en_content x")
          case (Dir sub)
          have "runs inv content dk m (act_bind (act_read (is_dir_empty (trace_ops ops) sub)) (\<lambda>empty.
              if \<not> empty then act_result (Inl (DirectoryNotEmpty (as_str c)))
              else rebuild (trace_ops ops) (upsert ?es e)))
            (\<lambda>i. (\<forall>q. q \<noteq> [] \<longrightarrow> ?V ([c] @ q) = None) \<and> presents m i (put_view ?V [c] ?W))"
          proof (rule runs_bind [OF _ _ runs_empty])
            fix b assume b: "b \<longrightarrow> (\<forall>q. q \<noteq> [] \<longrightarrow> view m (Dir sub) q = None)"
            have "\<forall>q. q \<noteq> [] \<longrightarrow> ?V ([c] @ q) = None" if b using b that Some Dir by simp
            with up [OF name] show "runs inv content dk m
                (if \<not> b then act_result (Inl (DirectoryNotEmpty (as_str c)))
                 else rebuild (trace_ops ops) (upsert ?es e))
                (\<lambda>i. (\<forall>q. q \<noteq> [] \<longrightarrow> ?V ([c] @ q) = None) \<and> presents m i (put_view ?V [c] ?W))"
              by (cases b) simp_all
          qed (auto intro: grows_rebuild)
          with True name Some Dir show ?thesis by simp
        qed (use True name Some up in \<open>simp_all\<close>)
      qed
    qed (use True in simp)
  next
    case False
    have "runs inv content dk m (act_bind (act_result (dir_of c (find_entry c ?es))) (\<lambda>subtree.
       act_bind (act_read (load_tree (trace_ops ops) subtree)) (\<lambda>child.
       act_bind (rename_insert (trace_ops ops) child cs e d) (\<lambda>new_subtree.
       rebuild (trace_ops ops) (upsert ?es \<lparr>en_name = c, en_content = Dir new_subtree\<rparr>)))))
      (\<lambda>i. (dirs_above ?V (c # cs) \<and> ?R (c # cs)) \<and> presents m i (level ?V c (put_view (\<lambda>q. ?V (c # q)) cs ?W)))"
    proof (rule runs_descend_upsert [OF Cons.prems(2) _ _ grows_rename_insert [OF False]])
      fix child assume child: "tree_valid child" and v: "entries_view m (tn_entries child) = (\<lambda>q. ?V (c # q))"
      have "dirs_above ?V (c # cs) \<longleftrightarrow> dirs_above (\<lambda>q. ?V (c # q)) cs" using False by simp
      then show "runs inv content dk m (rename_insert (trace_ops ops) child cs e d)
          (\<lambda>j. (dirs_above ?V (c # cs) \<and> ?R (c # cs)) \<and> presents m j (put_view (\<lambda>q. ?V (c # q)) cs ?W))"
        using Cons.IH [OF False child] Cons.prems(3) unfolding v append_Cons by simp
    qed (use Cons.prems(3) in simp)
    then show ?thesis
      using False unfolding rename_insert.simps Let_def by (simp only: if_False put_view_level)
  qed
qed simp

text \<open>Resolving a path reads the namespace.\<close>

lemma resolve_entry_Inr:
  assumes "inv s" "content s \<subseteq>\<^sub>m m"
  shows "cs \<noteq> [] \<Longrightarrow> tree_valid t \<Longrightarrow> resolve_entry ops t cs s = Inr e \<Longrightarrow>
    entry_typed e \<and> (\<forall>q. entries_view m (tn_entries t) (cs @ q) = view m (en_content e) q)"
proof (induction cs arbitrary: t)
  case (Cons c cs)
  then obtain x where x: "find_entry c (tn_entries t) = Some x" by (auto simp: result_simps)
  show ?case
  proof (cases "cs = []")
    case True
    with Cons.prems x have "x = e" by simp
    with True x Cons.prems(2) show ?thesis using find_entry_Some [OF x] valid_entries by auto
  next
    case False
    with Cons.prems(3) x obtain d child where d: "en_content x = Dir d" "load_tree ops d s = Inr child"
      "resolve_entry ops child cs s = Inr e"
      by (auto simp: result_simps split: entry_content.splits)
    note l = load_tree_Inr [OF assms d(2)]
    from Cons.IH [OF False l(2) d(3)] x d(1) l(1) show ?thesis by (simp add: view_dir)
  qed
qed simp

end

end
