(* ===== verification/Wyrd_Operations.thy ===== *)
theory Wyrd_Operations
  imports Wyrd_Namespace
begin

text \<open>
  The operations of \<open>crates/wyrd-format/src/mutation.rs\<close> on a whole root, as updates of
  the namespace the root presents: \<open>put\<close>, \<open>put_strict\<close>, \<open>remove\<close>, \<open>mkdir\<close>, \<open>rmdir\<close> and
  \<open>rename\<close>, first over any object store and then on the in-memory one.
\<close>

section \<open>From rebuilds to operations\<close>

lemma act_bind_result [simp]:
  "act_bind (act_result (Inl e)) f = act_result (Inl e)"
  "act_bind (act_result (Inr x)) f = f x"
  by (simp_all add: fun_eq_iff act_bind_def act_result_def)

lemma split_on_snoc: "split_on c (bs @ [c]) = split_on c bs @ [[]]"
  by (induction bs) (auto split: list.splits)

text \<open>The operands of a rename, with one trailing slash set aside.\<close>

lemma stripped_typed:
  assumes "utf8_valid path" "parse_path (fst (split_trailing_slash path)) = Inr cs" "c \<in> set cs"
  shows "component_typed c"
proof -
  have "set (split_on 0x2F (fst (split_trailing_slash path))) \<subseteq> set (split_on 0x2F path)"
    by (cases path rule: rev_cases) (auto simp: split_trailing_slash_def split_on_snoc)
  then show ?thesis using parse_path_typed [OF assms(2) assms(1)] assms(3) by blast
qed

text \<open>Whatever is below a node, the node is a directory.\<close>

lemma view_prefix: "view m c p \<noteq> None \<Longrightarrow> strict_prefix q p \<Longrightarrow> view m c q = Some NDir"
proof (induction m c p arbitrary: q rule: view.induct)
  case (2 m c d ds)
  then obtain sub where c: "c = Dir sub" by (cases c) auto
  show ?case
  proof (cases q)
    case Nil
    with c show ?thesis by simp
  next
    case (Cons x xs)
    with 2(3) have x: "x = d" "strict_prefix xs ds" by auto
    from 2(2) c obtain t e where t: "load m sub = Some t" "find_entry d (tn_entries t) = Some e"
      "view m (en_content e) ds \<noteq> None" by (auto simp: bind_eq_Some_conv)
    from 2(1) [OF c, of t e xs] t x Cons c show ?thesis by simp
  qed
qed simp

text \<open>
  From a recorded run to the plain one: if no two payloads among those held and
  those written collide, what holds of the recorded run against the final content
  holds of the plain run.
\<close>

definition collision_free :: "kdf \<Rightarrow> (content_id \<rightharpoonup> bytes) \<Rightarrow> ('s \<times> written, 'e, 'a) action \<Rightarrow> 's \<Rightarrow> bool" where
  "collision_free dk m f s \<longleftrightarrow>
     inj_on (\<lambda>(k, d). content_derive dk k d) (payloads dk m \<union> set (snd (snd (f (s, [])))))"

context object_store
begin

lemma plain_keeps:
  assumes "grows inv content dk f" "erases f g" "inv s" "g s = (r, s')"
  shows "inv s' \<and> content s \<subseteq>\<^sub>m content s'"
proof -
  obtain r1 s1 l where f: "f (s, []) = (r1, (s1, l))" by (cases "f (s, [])") auto
  then have "s1 = s'" using assms(2,4) unfolding erases_def by (metis fst_conv prod.inject snd_conv)
  with growsD [OF assms(1,3) f] show ?thesis by blast
qed

lemma plain_run:
  assumes "grows inv content dk f" "erases f g" "runs inv content dk (content s') f P"
    and "inv s" "g s = (Inr x, s')" "collision_free dk (content s) f s"
  shows "P x"
proof -
  obtain r s1 l where f: "f (s, []) = (r, (s1, l))" by (cases "f (s, [])") auto
  then have "r = Inr x" "s1 = s'" using assms(2,5) unfolding erases_def by (metis fst_conv prod.inject snd_conv)+
  with f have f: "f (s, []) = (Inr x, (s', l))" by simp
  have "settles dk (content s') l"
    using assms(1,4) f scrub [OF assms(4)] assms(6) unfolding collision_free_def
    by (intro no_collision_settles [of inv content dk f s "Inr x" s' l]) simp_all
  with assms(3,4) f show "P x" unfolding runs_def using map_le_refl by blast
qed

text \<open>An operation that parses one path, loads the root and rebuilds along the path.\<close>

lemma runs_root:
  assumes "\<And>cs t. cs \<noteq> [] \<Longrightarrow> grows inv content dk (node t cs)"
    and "\<And>cs t. parse_path path = Inr cs \<Longrightarrow> cs \<noteq> [] \<Longrightarrow> tree_valid t \<Longrightarrow>
      runs inv content dk m (node t cs) (\<lambda>i. R (entries_view m (tn_entries t)) cs \<and> presents m i (F (entries_view m (tn_entries t)) cs))"
  shows "runs inv content dk m (act_bind (act_result (map_err MPath (parse_path path))) (\<lambda>cs.
    act_bind (act_read (load_tree (trace_ops ops) root)) (\<lambda>t. node t cs)))
    (\<lambda>i. \<exists>cs. parse_path path = Inr cs \<and> R (view m (Dir root)) cs \<and> view m (Dir i) = F (view m (Dir root)) cs)"
proof (cases "parse_path path")
  case (Inr cs)
  note ne = parse_path_Inr(1) [OF Inr]
  have "runs inv content dk m (act_bind (act_read (load_tree (trace_ops ops) root)) (\<lambda>t. node t cs))
      (\<lambda>i. R (view m (Dir root)) cs \<and> view m (Dir i) = F (view m (Dir root)) cs)"
  proof (rule runs_bind [OF _ _ runs_load])
    fix t assume t: "load m root = Some t \<and> tree_valid t"
    then show "runs inv content dk m (node t cs)
        (\<lambda>i. R (view m (Dir root)) cs \<and> view m (Dir i) = F (view m (Dir root)) cs)"
      using assms(2) [OF Inr ne, of t] by (auto elim!: runs_weaken intro: presents_view simp: view_dir)
  qed (auto intro: assms(1) [OF ne])
  then show ?thesis by (simp add: Inr)
qed simp

lemma grows_root:
  assumes "\<And>cs t. cs \<noteq> [] \<Longrightarrow> grows inv content dk (node t cs)"
  shows "grows inv content dk (act_bind (act_result (map_err MPath (parse_path path))) (\<lambda>cs.
    act_bind (act_read (load_tree (trace_ops ops) root)) (\<lambda>t. node t cs)))"
  by (cases "parse_path path") (auto intro!: grows_bind assms parse_path_Inr(1))

end

lemma erases_root:
  assumes "\<And>cs t. cs \<noteq> [] \<Longrightarrow> erases (node' t cs) (node t cs)"
  shows "erases (act_bind (act_result (map_err MPath (parse_path path))) (\<lambda>cs.
      act_bind (act_read (load_tree (trace_ops ops) root)) (\<lambda>t. node' t cs)))
    (act_bind (act_result (map_err MPath (parse_path path))) (\<lambda>cs.
      act_bind (act_read (load_tree ops root)) (\<lambda>t. node t cs)))"
  by (cases "parse_path path") (auto intro!: erases_bind assms parse_path_Inr(1))

lemma erases_operations:
  "erases (put_with ci (trace_ops ops) root path e) (put_with ci ops root path e)"
  "erases (remove (trace_ops ops) root path) (remove ops root path)"
  "erases (mkdir (trace_ops ops) root path) (mkdir ops root path)"
  "erases (rmdir (trace_ops ops) root path) (rmdir ops root path)"
  unfolding put_with_def remove_def mkdir_def rmdir_def
  by (intro erases_root erases_put_node erases_remove_node erases_mkdir_node erases_rmdir_node; assumption)+

context object_store
begin

lemma grows_operations:
  "grows inv content dk (put_with ci (trace_ops ops) root path e)"
  "grows inv content dk (remove (trace_ops ops) root path)"
  "grows inv content dk (mkdir (trace_ops ops) root path)"
  "grows inv content dk (rmdir (trace_ops ops) root path)"
  unfolding put_with_def remove_def mkdir_def rmdir_def
  by (intro grows_root grows_put_node grows_remove_node grows_mkdir_node grows_rmdir_node; assumption)+

lemma runs_put_with:
  assumes "utf8_valid path" "entry_typed e"
  shows "runs inv content dk m (put_with ci (trace_ops ops) root path e)
    (\<lambda>i. \<exists>p. parse_path path = Inr p \<and> (en_name e = last p \<and> (ci \<or> dirs_above (view m (Dir root)) p))
      \<and> view m (Dir i) = put_view (view m (Dir root)) p (view m (en_content e)))"
  unfolding put_with_def
  using runs_put_node [OF assms(2)] parse_path_typed [OF _ assms(1) order_refl]
  by (intro runs_root grows_put_node) auto

lemma runs_remove:
  "runs inv content dk m (remove (trace_ops ops) root path)
    (\<lambda>i. \<exists>p. parse_path path = Inr p \<and> view m (Dir root) p \<noteq> None
      \<and> view m (Dir i) = remove_view (view m (Dir root)) p)"
  unfolding remove_def by (intro runs_root grows_remove_node runs_remove_node)

lemma runs_mkdir:
  assumes "utf8_valid path"
  shows "runs inv content dk m (mkdir (trace_ops ops) root path)
    (\<lambda>i. \<exists>p. parse_path path = Inr p \<and> (view m (Dir root) p = None \<and> dirs_above (view m (Dir root)) p)
      \<and> view m (Dir i) = put_view (view m (Dir root)) p empty_dir)"
  unfolding mkdir_def
  by (intro runs_root grows_mkdir_node runs_mkdir_node parse_path_typed [OF _ assms order_refl])

lemma runs_rmdir:
  "runs inv content dk m (rmdir (trace_ops ops) root path)
    (\<lambda>i. \<exists>p. parse_path path = Inr p
      \<and> (view m (Dir root) p = Some NDir \<and> (\<forall>q. q \<noteq> [] \<longrightarrow> view m (Dir root) (p @ q) = None))
      \<and> view m (Dir i) = remove_view (view m (Dir root)) p)"
  unfolding rmdir_def by (intro runs_root grows_rmdir_node runs_rmdir_node)

end

section \<open>Rename\<close>

text \<open>What a rename does once its operands are parsed and its guards have passed.\<close>

definition rename_move ::
  "('s, 'e) store_ops \<Rightarrow> tree_node \<Rightarrow> component list \<Rightarrow> component list \<Rightarrow> tree_entry
    \<Rightarrow> ('s, 'e mutation_error, content_id) action" where
  "rename_move ops tree f t source =
    act_bind (remove_node ops tree f) (\<lambda>without_source.
    act_bind (act_read (load_tree ops without_source)) (\<lambda>dest_tree.
    rename_insert ops dest_tree t \<lparr>en_name = last t, en_content = en_content source\<rparr> (is_dir (en_content source))))"

definition rename_body ::
  "('s, 'e) store_ops \<Rightarrow> content_id \<Rightarrow> bytes \<Rightarrow> bytes \<Rightarrow> bool \<Rightarrow> bool \<Rightarrow> component list \<Rightarrow> component list
    \<Rightarrow> ('s, 'e mutation_error, content_id) action" where
  "rename_body ops root from_path to_path from_slash to_slash f t =
    act_bind (act_read (load_tree ops root)) (\<lambda>tree.
    act_bind (act_read (resolve_entry ops tree f)) (\<lambda>source.
    if from_slash \<and> \<not> is_dir (en_content source) then act_result (Inl (InvalidRename (TrailingSlashNotDir from_path)))
    else if f = t then act_result (Inr root)
    else if length t > length f \<and> take (length f) t = f
      then act_result (Inl (InvalidRename (InsideItself to_path from_path)))
    else
      act_bind
        (if to_slash then
           act_bind (act_read (resolve_entry ops tree t)) (\<lambda>dest.
           act_result (if is_dir (en_content dest) then Inr () else Inl (NotADirectory (as_str (last t)))))
         else act_result (Inr ())) (\<lambda>_. rename_move ops tree f t source)))"

lemma rename_unfold:
  "rename ops root from_path to_path =
    act_bind (act_result (map_err MPath (parse_path (fst (split_trailing_slash from_path))))) (\<lambda>f.
    act_bind (act_result (map_err MPath (parse_path (fst (split_trailing_slash to_path))))) (\<lambda>t.
    rename_body ops root (fst (split_trailing_slash from_path)) (fst (split_trailing_slash to_path))
      (snd (split_trailing_slash from_path)) (snd (split_trailing_slash to_path)) f t))"
  by (simp add: rename_def rename_body_def rename_move_def Let_def split_beta cong: if_cong)

lemma erases_rename_body:
  "f \<noteq> [] \<Longrightarrow> t \<noteq> [] \<Longrightarrow>
    erases (rename_body (trace_ops ops) root fp tp fs ts f t) (rename_body ops root fp tp fs ts f t)"
  unfolding rename_body_def rename_move_def
  by (auto intro!: erases_bind erases_remove_node erases_rename_insert)

lemma erases_rename: "erases (rename (trace_ops ops) root fp tp) (rename ops root fp tp)"
  unfolding rename_unfold
  by (cases "parse_path (fst (split_trailing_slash fp))"; cases "parse_path (fst (split_trailing_slash tp))")
    (auto intro!: erases_rename_body parse_path_Inr(1))

text \<open>The namespace after a rename, and what the destination held.\<close>

definition replaceable :: "(component list \<Rightarrow> node option) \<Rightarrow> bool \<Rightarrow> component list \<Rightarrow> bool" where
  "replaceable V d p \<longleftrightarrow> dirs_above V p
     \<and> (V p = Some NDir \<longrightarrow> d \<and> (\<forall>q. q \<noteq> [] \<longrightarrow> V (p @ q) = None))
     \<and> (V p \<notin> {None, Some NDir} \<longrightarrow> \<not> d)"

definition move_view ::
  "(component list \<Rightarrow> node option) \<Rightarrow> component list \<Rightarrow> component list \<Rightarrow> component list \<Rightarrow> node option" where
  "move_view V f t = put_view (remove_view V f) t (\<lambda>q. V (f @ q))"

definition moved :: "(component list \<Rightarrow> node option) \<Rightarrow> component list \<Rightarrow> component list \<Rightarrow> bool" where
  "moved V f t \<longleftrightarrow> V f \<noteq> None \<and> \<not> strict_prefix f t
     \<and> (f \<noteq> t \<longrightarrow> replaceable (remove_view V f) (V f = Some NDir) t)"

lemma move_view_same: "V f \<noteq> None \<Longrightarrow> dirs_above V f \<Longrightarrow> move_view V f f = V"
  by (auto simp: fun_eq_iff move_view_def put_view_def remove_view_def dirs_above_def prefix_def)

context object_store
begin

lemma grows_rename_move: "f \<noteq> [] \<Longrightarrow> t \<noteq> [] \<Longrightarrow> grows inv content dk (rename_move (trace_ops ops) tree f t source)"
  unfolding rename_move_def by (intro grows_bind grows_remove_node grows_rename_insert grows_simple)

lemma grows_rename_body: "f \<noteq> [] \<Longrightarrow> t \<noteq> [] \<Longrightarrow> grows inv content dk (rename_body (trace_ops ops) root fp tp fs ts f t)"
  unfolding rename_body_def by (auto intro!: grows_bind grows_rename_move)

lemma grows_rename: "grows inv content dk (rename (trace_ops ops) root fp tp)"
  unfolding rename_unfold
  by (cases "parse_path (fst (split_trailing_slash fp))"; cases "parse_path (fst (split_trailing_slash tp))")
    (auto intro!: grows_rename_body parse_path_Inr(1))

lemma runs_rename_move:
  assumes "f \<noteq> []" "t \<noteq> []" "tree_valid tree" "entry_typed source" "\<And>c. c \<in> set t \<Longrightarrow> component_typed c"
  shows "runs inv content dk m (rename_move (trace_ops ops) tree f t source)
    (\<lambda>i. replaceable (remove_view (entries_view m (tn_entries tree)) f) (is_dir (en_content source)) t
      \<and> presents m i (put_view (remove_view (entries_view m (tn_entries tree)) f) t (view m (en_content source))))"
  unfolding rename_move_def
proof (rule runs_bind [OF grows_remove_node _ runs_remove_node])
  let ?V = "remove_view (entries_view m (tn_entries tree)) f"
  let ?e = "\<lparr>en_name = last t, en_content = en_content source\<rparr>"
  fix i assume i: "entries_view m (tn_entries tree) f \<noteq> None \<and> presents m i ?V"
  show "runs inv content dk m (act_bind (act_read (load_tree (trace_ops ops) i)) (\<lambda>dest_tree.
      rename_insert (trace_ops ops) dest_tree t ?e (is_dir (en_content source))))
    (\<lambda>i. replaceable ?V (is_dir (en_content source)) t
      \<and> presents m i (put_view ?V t (view m (en_content source))))"
  proof (rule runs_bind [OF _ _ runs_load])
    fix d assume d: "load m i = Some d \<and> tree_valid d"
    then have V: "entries_view m (tn_entries d) = ?V" using i presents_view view_dir by metis
    have "entry_typed ?e" using assms(2,4,5) by (auto simp: entry_typed_def)
    from runs_rename_insert [OF this assms(2), of d m "is_dir (en_content source)"] d assms(5)
    show "runs inv content dk m (rename_insert (trace_ops ops) d t ?e (is_dir (en_content source)))
      (\<lambda>i. replaceable ?V (is_dir (en_content source)) t
        \<and> presents m i (put_view ?V t (view m (en_content source))))"
      unfolding V replaceable_def by simp
  qed (auto intro: grows_rename_insert [OF assms(2)])
qed (auto intro!: assms grows_bind grows_rename_insert [OF assms(2)])

lemma view_is_dir: "view m c [] = Some NDir \<longleftrightarrow> is_dir c"
  by (cases c) auto

lemma runs_rename_source:
  assumes "f \<noteq> []" "t \<noteq> []" "load m root = Some tree" "tree_valid tree" "entry_typed source"
    and "\<And>c. c \<in> set t \<Longrightarrow> component_typed c"
    and "\<And>q. entries_view m (tn_entries tree) (f @ q) = view m (en_content source) q"
  shows "runs inv content dk m
    (if fs \<and> \<not> is_dir (en_content source) then act_result (Inl e1)
     else if f = t then act_result (Inr root)
     else if length t > length f \<and> take (length f) t = f then act_result (Inl e2)
     else act_bind (if ts then act_bind (act_read (resolve_entry (trace_ops ops) tree t)) (\<lambda>dest. act_result (h dest))
         else act_result (Inr ())) (\<lambda>_. rename_move (trace_ops ops) tree f t source))
    (\<lambda>i. moved (view m (Dir root)) f t \<and> view m (Dir i) = move_view (view m (Dir root)) f t)"
    (is "runs _ _ _ _ ?act ?Q")
proof -
  let ?V = "view m (Dir root)"
  have V: "?V = entries_view m (tn_entries tree)" by (rule view_dir [OF assms(3)])
  have src: "\<And>q. ?V (f @ q) = view m (en_content source) q" unfolding V by (rule assms(7))
  have f: "?V f \<noteq> None" using src [of "[]"] by simp
  have d: "?V f = Some NDir \<longleftrightarrow> is_dir (en_content source)" using src [of "[]"] view_is_dir by simp
  have "dirs_above ?V f" using view_prefix [OF f] by (simp add: dirs_above_def)
  then have "?Q root" if "f = t" using that f move_view_same [of ?V f] by (auto simp: moved_def)
  then have same: "runs inv content dk m (act_result (Inr root)) ?Q" if "f = t" using that by (intro runs_simple) simp
  have "strict_prefix f t \<longleftrightarrow> length t > length f \<and> take (length f) t = f"
    by (auto simp: strict_prefix_def prefix_def) (metis append_take_drop_id)
  moreover have "runs inv content dk m (rename_move (trace_ops ops) tree f t source) ?Q"
    if "f \<noteq> t" "\<not> strict_prefix f t"
    using runs_rename_move [OF assms(1,2,4,5,6), where m = m] unfolding V [symmetric]
    by (rule runs_weaken) (use that f d src in \<open>auto simp: moved_def move_view_def dest!: presents_view\<close>)
  ultimately show ?thesis using same
    by (auto intro!: runs_bind [where P = "\<lambda>_. True"] grows_rename_move assms(1,2) grows_bind
        simp: runs_simple)
qed

lemma runs_rename_body:
  assumes "f \<noteq> []" "t \<noteq> []" "\<And>c. c \<in> set t \<Longrightarrow> component_typed c"
  shows "runs inv content dk m (rename_body (trace_ops ops) root fp tp fs ts f t)
    (\<lambda>i. moved (view m (Dir root)) f t \<and> view m (Dir i) = move_view (view m (Dir root)) f t)"
  unfolding rename_body_def
proof (rule runs_bind [OF _ _ runs_load], goal_cases)
  case (3 tree)
  note 1 = this
  show ?case
  proof (rule runs_bind [where P = "\<lambda>e. entry_typed e \<and>
      (\<forall>q. entries_view m (tn_entries tree) (f @ q) = view m (en_content e) q)"], goal_cases)
    case 3
    show ?case
      by (rule runs_simple) (use 1 assms(1) in \<open>simp add: resolve_entry_Inr [where t = tree]\<close>)
  next
    case (4 source)
    with 3 show ?case by (intro runs_rename_source assms) auto
  qed (auto intro!: grows_bind grows_rename_move assms(1,2))
qed (auto intro!: grows_bind grows_rename_move assms(1,2))

lemma runs_rename:
  assumes "utf8_valid to_path"
  shows "runs inv content dk m (rename (trace_ops ops) root from_path to_path)
    (\<lambda>i. \<exists>f t. parse_path (fst (split_trailing_slash from_path)) = Inr f
      \<and> parse_path (fst (split_trailing_slash to_path)) = Inr t
      \<and> moved (view m (Dir root)) f t \<and> view m (Dir i) = move_view (view m (Dir root)) f t)"
proof (cases "parse_path (fst (split_trailing_slash from_path))"; cases "parse_path (fst (split_trailing_slash to_path))")
  fix f t
  assume f: "parse_path (fst (split_trailing_slash from_path)) = Inr f"
    and t: "parse_path (fst (split_trailing_slash to_path)) = Inr t"
  from runs_rename_body [OF parse_path_Inr(1) [OF f] parse_path_Inr(1) [OF t] stripped_typed [OF assms t]]
  show ?thesis unfolding rename_unfold f t by simp
qed (simp_all add: rename_unfold)

end

end
