(* ===== verification/Wyrd_Filesystem.thy ===== *)
theory Wyrd_Filesystem
  imports Wyrd_Operations
begin

text \<open>
  The tree mutations on the in-memory store of \<open>crates/wyrd-format/src/store.rs\<close>: each
  operation that returns a root returns one whose namespace is the specified update of
  the old root's namespace, and nothing the store held before is lost.
\<close>

section \<open>A small store\<close>

text \<open>
  Four trees: the empty one, \<open>bb\<close> over it, \<open>a\<close> over that, and \<open>a\<close> over the empty one.
  The stand-in for the hash numbers their encodings.
\<close>

definition name_a :: component where "name_a = Component (ascii ''a'')"
definition name_b :: component where "name_b = Component (ascii ''bb'')"

definition dir_tree :: "component \<Rightarrow> content_id \<Rightarrow> tree_node" where
  "dir_tree c i = \<lparr>tn_entries = [\<lparr>en_name = c, en_content = Dir i\<rparr>]\<rparr>"

definition fs_tree :: "array32 \<Rightarrow> tree_node" where
  "fs_tree n =
    (if n = 1 then tree_empty else if n = 2 then dir_tree name_b (Ident 1)
     else if n = 3 then dir_tree name_a (Ident 2) else dir_tree name_a (Ident 1))"

definition fs_dk :: kdf where
  "fs_dk ctx bs =
    (if ctx \<noteq> content_context Tree then 0
     else case List.find (\<lambda>n. bs = tree_encode (fs_tree n)) [1, 2, 3, 4] of None \<Rightarrow> 0 | Some n \<Rightarrow> n)"

definition fs_store :: memory_store where
  "fs_store = \<lparr>ms_objects = fmap_of_list (map (\<lambda>n. (Ident n, (Tree, tree_encode (fs_tree n)))) [1, 2, 3, 4]),
     ms_retained = None\<rparr>"

lemma names_valid [simp]: "component_valid name_a" "component_valid name_b"
  by (simp_all add: component_valid_def name_a_def name_b_def ascii_def component_new_def U32_MAX_def)

lemma names_distinct [simp]: "name_a \<noteq> name_b" "name_b \<noteq> name_a"
  by (simp_all add: name_a_def name_b_def ascii_def)

lemma fs_tree_valid: "tree_valid (fs_tree n)"
  by (simp add: fs_tree_def dir_tree_def tree_empty_def tree_valid_def entry_valid_def U32_MAX_def)

lemma fs_encode [simp]: "tree_encode (fs_tree n) = tree_encode (fs_tree n') \<longleftrightarrow> fs_tree n = fs_tree n'"
  using tree_codec.encode_inj [OF fs_tree_valid fs_tree_valid] by auto

lemma fs_tree_distinct:
  "n \<in> {1, 2, 3, 4} \<Longrightarrow> n' \<in> {1, 2, 3, 4} \<Longrightarrow> fs_tree n = fs_tree n' \<longleftrightarrow> n = n'"
  by (auto simp: fs_tree_def dir_tree_def tree_empty_def)

lemma fs_derive: "n \<in> {1, 2, 3, 4} \<Longrightarrow> content_derive fs_dk Tree (tree_encode (fs_tree n)) = Ident n"
  by (auto simp: content_derive_def fs_dk_def fs_tree_distinct)

lemma fs_lookup: "fmlookup (ms_objects fs_store) (Ident n) =
    (if n \<in> {1, 2, 3, 4} then Some (Tree, tree_encode (fs_tree n)) else None)"
  by (simp add: fs_store_def fmlookup_of_list)

lemma fs_inv: "memory_inv fs_dk fs_store"
  unfolding memory_inv_iff
proof (intro allI impI)
  fix i k d assume a: "fmlookup (ms_objects fs_store) i = Some (k, d)"
  obtain n where i: "i = Ident n" by (cases i)
  with a have "n \<in> {1, 2, 3, 4}" "k = Tree" "d = tree_encode (fs_tree n)"
    unfolding i fs_lookup by (simp_all split: if_split_asm)
  then show "i = content_derive fs_dk k d" by (simp only: i fs_derive)
qed

lemma fs_payloads:
  "payloads fs_dk (memory_content fs_store) = (\<lambda>n. (Tree, tree_encode (fs_tree n))) ` {1, 2, 3, 4}" (is "?P = ?Q")
proof
  show "?Q \<subseteq> ?P"
    by (auto simp: payloads_def memory_content_def fs_derive fs_lookup)
  show "?P \<subseteq> ?Q"
  proof
    fix x assume "x \<in> ?P"
    then obtain k d where x: "x = (k, d)" "memory_content fs_store (content_derive fs_dk k d) = Some d"
      by (auto simp: payloads_def)
    then have n: "fs_dk (content_context k) d \<in> {1, 2, 3, 4}" "d = tree_encode (fs_tree (fs_dk (content_context k) d))"
      by (auto simp: memory_content_def content_derive_def fs_lookup split: if_splits)
    then have "content_context k = content_context Tree" by (auto simp: fs_dk_def split: if_splits)
    with n x(1) show "x \<in> ?Q" by (metis content_context_inj image_eqI)
  qed
qed

text \<open>Every operation on it that writes only these trees is free of collisions.\<close>

lemma fs_collision_free:
  assumes "set (snd (snd (f (fs_store, [])))) \<subseteq> (\<lambda>n. (Tree, tree_encode (fs_tree n))) ` {1, 2, 3, 4}"
  shows "collision_free fs_dk (memory_content fs_store) f fs_store"
proof -
  let ?Q = "(\<lambda>n. (Tree, tree_encode (fs_tree n))) ` {1, 2, 3, 4}"
  have "inj_on (\<lambda>(k, d). content_derive fs_dk k d) ?Q"
    by (rule inj_onI) (auto simp: fs_derive)
  moreover have "?Q \<union> set (snd (snd (f (fs_store, [])))) = ?Q" using assms by blast
  ultimately show ?thesis unfolding collision_free_def fs_payloads by simp
qed

lemma fs_load: "n \<in> {1, 2, 3, 4} \<Longrightarrow> load_tree (memory_ops fs_dk) (Ident n) fs_store = Inr (fs_tree n)"
  by (simp add: load_tree_def memory_ops_def memory_get_def fs_lookup result_simps tree_decode_encode [OF fs_tree_valid])

lemma fs_trace_insert:
  "n \<in> {1, 2, 3, 4} \<Longrightarrow> insert_tree (trace_ops (memory_ops fs_dk)) (fs_tree n) (fs_store, l)
    = (Inr (Ident n), (fs_store, (Tree, tree_encode (fs_tree n)) # l))"
  using memory_insert_result [of fs_dk Tree "tree_encode (fs_tree n)" fs_store]
    memory_insert_held [of fs_store fs_dk Tree "tree_encode (fs_tree n)"]
  by (cases "memory_insert fs_dk Tree (tree_encode (fs_tree n)) fs_store")
    (simp add: insert_tree_def tree_insert_into_def trace_ops_def memory_ops_def fs_derive fs_lookup result_simps)

abbreviation fs_ops :: "(memory_store \<times> written, memory_store_error) store_ops" where
  "fs_ops \<equiv> trace_ops (memory_ops fs_dk)"

abbreviation fs_log :: "array32 list \<Rightarrow> written" where
  "fs_log ns \<equiv> map (\<lambda>n. (Tree, tree_encode (fs_tree n))) ns"

lemma fs_from_entries:
  "component_valid c \<Longrightarrow> from_entries [\<lparr>en_name = c, en_content = Dir i\<rparr>] = Inr (dir_tree c i)"
  by (simp add: from_entries_def dir_tree_def component_valid_def result_simps Let_def) (simp add: U32_MAX_def)

lemma fs_rebuild:
  "rebuild fs_ops [] (fs_store, l) = (Inr (Ident 1), (fs_store, fs_log [1] @ l))"
  "rebuild fs_ops [\<lparr>en_name = name_b, en_content = Dir (Ident 1)\<rparr>] (fs_store, l) = (Inr (Ident 2), (fs_store, fs_log [2] @ l))"
  "rebuild fs_ops [\<lparr>en_name = name_a, en_content = Dir (Ident 2)\<rparr>] (fs_store, l) = (Inr (Ident 3), (fs_store, fs_log [3] @ l))"
  "rebuild fs_ops [\<lparr>en_name = name_a, en_content = Dir (Ident 1)\<rparr>] (fs_store, l) = (Inr (Ident 4), (fs_store, fs_log [4] @ l))"
  using fs_trace_insert [of 1 l] fs_trace_insert [of 2 l] fs_trace_insert [of 3 l] fs_trace_insert [of 4 l]
  by (simp_all add: rebuild_def fs_from_entries fs_tree_def result_simps)
    (simp add: from_entries_def tree_empty_def result_simps)

lemma fs_tree_load:
  "load_tree (memory_ops fs_dk) (Ident 1) fs_store = Inr \<lparr>tn_entries = []\<rparr>"
  "load_tree (memory_ops fs_dk) (Ident 2) fs_store = Inr \<lparr>tn_entries = [\<lparr>en_name = name_b, en_content = Dir (Ident 1)\<rparr>]\<rparr>"
  "load_tree (memory_ops fs_dk) (Ident 3) fs_store = Inr \<lparr>tn_entries = [\<lparr>en_name = name_a, en_content = Dir (Ident 2)\<rparr>]\<rparr>"
  "load_tree (memory_ops fs_dk) (Ident 4) fs_store = Inr \<lparr>tn_entries = [\<lparr>en_name = name_a, en_content = Dir (Ident 1)\<rparr>]\<rparr>"
  using fs_load [of 1] fs_load [of 2] fs_load [of 3] fs_load [of 4]
  by (simp_all add: fs_tree_def dir_tree_def tree_empty_def)

lemma fs_parse:
  "parse_path (ascii ''a'') = Inr [name_a]" "parse_path (ascii ''a/bb'') = Inr [name_a, name_b]"
  by (simp_all add: parse_path_def ascii_def name_a_def name_b_def component_new_def MAX_PATH_DEPTH_def result_simps)

lemma fs_stripped:
  "split_trailing_slash (ascii ''a'') = (ascii ''a'', False)"
  "split_trailing_slash (ascii ''a/bb'') = (ascii ''a/bb'', False)"
  by (simp_all add: split_trailing_slash_def ascii_def)

lemma fs_insert_empty:
  "insert_tree fs_ops tree_empty (fs_store, l) = (Inr (Ident 1), (fs_store, fs_log [1] @ l))"
  using fs_trace_insert [of 1 l] by (simp add: fs_tree_def)

lemmas fs_eval = fs_rebuild fs_stripped fs_insert_empty fs_tree_load fs_parse act_bind_def act_read_def act_result_def result_simps dir_of_def
  Let_def position_def remove_at_def is_dir_empty_def

lemma fs_remove: "remove fs_ops (Ident 3) (ascii ''a/bb'') (fs_store, []) = (Inr (Ident 4), (fs_store, fs_log [4, 1]))"
  by (simp add: remove_def fs_eval)

lemma fs_rmdir: "rmdir fs_ops (Ident 3) (ascii ''a/bb'') (fs_store, []) = (Inr (Ident 4), (fs_store, fs_log [4, 1]))"
  by (simp add: rmdir_def fs_eval)

lemma fs_mkdir: "mkdir fs_ops (Ident 4) (ascii ''a/bb'') (fs_store, []) = (Inr (Ident 3), (fs_store, fs_log [3, 2, 1]))"
  by (simp add: mkdir_def fs_eval)

lemma fs_put: "put_with ci fs_ops (Ident 4) (ascii ''a/bb'') \<lparr>en_name = name_b, en_content = Dir (Ident 1)\<rparr> (fs_store, [])
    = (Inr (Ident 3), (fs_store, fs_log [3, 2]))"
  by (simp add: put_with_def fs_eval)

lemma fs_rename: "rename fs_ops (Ident 3) (ascii ''a/bb'') (ascii ''a'') (fs_store, [])
    = (Inr (Ident 4), (fs_store, fs_log [4, 4, 1]))"
  by (simp add: rename_def fs_eval)

lemma fs_typed: "utf8_valid (ascii ''a/bb'')" "entry_typed \<lparr>en_name = name_b, en_content = Dir (Ident 1)\<rparr>"
  using entry_valid_typed [of "\<lparr>en_name = name_b, en_content = Dir (Ident 1)\<rparr>"]
  by (simp_all add: ascii_def entry_valid_def)

text \<open>An operation evaluated on the recording store, and what that says of the plain one.\<close>

lemma fs_plain:
  assumes "erases f g" "f (fs_store, []) = (r, (fs_store, fs_log ns))" "set ns \<subseteq> {1, 2, 3, 4}"
  shows "g fs_store = (r, fs_store) \<and> collision_free fs_dk (memory_content fs_store) f fs_store"
proof
  show "g fs_store = (r, fs_store)"
    using assms(1) [unfolded erases_def, rule_format, of fs_store "[]"] by (simp add: assms(2))
  show "collision_free fs_dk (memory_content fs_store) f fs_store"
    using assms(3) by (intro fs_collision_free) (auto simp: assms(2))
qed

lemmas fs_runs =
  fs_plain [OF erases_operations(1) fs_put]
  fs_plain [OF erases_operations(2) fs_remove]
  fs_plain [OF erases_operations(3) fs_mkdir]
  fs_plain [OF erases_operations(4) fs_rmdir]
  fs_plain [OF erases_rename fs_rename]

lemmas memory_keeps =
  memory.plain_keeps [OF memory.grows_operations(1) erases_operations(1)]
  memory.plain_keeps [OF memory.grows_operations(2) erases_operations(2)]
  memory.plain_keeps [OF memory.grows_operations(3) erases_operations(3)]
  memory.plain_keeps [OF memory.grows_operations(4) erases_operations(4)]
  memory.plain_keeps [OF memory.grows_rename erases_rename]

section \<open>Properties\<close>

text \<open>
  C19.  Writing through the tree mutations never loses an object: whatever the result of
  a put (creating parents or not), remove, mkdir, rmdir or rename on the in-memory store,
  a failure half-way included, every object still sits under the identifier its kind and
  bytes derive, and everything that was readable reads the same.
\<close>

theorem mutations_keep_store:
  assumes "memory_inv dk s"
    and "op \<in> {put_with create (memory_ops dk) root path entry, remove (memory_ops dk) root path,
      mkdir (memory_ops dk) root path, rmdir (memory_ops dk) root path, rename (memory_ops dk) root path to_path}"
    and "op s = (r, s')"
  shows "memory_inv dk s' \<and> memory_content s \<subseteq>\<^sub>m memory_content s'"
proof -
  from assms(2) consider "op = put_with create (memory_ops dk) root path entry" | "op = remove (memory_ops dk) root path"
    | "op = mkdir (memory_ops dk) root path" | "op = rmdir (memory_ops dk) root path"
    | "op = rename (memory_ops dk) root path to_path" by blast
  then show ?thesis
  proof cases
    case 1
    show ?thesis by (rule memory_keeps(1) [OF assms(1) assms(3) [unfolded 1]])
  next
    case 2
    show ?thesis by (rule memory_keeps(2) [OF assms(1) assms(3) [unfolded 2]])
  next
    case 3
    show ?thesis by (rule memory_keeps(3) [OF assms(1) assms(3) [unfolded 3]])
  next
    case 4
    show ?thesis by (rule memory_keeps(4) [OF assms(1) assms(3) [unfolded 4]])
  next
    case 5
    show ?thesis by (rule memory_keeps(5) [OF assms(1) assms(3) [unfolded 5]])
  qed
qed

theorem mutations_keep_store_witness:
  "memory_inv fs_dk (snd (rmdir (memory_ops fs_dk) (Ident 3) (ascii ''a/bb'') fs_store))"
  using mutations_keep_store [OF fs_inv, where op = "rmdir (memory_ops fs_dk) (Ident 3) (ascii ''a/bb'')"]
  by (metis insertCI prod.collapse)

text \<open>
  C18.  \<open>put\<close> refines the namespace update: a put that returns a root under a path of
  components \<open>p\<close> was given an entry named like the last of them, and the new root
  presents the old namespace with the entry's subtree at \<open>p\<close>, every proper prefix of
  \<open>p\<close> a directory, and all else unchanged.  The hypothesis on the hash is that no two of
  the payloads held before or written by this call share an identifier.
\<close>

theorem put_refines:
  assumes "memory_inv dk s" "utf8_valid path" "entry_typed entry"
    and "put (memory_ops dk) root path entry s = (Inr root', s')"
    and "collision_free dk (memory_content s) (put (trace_ops (memory_ops dk)) root path entry) s"
  shows "\<exists>p. parse_path path = Inr p \<and> en_name entry = last p \<and>
    view (memory_content s') (Dir root')
      = put_view (view (memory_content s') (Dir root)) p (view (memory_content s') (en_content entry))"
  using memory.plain_run [OF memory.grows_operations(1) erases_operations(1) memory.runs_put_with
      assms(1) assms(4,5) [unfolded put_def], OF assms(2,3)] by auto

theorem put_refines_witness:
  "\<exists>p. parse_path (ascii ''a/bb'') = Inr p \<and> name_b = last p \<and>
    view (memory_content fs_store) (Dir (Ident 3))
      = put_view (view (memory_content fs_store) (Dir (Ident 4))) p (view (memory_content fs_store) (Dir (Ident 1)))"
  using put_refines [OF fs_inv fs_typed, of "Ident 4" "Ident 3" fs_store] fs_runs(1) [of True]
  by (simp add: put_def)

text \<open>
  \<open>put_strict\<close> refines the same update and only succeeds when every proper prefix
  of the path already is a directory of the old namespace.
\<close>

theorem put_strict_refines:
  assumes "memory_inv dk s" "utf8_valid path" "entry_typed entry"
    and "put_strict (memory_ops dk) root path entry s = (Inr root', s')"
    and "collision_free dk (memory_content s) (put_strict (trace_ops (memory_ops dk)) root path entry) s"
  shows "\<exists>p. parse_path path = Inr p \<and> en_name entry = last p
    \<and> dirs_above (view (memory_content s') (Dir root)) p
    \<and> view (memory_content s') (Dir root')
      = put_view (view (memory_content s') (Dir root)) p (view (memory_content s') (en_content entry))"
  using memory.plain_run [OF memory.grows_operations(1) erases_operations(1) memory.runs_put_with
      assms(1) assms(4,5) [unfolded put_strict_def], OF assms(2,3)] by auto

theorem put_strict_refines_witness:
  "\<exists>p. parse_path (ascii ''a/bb'') = Inr p \<and> name_b = last p
    \<and> dirs_above (view (memory_content fs_store) (Dir (Ident 4))) p
    \<and> view (memory_content fs_store) (Dir (Ident 3))
      = put_view (view (memory_content fs_store) (Dir (Ident 4))) p (view (memory_content fs_store) (Dir (Ident 1)))"
  using put_strict_refines [OF fs_inv fs_typed, of "Ident 4" "Ident 3" fs_store] fs_runs(1) [of False]
  by (simp add: put_strict_def)

text \<open>
  \<open>remove\<close> refines dropping a subtree: a remove that returns a root was given a path
  the old namespace holds, and the new root presents the old namespace without that path
  and everything under it.
\<close>

theorem remove_refines:
  assumes "memory_inv dk s" "remove (memory_ops dk) root path s = (Inr root', s')"
    and "collision_free dk (memory_content s) (remove (trace_ops (memory_ops dk)) root path) s"
  shows "\<exists>p. parse_path path = Inr p \<and> view (memory_content s') (Dir root) p \<noteq> None
    \<and> view (memory_content s') (Dir root') = remove_view (view (memory_content s') (Dir root)) p"
  by (rule memory.plain_run [OF memory.grows_operations(2) erases_operations(2) memory.runs_remove assms])

theorem remove_refines_witness:
  "\<exists>p. parse_path (ascii ''a/bb'') = Inr p \<and> view (memory_content fs_store) (Dir (Ident 3)) p \<noteq> None
    \<and> view (memory_content fs_store) (Dir (Ident 4)) = remove_view (view (memory_content fs_store) (Dir (Ident 3))) p"
  using remove_refines [OF fs_inv, of "Ident 3" "ascii ''a/bb''" "Ident 4" fs_store] fs_runs(2) by simp

text \<open>
  \<open>mkdir\<close> refines adding an empty directory, and succeeds only where the path is
  free and its proper prefixes are directories.
\<close>

theorem mkdir_refines:
  assumes "memory_inv dk s" "utf8_valid path" "mkdir (memory_ops dk) root path s = (Inr root', s')"
    and "collision_free dk (memory_content s) (mkdir (trace_ops (memory_ops dk)) root path) s"
  shows "\<exists>p. parse_path path = Inr p
    \<and> (view (memory_content s') (Dir root) p = None \<and> dirs_above (view (memory_content s') (Dir root)) p)
    \<and> view (memory_content s') (Dir root') = put_view (view (memory_content s') (Dir root)) p empty_dir"
  by (rule memory.plain_run [OF memory.grows_operations(3) erases_operations(3) memory.runs_mkdir [OF assms(2)]
      assms(1,3,4)])

theorem mkdir_refines_witness:
  "\<exists>p. parse_path (ascii ''a/bb'') = Inr p
    \<and> (view (memory_content fs_store) (Dir (Ident 4)) p = None
      \<and> dirs_above (view (memory_content fs_store) (Dir (Ident 4))) p)
    \<and> view (memory_content fs_store) (Dir (Ident 3))
      = put_view (view (memory_content fs_store) (Dir (Ident 4))) p empty_dir"
  using mkdir_refines [OF fs_inv fs_typed(1), of "Ident 4" "Ident 3" fs_store] fs_runs(3) by simp

text \<open>
  \<open>rmdir\<close> refines dropping a directory, and succeeds only on a directory with
  nothing under it.
\<close>

theorem rmdir_refines:
  assumes "memory_inv dk s" "rmdir (memory_ops dk) root path s = (Inr root', s')"
    and "collision_free dk (memory_content s) (rmdir (trace_ops (memory_ops dk)) root path) s"
  shows "\<exists>p. parse_path path = Inr p
    \<and> (view (memory_content s') (Dir root) p = Some NDir
      \<and> (\<forall>q. q \<noteq> [] \<longrightarrow> view (memory_content s') (Dir root) (p @ q) = None))
    \<and> view (memory_content s') (Dir root') = remove_view (view (memory_content s') (Dir root)) p"
  by (rule memory.plain_run [OF memory.grows_operations(4) erases_operations(4) memory.runs_rmdir assms])

theorem rmdir_refines_witness:
  "\<exists>p. parse_path (ascii ''a/bb'') = Inr p
    \<and> (view (memory_content fs_store) (Dir (Ident 3)) p = Some NDir
      \<and> (\<forall>q. q \<noteq> [] \<longrightarrow> view (memory_content fs_store) (Dir (Ident 3)) (p @ q) = None))
    \<and> view (memory_content fs_store) (Dir (Ident 4)) = remove_view (view (memory_content fs_store) (Dir (Ident 3))) p"
  using rmdir_refines [OF fs_inv, of "Ident 3" "ascii ''a/bb''" "Ident 4" fs_store] fs_runs(4) by simp

text \<open>
  C17.  \<open>rename\<close> refines moving a subtree: a rename that returns a root was given a source
  the old namespace holds and a destination that is not inside it; the new root presents
  the old namespace with the source's subtree taken away and put at the destination.
  Unless the two are the same path, what the destination held once the source is gone
  may be replaced: nothing, an empty directory under a directory source, or a non-directory
  under a non-directory source, below directories.
\<close>

theorem rename_refines:
  assumes "memory_inv dk s" "utf8_valid to_path"
    and "rename (memory_ops dk) root from_path to_path s = (Inr root', s')"
    and "collision_free dk (memory_content s) (rename (trace_ops (memory_ops dk)) root from_path to_path) s"
  shows "\<exists>f t. parse_path (fst (split_trailing_slash from_path)) = Inr f
    \<and> parse_path (fst (split_trailing_slash to_path)) = Inr t
    \<and> moved (view (memory_content s') (Dir root)) f t
    \<and> view (memory_content s') (Dir root') = move_view (view (memory_content s') (Dir root)) f t"
  by (rule memory.plain_run [OF memory.grows_rename erases_rename memory.runs_rename [OF assms(2)] assms(1,3,4)])

theorem rename_refines_witness:
  "\<exists>f t. parse_path (fst (split_trailing_slash (ascii ''a/bb''))) = Inr f
    \<and> parse_path (fst (split_trailing_slash (ascii ''a''))) = Inr t
    \<and> moved (view (memory_content fs_store) (Dir (Ident 3))) f t
    \<and> view (memory_content fs_store) (Dir (Ident 4)) = move_view (view (memory_content fs_store) (Dir (Ident 3))) f t"
  using rename_refines [OF fs_inv, of "ascii ''a''" "Ident 3" "ascii ''a/bb''" "Ident 4" fs_store] fs_runs(5)
  by (simp add: ascii_def)

end
