(* ===== verification/Wyrd_Files.thy ===== *)
theory Wyrd_Files
  imports Wyrd_Reading Wyrd_Filesystem
begin

text \<open>
  Files end to end on the in-memory store: cut into chunks and inserted
  (\<open>crates/wyrd-format/src/chunk.rs\<close>), bound into a tree by a mutation, resolved and read
  through the drive view (\<open>crates/wyrd-fuse/src/view/drive.rs\<close>).
\<close>

section \<open>Inserting the chunks\<close>

lemma insert_each_bind:
  "insert_each ops (c # cs) =
    act_bind (os_insert ops Chunk (ck_bytes c)) (\<lambda>i. act_bind (insert_each ops cs) (\<lambda>ids. act_result (Inr (i # ids))))"
  by (simp add: fun_eq_iff act_bind_def act_result_def split: prod.splits sum.splits)

lemma insert_each_Nil: "insert_each ops [] = act_result (Inr [])"
  by (simp add: fun_eq_iff act_result_def)

lemma erases_insert_each: "erases (insert_each (trace_ops ops) cs) (insert_each ops cs)"
  by (induction cs) (auto simp: insert_each_bind insert_each_Nil simp del: insert_each.simps
      intro!: erases_bind erases_os_insert)

context object_store
begin

lemma grows_insert_each: "grows inv content dk (insert_each (trace_ops ops) cs)"
  by (induction cs) (auto simp: insert_each_bind insert_each_Nil simp del: insert_each.simps
      intro!: grows_bind grows_os_insert)

lemma runs_insert_each:
  "runs inv content dk m (insert_each (trace_ops ops) cs)
    (\<lambda>ids. list_all2 (\<lambda>i c. i = content_derive dk Chunk (ck_bytes c) \<and> m i = Some (ck_bytes c)) ids cs)"
proof (induction cs)
  case Nil
  show ?case unfolding insert_each_Nil by (rule runs_simple) simp
next
  case (Cons c cs)
  show ?case
    unfolding insert_each_bind
  proof (rule runs_bind [OF grows_os_insert _ runs_os_insert])
    fix i assume i: "i = content_derive dk Chunk (ck_bytes c) \<and> m i = Some (ck_bytes c)"
    show "runs inv content dk m (act_bind (insert_each (trace_ops ops) cs) (\<lambda>ids. act_result (Inr (i # ids))))
      (\<lambda>ids. list_all2 (\<lambda>i c. i = content_derive dk Chunk (ck_bytes c) \<and> m i = Some (ck_bytes c)) ids (c # cs))"
      by (rule runs_bind [OF grows_insert_each _ Cons.IH]) (use i in \<open>auto intro!: runs_simple\<close>)
  qed (auto intro: grows_bind grows_insert_each)
qed

end

lemma memory_insert_each: "\<exists>ids s'. insert_each (memory_ops dk) cs s = (Inr ids, s')"
proof (induction cs arbitrary: s)
  case (Cons c cs)
  obtain s1 where "memory_insert dk Chunk (ck_bytes c) s = (Inr (content_derive dk Chunk (ck_bytes c)), s1)"
    using memory_insert_result [of dk Chunk "ck_bytes c" s] by (metis prod.collapse)
  with Cons.IH [of s1] show ?case by (auto simp: memory_ops_def)
qed simp

section \<open>The view over the in-memory store\<close>

definition memory_backing :: "kdf \<Rightarrow> (memory_store, memory_store_error) backing" where
  "memory_backing dk = \<lparr>bk_ops = memory_ops dk, bk_errors = default_store_error, bk_derive = dk\<rparr>"

lemma memory_stored_bytes:
  assumes "dv_store v = shared_new s"
  shows "stored_bytes (memory_backing dk) v kind i =
    (case memory_content s i of Some bs \<Rightarrow> Inr bs | None \<Rightarrow> Inl (absent v i kind))"
  by (simp add: stored_bytes_def memory_backing_def store_read_def assms shared_new_def memory_ops_def
      memory_get_def memory_content_def split: option.splits)

lemma memory_holds_file:
  assumes "dv_store v = shared_new s"
    and "list_all2 (\<lambda>i c. i = content_derive dk Chunk (ck_bytes c) \<and> memory_content s i = Some (ck_bytes c)) ids cs"
  shows "holds_file (memory_backing dk) v ids (concat (map ck_bytes cs))"
  unfolding holds_file_def
proof (intro exI conjI)
  show "list_all2 (\<lambda>i bs. load_chunk (memory_backing dk) v i = Inr bs) ids (map ck_bytes cs)"
    using assms(2) by (auto simp: list_all2_map2 load_chunk_def memory_stored_bytes [OF assms(1)] elim: list_all2_mono)
qed simp

text \<open>Data whose cuts tile it is stored whole: the chunks concatenate to it and all read back.\<close>

lemma chunks_stored:
  assumes "memory_inv dk s" "tiles 0 (cdc data MIN_CHUNK TARGET_CHUNK MAX_CHUNK) (length data)"
    and "insert_chunks cdc dk (memory_ops dk) data s = Some (r, s')"
    and "\<And>cs. split_chunks cdc dk data = Some cs \<Longrightarrow>
      collision_free dk (memory_content s) (insert_each (trace_ops (memory_ops dk)) cs) s"
  shows "\<exists>ids (cs :: chunk list). r = Inr ids \<and> concat (map ck_bytes cs) = data \<and> memory_inv dk s'
    \<and> list_all2 (\<lambda>i c. i = content_derive dk Chunk (ck_bytes c) \<and> memory_content s' i = Some (ck_bytes c)) ids cs"
proof -
  obtain cs where cs: "split_chunks cdc dk data = Some cs" "concat (map ck_bytes cs) = data"
    using tiles_cut [OF assms(2), of dk] by (cases "data = []") (auto simp: split_chunks_def)
  obtain ids t where each: "insert_each (memory_ops dk) cs s = (Inr ids, t)" using memory_insert_each by blast
  with assms(3) cs(1) have t: "r = Inr ids" "t = s'" by (simp_all add: insert_chunks_def)
  note run = each [unfolded t(2)]
  have "list_all2 (\<lambda>i c. i = content_derive dk Chunk (ck_bytes c) \<and> memory_content s' i = Some (ck_bytes c)) ids cs"
    by (rule memory.plain_run [OF memory.grows_insert_each erases_insert_each memory.runs_insert_each
        assms(1) run assms(4) [OF cs(1)]])
  moreover have "memory_inv dk s'"
    using memory.plain_keeps [OF memory.grows_insert_each erases_insert_each assms(1) run] by (rule conjunct1)
  ultimately show ?thesis using t(1) cs(2) by blast
qed

section \<open>Resolving a path\<close>

text \<open>A path the mutations accept means the same components to the view.\<close>

lemma parse_parts_length: "parse_parts acc parts = Inr cs \<Longrightarrow> length acc \<le> MAX_PATH_DEPTH \<Longrightarrow> length cs \<le> MAX_PATH_DEPTH"
  by (induction acc parts rule: parse_parts.induct) (auto simp: result_simps Let_def split: if_splits)

lemma collect_inverse: "(\<And>y. y \<in> set ys \<Longrightarrow> f (g y) = Inr y) \<Longrightarrow> collect f (map g ys) = Inr ys"
  by (induction ys) auto

lemma view_parse_agrees:
  assumes "parse_path path = Inr p"
  shows "view_parse_path path = Inr p"
proof -
  have parts: "map as_str p = split_on 0x2F path" by (rule parse_path_Inr(2) [OF assms])
  have len: "length p \<le> MAX_PATH_DEPTH"
    using assms by (auto simp: parse_path_def intro: parse_parts_length split: if_splits)
  have "[] \<notin> set (split_on 0x2F path)"
  proof
    assume "[] \<in> set (split_on 0x2F path)"
    then obtain c where "c \<in> set p" "as_str c = []" unfolding parts [symmetric] by auto
    with parse_path_Inr(3) [OF assms] show False by (force simp: component_new_def)
  qed
  then have strip: "strip_slash path = path" "path \<noteq> []" by (auto simp: strip_slash_def split: list.splits if_splits)
  have "collect component_new (map as_str p) = Inr p"
    using collect_inverse [of p component_new as_str] parse_path_Inr(3) [OF assms] by blast
  then have "collect component_new (split_on 0x2F path) = Inr p" unfolding parts .
  with strip len show ?thesis by (simp add: view_parse_path_def Let_def)
qed

text \<open>What a resolved node shows of the namespace.\<close>

fun shown :: "drive_node \<Rightarrow> node" where
  "shown (FileNode sz x cs) = NFile sz x cs"
| "shown (SymlinkNode t) = NSymlink t"
| "shown _ = NDir"

lemma shown_leaf: "shown (leaf c) = node_of c"
  by (cases c) auto

lemma memory_load_tree:
  assumes "dv_store v = shared_new s"
  shows "view_load_tree (memory_backing dk) v i = Inr t \<longleftrightarrow> load (memory_content s) i = Some t"
  by (simp add: view_load_tree_def memory_stored_bytes [OF assms] load_def result_simps map_err_def
      split: option.splits sum.splits)

text \<open>The walk of one head refines the namespace of its root.\<close>

lemma resolve_one_refines:
  assumes v: "dv_store v = shared_new s"
  shows "resolve_one (memory_backing dk) v i p = Inr r \<Longrightarrow> view (memory_content s) (Dir i) p = map_option shown r"
proof (induction p arbitrary: i)
  case Nil
  then show ?case by (auto simp: result_simps)
next
  case (Cons c cs)
  then obtain t where t: "load (memory_content s) i = Some t"
    by (auto simp: result_simps memory_load_tree [OF v])
  then have valid: "sorted_wrt (<) (map en_name (tn_entries t))"
    using tree_decode_sound by (auto simp: load_def tree_valid_def split: option.splits sum.splits)
  have "view_load_tree (memory_backing dk) v i = Inr t" using t memory_load_tree [OF v] by blast
  with Cons t show ?case
    by (cases cs) (auto simp: view_dir tree_get_find [OF valid] split: option.splits entry_content.splits if_splits)
qed

text \<open>And it finds everything the namespace holds.\<close>

lemma resolve_one_complete:
  assumes v: "dv_store v = shared_new s"
  shows "p \<noteq> [] \<Longrightarrow> view (memory_content s) (Dir i) p = Some n \<Longrightarrow>
    \<exists>x. resolve_one (memory_backing dk) v i p = Inr (Some x)"
proof (induction p arbitrary: i)
  case (Cons c cs)
  then obtain t e where t: "load (memory_content s) i = Some t" "find_entry c (tn_entries t) = Some e"
    "view (memory_content s) (en_content e) cs = Some n" by (auto simp: bind_eq_Some_conv)
  then have valid: "sorted_wrt (<) (map en_name (tn_entries t))"
    using tree_decode_sound by (auto simp: load_def tree_valid_def split: option.splits sum.splits)
  have l: "view_load_tree (memory_backing dk) v i = Inr t" using t(1) memory_load_tree [OF v] by blast
  show ?case
  proof (cases cs)
    case Nil
    with l t(2) show ?thesis by (cases "en_content e") (simp_all add: tree_get_find [OF valid])
  next
    case (Cons d ds)
    with t(3) obtain sub where "en_content e = Dir sub" by (cases "en_content e") auto
    with l t(2,3) Cons Cons.IH [of sub] show ?thesis by (simp add: tree_get_find [OF valid])
  qed
qed simp

text \<open>A single head is served as it is.\<close>

lemma lookup_one_head:
  assumes v: "dv_store v = shared_new s" and h: "dv_heads v = [h]" and p: "parse_path path = Inr p"
    and n: "view (memory_content s) (Dir (sn_tree h)) p = Some n"
  shows "\<exists>x. lookup (memory_backing dk) v path = Inr x \<and> shown x = n"
proof -
  from resolve_one_complete [OF v parse_path_Inr(1) [OF p] n] obtain x
    where x: "resolve_one (memory_backing dk) v (sn_tree h) p = Inr (Some x)" by blast
  with resolve_one_refines [OF v x] n have "shown x = n" by simp
  moreover have "lookup_literal (memory_backing dk) v p = Inr x"
    by (simp add: lookup_literal_def h x merge_def present_in_def)
  ultimately show ?thesis by (simp add: lookup_def view_parse_agrees [OF p] h)
qed

section \<open>Writing and reading a file\<close>

lemma put_serves:
  assumes "memory_inv dk s" "utf8_valid path" "entry_typed entry"
    and "put (memory_ops dk) root path entry s = (Inr root', s')"
    and "collision_free dk (memory_content s) (put (trace_ops (memory_ops dk)) root path entry) s"
    and "dv_store v = shared_new s'" "dv_heads v = [h]" "sn_tree h = root'"
  shows "\<exists>x. lookup (memory_backing dk) v path = Inr x \<and> shown x = node_of (en_content entry)"
proof -
  obtain p where p: "parse_path path = Inr p" and view: "view (memory_content s') (Dir root')
      = put_view (view (memory_content s') (Dir root)) p (view (memory_content s') (en_content entry))"
    using memory.plain_run [OF memory.grows_operations(1) erases_operations(1) memory.runs_put_with
      assms(1) assms(4,5) [unfolded put_def], OF assms(2,3)] by auto
  have "view (memory_content s') (Dir (sn_tree h)) p = Some (node_of (en_content entry))"
    by (simp add: assms(8) view put_view_def)
  from lookup_one_head [OF assms(6,7) p this] show ?thesis .
qed

text \<open>
  C2.  A file written is the file read.  Data of less than \<open>2\<^sup>6\<^sup>4\<close> bytes is cut, its
  chunks are stored, an entry with its length and the returned identifiers is put at a path,
  and the new root is the tree of the only head of a view: looking the path up, opening the
  node and reading any range returns that range of the data.  The chunker is assumed to tile the
  data, and no two of the payloads held or written by the two calls share an identifier.
\<close>

theorem write_then_read:
  assumes "memory_inv dk s" "tiles 0 (cdc data MIN_CHUNK TARGET_CHUNK MAX_CHUNK) (length data)"
    and "length data < 2 ^ 64" "len < 2 ^ 64"
    and "insert_chunks cdc dk (memory_ops dk) data s = Some (Inr ids, s1)"
    and "\<And>cs. split_chunks cdc dk data = Some cs \<Longrightarrow>
      collision_free dk (memory_content s) (insert_each (trace_ops (memory_ops dk)) cs) s"
    and "entry = \<lparr>en_name = name, en_content = File (word_of_nat (length data)) executable ids\<rparr>"
    and "utf8_valid path" "entry_typed entry" "put (memory_ops dk) root path entry s1 = (Inr root', s2)"
    and "collision_free dk (memory_content s1) (put (trace_ops (memory_ops dk)) root path entry) s1"
    and "dv_store v = shared_new s2" "dv_heads v = [h]" "sn_tree h = root'"
  shows "result_bind (lookup (memory_backing dk) v path) (\<lambda>node. result_bind (open_node node) (\<lambda>f.
      read (memory_backing dk) v f offset len)) = Inr (take len (drop (unat offset) data))"
proof -
  obtain cs :: "chunk list" where cs: "concat (map ck_bytes cs) = data" "memory_inv dk s1"
    "list_all2 (\<lambda>i c. i = content_derive dk Chunk (ck_bytes c) \<and> memory_content s1 i = Some (ck_bytes c)) ids cs"
    using chunks_stored [OF assms(1,2,5,6)] by auto
  obtain x where x: "lookup (memory_backing dk) v path = Inr x" "shown x = node_of (en_content entry)"
    using put_serves [OF cs(2) assms(8-14)] by blast
  then have node: "x = FileNode (word_of_nat (length data)) executable ids" by (cases x) (auto simp: assms(7))
  have le: "memory_content s1 \<subseteq>\<^sub>m memory_content s2"
    using memory_keeps(1) [OF cs(2) assms(10) [unfolded put_def]] by (rule conjunct2)
  have "list_all2 (\<lambda>i c. i = content_derive dk Chunk (ck_bytes c) \<and> memory_content s2 i = Some (ck_bytes c)) ids cs"
    using cs(3) by (rule list_all2_mono) (use map_le_Some [OF le] in blast)
  from memory_holds_file [OF assms(12) this]
  have holds: "holds_file (memory_backing dk) v ids data" using cs(1) by simp
  show ?thesis
  proof (cases "len = 0")
    case False
    with read_exact_slice [of "memory_backing dk" v "\<lparr>of_chunks = ids, of_size = word_of_nat (length data)\<rparr>" data len offset]
      holds assms(3,4) show ?thesis by (simp add: x(1) node unat_u64)
  qed (simp add: x(1) node read_def)
qed

section \<open>A small file\<close>

text \<open>A stand-in for the hash that numbers a table of payloads and sends all else to zero.\<close>

definition table_dk :: "(array32 \<times> object_kind \<times> bytes) list \<Rightarrow> kdf" where
  "table_dk table ctx bs =
    (case List.find (\<lambda>(_, k, d). content_context k = ctx \<and> d = bs) table of Some (n, _) \<Rightarrow> n | None \<Rightarrow> 0)"

lemma table_dk_in: "table_dk table (content_context k) d \<noteq> 0 \<Longrightarrow> (table_dk table (content_context k) d, k, d) \<in> set table"
  by (induction table) (auto simp: table_dk_def split: if_splits)

lemma table_collision_free:
  assumes "distinct (map fst table)" "0 \<notin> fst ` set table" "m (Ident 0) = None"
    and "set (snd (snd (f (s, [])))) \<subseteq> snd ` set table"
    and "\<And>n k d. (n, k, d) \<in> set table \<Longrightarrow> table_dk table (content_context k) d = n"
  shows "collision_free (table_dk table) m f s"
  unfolding collision_free_def
proof (rule inj_on_subset)
  show "inj_on (\<lambda>(k, d). content_derive (table_dk table) k d) (snd ` set table)"
    using assms(1,5) by (auto simp: inj_on_def content_derive_def) (metis eq_key_imp_eq_value Pair_inject)+
  show "payloads (table_dk table) m \<union> set (snd (snd (f (s, [])))) \<subseteq> snd ` set table"
  proof
    fix x assume "x \<in> payloads (table_dk table) m \<union> set (snd (snd (f (s, []))))"
    then consider "x \<in> snd ` set table" | k d where "x = (k, d)" "m (content_derive (table_dk table) k d) = Some d"
      using assms(4) by (auto simp: payloads_def)
    then show "x \<in> snd ` set table"
    proof cases
      case 2
      then have "table_dk table (content_context k) d \<noteq> 0" using assms(3) by (auto simp: content_derive_def)
      with table_dk_in 2(1) show ?thesis by (metis image_eqI snd_conv)
    qed
  qed
qed

definition note_entry :: tree_entry where
  "note_entry = \<lparr>en_name = name_a, en_content = File 3 False [Ident 9]\<rparr>"

definition note_table :: "(array32 \<times> object_kind \<times> bytes) list" where
  "note_table = [(1, Tree, tree_encode tree_empty), (9, Chunk, [7, 8, 9]), (2, Tree, tree_encode \<lparr>tn_entries = [note_entry]\<rparr>)]"

abbreviation note_dk :: kdf where "note_dk \<equiv> table_dk note_table"

definition note_start :: memory_store where
  "note_start = \<lparr>ms_objects = fmupd (Ident 1) (Tree, tree_encode tree_empty) fmempty, ms_retained = None\<rparr>"

definition note_stored :: memory_store where
  "note_stored = note_start\<lparr>ms_objects := fmupd (Ident 9) (Chunk, [7, 8, 9]) (ms_objects note_start)\<rparr>"

definition note_written :: memory_store where
  "note_written = note_stored\<lparr>ms_objects :=
     fmupd (Ident 2) (Tree, tree_encode \<lparr>tn_entries = [note_entry]\<rparr>) (ms_objects note_stored)\<rparr>"

lemma note_valid: "tree_valid \<lparr>tn_entries = [note_entry]\<rparr>"
  by (simp add: tree_valid_def note_entry_def entry_valid_def U32_MAX_def)

lemma note_encodings: "tree_encode tree_empty \<noteq> tree_encode \<lparr>tn_entries = [note_entry]\<rparr>"
  using tree_codec.encode_inj [OF tree_empty_valid note_valid] by (auto simp: tree_empty_def)

lemma note_derive:
  "content_derive note_dk Tree (tree_encode tree_empty) = Ident 1"
  "content_derive note_dk Chunk [7, 8, 9] = Ident 9"
  "content_derive note_dk Tree (tree_encode \<lparr>tn_entries = [note_entry]\<rparr>) = Ident 2"
  using note_encodings by (simp_all add: content_derive_def table_dk_def note_table_def)

lemma note_pairs:
  "snd ` set note_table =
    {(Tree, tree_encode tree_empty), (Chunk, [7, 8, 9]), (Tree, tree_encode \<lparr>tn_entries = [note_entry]\<rparr>)}"
  by (simp add: note_table_def)

lemma note_zero: "memory_content note_start (Ident 0) = None" "memory_content note_stored (Ident 0) = None"
  by (simp_all add: memory_content_def note_start_def note_stored_def)

lemma note_free:
  assumes "m (Ident 0) = None" "set (snd (snd (f (s, [])))) \<subseteq> snd ` set note_table"
  shows "collision_free note_dk m f s"
proof (rule table_collision_free)
  fix n k d assume "(n, k, d) \<in> set note_table"
  then show "note_dk (content_context k) d = n" using note_derive by (auto simp: note_table_def content_derive_def)
qed (use assms in \<open>auto simp: note_table_def\<close>)

lemma note_insert:
  "insert_chunks (\<lambda>d _ _ _. [(0, length d)]) note_dk (memory_ops note_dk) [7, 8, 9] note_start = Some (Inr [Ident 9], note_stored)"
  by (simp add: insert_chunks_def split_chunks_def cut_chunk_def chunk_content_id_def subslice_def memory_ops_def
      memory_insert_def note_derive note_start_def note_stored_def Let_def)

lemma note_put:
  "put (trace_ops (memory_ops note_dk)) (Ident 1) (ascii ''a'') note_entry (note_stored, [])
    = (Inr (Ident 2), (note_written, [(Tree, tree_encode \<lparr>tn_entries = [note_entry]\<rparr>)]))"
proof -
  have load: "load_tree (memory_ops note_dk) (Ident 1) note_stored = Inr tree_empty"
    by (simp add: load_tree_def memory_ops_def memory_get_def note_stored_def note_start_def result_simps
        tree_decode_encode [OF tree_empty_valid])
  have "from_entries [note_entry] = Inr \<lparr>tn_entries = [note_entry]\<rparr>"
    by (simp add: from_entries_def note_entry_def name_a_def ascii_def result_simps Let_def U32_MAX_def)
  moreover have "insert_tree (trace_ops (memory_ops note_dk)) \<lparr>tn_entries = [note_entry]\<rparr> (note_stored, [])
      = (Inr (Ident 2), (note_written, [(Tree, tree_encode \<lparr>tn_entries = [note_entry]\<rparr>)]))"
    by (simp add: insert_tree_def tree_insert_into_def trace_ops_def memory_ops_def memory_insert_def note_derive
        note_written_def note_stored_def note_start_def Let_def)
  moreover have "en_name note_entry = name_a" by (simp add: note_entry_def)
  ultimately show ?thesis
    by (simp add: put_def put_with_def fs_parse act_bind_def act_result_def act_read_def load rebuild_def
        tree_empty_def Let_def)
qed

definition note_head :: snapshot where
  "note_head = \<lparr>sn_parents = [], sn_tree = Ident 2, sn_author = Ident 0, sn_membership = Ident 0, sn_epoch = 1,
     sn_flags = 0, sn_timestamp = 0, sn_signature = 0\<rparr>"

definition note_view :: "memory_store drive_view" where
  "note_view = \<lparr>dv_store = shared_new note_written, dv_materialization = (\<lambda>_. RemoteOnly), dv_heads = [note_head]\<rparr>"

theorem write_then_read_witness:
  "result_bind (lookup (memory_backing note_dk) note_view (ascii ''a'')) (\<lambda>node. result_bind (open_node node) (\<lambda>f.
      read (memory_backing note_dk) note_view f 1 5)) = Inr [8, 9]"
proof -
  have "result_bind (lookup (memory_backing note_dk) note_view (ascii ''a'')) (\<lambda>node. result_bind (open_node node) (\<lambda>f.
      read (memory_backing note_dk) note_view f 1 5)) = Inr (take 5 (drop (unat (1 :: u64)) [7, 8, 9]))"
  proof (rule write_then_read [where name = name_a and executable = False and h = note_head])
    show "memory_inv note_dk note_start" by (simp add: memory_inv_iff note_start_def note_derive)
    show "insert_chunks (\<lambda>d _ _ _. [(0, length d)]) note_dk (memory_ops note_dk) [7, 8, 9] note_start
        = Some (Inr [Ident 9], note_stored)" by (rule note_insert)
    show "put (memory_ops note_dk) (Ident 1) (ascii ''a'') note_entry note_stored = (Inr (Ident 2), note_written)"
      using note_put erases_operations(1) [of True "memory_ops note_dk" "Ident 1" "ascii ''a''" note_entry,
          unfolded erases_def, rule_format, of note_stored "[]"] by (simp add: put_def)
    show "collision_free note_dk (memory_content note_stored)
        (put (trace_ops (memory_ops note_dk)) (Ident 1) (ascii ''a'') note_entry) note_stored"
      by (rule note_free) (simp_all add: note_put note_pairs note_zero)
    show "entry_typed note_entry" using note_valid by (intro entry_valid_typed) (simp add: tree_valid_def)
    fix cs assume "split_chunks (\<lambda>d _ _ _. [(0, length d)]) note_dk [7, 8, 9] = Some cs"
    then have "cs = [\<lparr>ck_id = Ident 9, ck_bytes = [7, 8, 9]\<rparr>]"
      by (auto simp: split_chunks_def cut_chunk_def chunk_content_id_def note_derive subslice_def)
    then show "collision_free note_dk (memory_content note_start) (insert_each (trace_ops (memory_ops note_dk)) cs) note_start"
      by (intro note_free) (simp_all add: note_pairs note_zero trace_ops_def memory_ops_def memory_insert_def Let_def)
  qed (simp_all add: MAX_CHUNK_def note_entry_def ascii_def note_view_def note_head_def)
  then show ?thesis by simp
qed

end
