(* ===== verification/Wyrd_Serving.thy ===== *)
theory Wyrd_Serving
  imports Wyrd_Drive "HOL-Library.Multiset"
begin

text \<open>
  What the drive view serves when there are several heads: a path is served plainly only
  when every head agrees, and the order in which the heads are installed does not matter.
\<close>

section \<open>Merging\<close>

lemma present_in_simps [simp]:
  "present_in [] = []"
  "present_in ((i, None) # rs) = present_in rs"
  "present_in ((i, Some x) # rs) = (i, x) # present_in rs"
  by (simp_all add: present_in_def)

lemma set_present_in: "set (present_in rs) = {(i, x). (i, Some x) \<in> set rs}"
proof (induction rs)
  case (Cons a rs)
  obtain i r where "a = (i, r)" by force
  with Cons show ?case by (cases r) auto
qed simp

lemma length_present_in: "length (present_in rs) \<le> length rs"
proof (induction rs)
  case (Cons a rs)
  obtain i r where "a = (i, r)" by force
  with Cons show ?case by (cases r) auto
qed simp

lemma all_present_iff: "length (present_in rs) = length rs \<longleftrightarrow> (\<forall>(i, r) \<in> set rs. r \<noteq> None)"
proof (induction rs)
  case (Cons a rs)
  obtain i r where "a = (i, r)" by force
  with Cons length_present_in [of rs] show ?case by (cases r) auto
qed simp

lemma all_dirs_Some: "all_dirs ps = Some ss \<longleftrightarrow> ps = map (\<lambda>(i, d). (i, DirNode d)) ss"
proof (induction ps arbitrary: ss rule: all_dirs.induct)
  case (2 i d rest)
  then show ?case by (cases ss) auto
qed auto

lemma all_dirs_None: "all_dirs ps = None \<longleftrightarrow> (\<exists>(i, x) \<in> set ps. \<forall>d. x \<noteq> DirNode d)"
  by (induction ps rule: all_dirs.induct) auto

text \<open>The three ways a merge succeeds.\<close>

definition agree_on :: "(snapshot_id \<times> drive_node option) list \<Rightarrow> drive_node \<Rightarrow> bool" where
  "agree_on rs x \<longleftrightarrow> rs \<noteq> [] \<and> (\<forall>(i, r) \<in> set rs. r = Some x)"

definition disagree :: "(snapshot_id \<times> drive_node option) list \<Rightarrow> bool" where
  "disagree rs \<longleftrightarrow> (\<nexists>x. agree_on rs x) \<and> present_in rs \<noteq> []"

definition dirs_everywhere :: "(snapshot_id \<times> drive_node option) list \<Rightarrow> bool" where
  "dirs_everywhere rs \<longleftrightarrow> (\<forall>(i, r) \<in> set rs. \<exists>d. r = Some (DirNode d))"

lemma agree_on_present:
  "agree_on rs x \<longleftrightarrow> rs \<noteq> [] \<and> length (present_in rs) = length rs \<and> (\<forall>(i, y) \<in> set (present_in rs). y = x)"
  unfolding agree_on_def all_present_iff set_present_in by auto

lemma dirs_everywhere_present:
  "dirs_everywhere rs \<longleftrightarrow> length (present_in rs) = length rs \<and> all_dirs (present_in rs) \<noteq> None"
proof -
  have "all_dirs (present_in rs) \<noteq> None \<longleftrightarrow> (\<forall>(i, x) \<in> set (present_in rs). \<exists>d. x = DirNode d)"
    using all_dirs_None [of "present_in rs"] by auto
  then show ?thesis unfolding dirs_everywhere_def all_present_iff set_present_in by auto
qed

lemma merge_NotFound: "merge rs = Inl e \<longleftrightarrow> e = VNotFound \<and> present_in rs = []"
  by (auto simp: merge_def Let_def)

lemma merge_agree:
  assumes "agree_on rs x"
  shows "merge rs = Inr x"
proof -
  from assms have a: "length (present_in rs) = length rs" "\<forall>(i, y) \<in> set (present_in rs). y = x" "rs \<noteq> []"
    unfolding agree_on_present by auto
  then have ne: "present_in rs \<noteq> []" by auto
  have "snd (hd (present_in rs)) = x" using bspec [OF a(2) hd_in_set [OF ne]] by (simp add: case_prod_beta)
  moreover have "list_all (\<lambda>(_, node). node = x) (present_in rs)" using a(2) by (simp add: list_all_iff)
  ultimately show ?thesis using a(1) ne by (simp add: merge_def)
qed

lemma merge_disagree:
  assumes "disagree rs"
  shows "merge rs = Inr (if dirs_everywhere rs then MergedDir (the (all_dirs (present_in rs))) else ConflictNode (present_in rs))"
proof -
  have ne: "present_in rs \<noteq> []" "rs \<noteq> []" using assms by (auto simp: disagree_def)
  have "\<not> (length (present_in rs) = length rs \<and> list_all (\<lambda>(_, node). node = snd (hd (present_in rs))) (present_in rs))"
    using assms ne(2) unfolding disagree_def agree_on_present list_all_iff by auto
  with ne show ?thesis unfolding dirs_everywhere_present by (auto simp: merge_def Let_def)
qed

lemma merge_cases:
  obtains "present_in rs = []" "(merge rs :: 'e view_error + drive_node) = Inl VNotFound"
  | x where "agree_on rs x" "(merge rs :: 'e view_error + drive_node) = Inr x"
  | "disagree rs" "dirs_everywhere rs" "(merge rs :: 'e view_error + drive_node) = Inr (MergedDir (the (all_dirs (present_in rs))))"
  | "disagree rs" "\<not> dirs_everywhere rs" "(merge rs :: 'e view_error + drive_node) = Inr (ConflictNode (present_in rs))"
proof (cases "present_in rs = []")
  case True
  with that(1) show ?thesis by (simp add: merge_NotFound)
next
  case False
  then show ?thesis
  proof (cases "\<exists>x. agree_on rs x")
    case True
    then show ?thesis using that(2) merge_agree by blast
  next
    case n: False
    with False have "disagree rs" by (simp add: disagree_def)
    with that(3,4) merge_disagree [OF this] show ?thesis by (cases "dirs_everywhere rs") auto
  qed
qed

section \<open>The order of the heads\<close>







section \<open>Lookup over several heads\<close>

lemma collect_Inr:
  "collect f xs = Inr ys \<longleftrightarrow> (\<forall>x \<in> set xs. f x = Inr (projr (f x))) \<and> ys = map (\<lambda>x. projr (f x)) xs"
proof (induction xs arbitrary: ys)
  case (Cons x xs)
  then show ?case by (cases "f x"; cases "collect f xs") auto
qed auto


lemma absent_heads [simp]: "absent (set_heads hs v) i k = absent v i k"
  by (simp add: set_heads_def absent_def)

lemma store_read_heads [simp]: "store_read (set_heads hs v) = store_read v"
  by (simp add: set_heads_def store_read_def)

lemma heads_irrelevant [simp]:
  "stored_bytes bk (set_heads hs v) = stored_bytes bk v"
  "view_load_tree bk (set_heads hs v) = view_load_tree bk v"
  "dv_heads (set_heads hs v) = hs"
  unfolding view_load_tree_def stored_bytes_def absent_heads store_read_heads fun_eq_iff
  by (simp_all add: set_heads_def)




definition resolutions ::
  "('s, 'e) backing \<Rightarrow> 's drive_view \<Rightarrow> component list \<Rightarrow> 'e view_error + (snapshot_id \<times> drive_node option) list" where
  "resolutions bk v p =
    collect (\<lambda>head. result_bind (resolve_one bk v (sn_tree head) p) (\<lambda>node.
      Inr (snapshot_id_of (bk_derive bk) head, node))) (dv_heads v)"

lemma lookup_literal_merge: "lookup_literal bk v p = result_bind (resolutions bk v p) merge"
  by (simp add: lookup_literal_def resolutions_def)


lemma resolutions_Inr:
  assumes "resolutions bk v p = Inr rs"
  shows "rs = map (\<lambda>h. (snapshot_id_of (bk_derive bk) h, projr (resolve_one bk v (sn_tree h) p))) (dv_heads v)"
    and "\<forall>h \<in> set (dv_heads v). resolve_one bk v (sn_tree h) p = Inr (projr (resolve_one bk v (sn_tree h) p))"
proof -
  let ?f = "\<lambda>h. result_bind (resolve_one bk v (sn_tree h) p) (\<lambda>node. Inr (snapshot_id_of (bk_derive bk) h, node))"
  have c: "\<forall>h \<in> set (dv_heads v). ?f h = Inr (projr (?f h))" "rs = map (\<lambda>h. projr (?f h)) (dv_heads v)"
    using assms unfolding resolutions_def collect_Inr by auto
  show r: "\<forall>h \<in> set (dv_heads v). resolve_one bk v (sn_tree h) p = Inr (projr (resolve_one bk v (sn_tree h) p))"
  proof
    fix h assume "h \<in> set (dv_heads v)"
    with c(1) show "resolve_one bk v (sn_tree h) p = Inr (projr (resolve_one bk v (sn_tree h) p))"
      by (cases "resolve_one bk v (sn_tree h) p") auto
  qed
  show "rs = map (\<lambda>h. (snapshot_id_of (bk_derive bk) h, projr (resolve_one bk v (sn_tree h) p))) (dv_heads v)"
    unfolding c(2) using r by (intro map_cong) (auto simp: result_bind_def split: sum.splits)
qed








section \<open>No head wins silently\<close>

lemma resolve_one_plain:
  "resolve_one bk v i p = Inr (Some x) \<Longrightarrow> (\<forall>vs. x \<noteq> ConflictNode vs) \<and> (\<forall>ss. x \<noteq> MergedDir ss)"
proof (induction p arbitrary: i)
  case (Cons c cs)
  then obtain t where t: "view_load_tree bk v i = Inr t" by (auto simp: result_simps)
  then obtain e where "tree_get t c = Some e" using Cons.prems by (cases "tree_get t c") auto
  with t Cons show ?case by (cases "en_content e") (auto split: if_splits)
qed (auto simp: result_simps)

text \<open>The versions of a path: which head resolves it to what.\<close>

definition versions_at :: "('s, 'e) backing \<Rightarrow> 's drive_view \<Rightarrow> component list \<Rightarrow> (snapshot_id \<times> drive_node) set" where
  "versions_at bk v p =
    {(snapshot_id_of (bk_derive bk) h, x) | h x. h \<in> set (dv_heads v) \<and> resolve_one bk v (sn_tree h) p = Inr (Some x)}"

lemma resolutions_members:
  assumes "resolutions bk v p = Inr rs"
  shows "set (present_in rs) = versions_at bk v p"
    and "agree_on rs x \<longleftrightarrow> dv_heads v \<noteq> [] \<and> (\<forall>h \<in> set (dv_heads v). resolve_one bk v (sn_tree h) p = Inr (Some x))"
proof -
  note R = resolutions_Inr [OF assms]
  have q: "projr (resolve_one bk v (sn_tree h) p) = r \<longleftrightarrow> resolve_one bk v (sn_tree h) p = Inr r"
    if "h \<in> set (dv_heads v)" for h r using R(2) that by (metis sum.sel(2))
  have "(i, Some x) \<in> set rs \<longleftrightarrow> (\<exists>h \<in> set (dv_heads v). i = snapshot_id_of (bk_derive bk) h \<and> resolve_one bk v (sn_tree h) p = Inr (Some x))"
    for i x unfolding R(1) by (simp add: image_iff) (metis q)
  then show "set (present_in rs) = versions_at bk v p"
    unfolding set_present_in versions_at_def by auto
  show "agree_on rs x \<longleftrightarrow> dv_heads v \<noteq> [] \<and> (\<forall>h \<in> set (dv_heads v). resolve_one bk v (sn_tree h) p = Inr (Some x))"
    unfolding agree_on_def R(1) using q by auto
qed

lemma served:
  fixes bk :: "('s, 'e) backing"
  assumes "lookup_literal bk v p = Inr n"
  obtains (agreed) "\<forall>h \<in> set (dv_heads v). resolve_one bk v (sn_tree h) p = Inr (Some n)"
      "\<forall>vs. n \<noteq> ConflictNode vs" "\<forall>ss. n \<noteq> MergedDir ss"
    | (merged) ss where "n = MergedDir ss" "\<nexists>x. \<forall>h \<in> set (dv_heads v). resolve_one bk v (sn_tree h) p = Inr (Some x)"
      "\<forall>h \<in> set (dv_heads v). \<exists>d. resolve_one bk v (sn_tree h) p = Inr (Some (DirNode d))"
      "versions_at bk v p = (\<lambda>(i, d). (i, DirNode d)) ` set ss"
    | (conflict) vs where "n = ConflictNode vs" "\<nexists>x. \<forall>h \<in> set (dv_heads v). resolve_one bk v (sn_tree h) p = Inr (Some x)"
      "versions_at bk v p = set vs"
proof -
  obtain rs where rs: "resolutions bk v p = Inr rs" "merge rs = (Inr n :: 'e view_error + _)"
    using assms unfolding lookup_literal_merge by (auto simp: result_simps)
  note M = resolutions_members [OF rs(1)]
  have some: "dv_heads v \<noteq> []" if "present_in rs \<noteq> []"
    using that resolutions_Inr(1) [OF rs(1)] by auto
  show ?thesis
  proof (cases rs rule: merge_cases [where 'e = 'e])
    case 1
    with rs(2) show ?thesis by simp
  next
    case (2 x)
    then have "x = n" using rs(2) by simp
    with 2(1) M(2) have all: "\<forall>h \<in> set (dv_heads v). resolve_one bk v (sn_tree h) p = Inr (Some n)" "dv_heads v \<noteq> []" by auto
    then obtain h :: snapshot where "resolve_one bk v (sn_tree h) p = Inr (Some n)" by (cases "dv_heads v") auto
    with resolve_one_plain all(1) agreed show ?thesis by blast
  next
    case 3
    then obtain ss where ss: "all_dirs (present_in rs) = Some ss" "n = MergedDir ss"
      using rs(2) unfolding dirs_everywhere_present by auto
    have d: "\<forall>h \<in> set (dv_heads v). \<exists>d. resolve_one bk v (sn_tree h) p = Inr (Some (DirNode d))"
      using 3(2) resolutions_Inr [OF rs(1)] unfolding dirs_everywhere_def by fastforce
    have "versions_at bk v p = (\<lambda>(i, d). (i, DirNode d)) ` set ss"
      using M(1) ss(1) unfolding all_dirs_Some by simp
    with merged [OF ss(2) _ d] 3(1) M(2) some show ?thesis by (auto simp: disagree_def)
  next
    case 4
    then have "n = ConflictNode (present_in rs)" using rs(2) by simp
    from conflict [OF this] 4(1) M some show ?thesis by (auto simp: disagree_def)
  qed
qed

text \<open>
  C15.  No head wins silently: a path is served as a file, a symlink or a directory only when
  every head resolves it to that very node; otherwise all heads resolve it to directories and it is
  served as their merge, or it is a conflict.  Both list exactly the versions of the heads
  where the path resolves, and both mean that the heads differ.
\<close>

theorem no_silent_winner:
  assumes "lookup_literal bk v p = Inr n"
  shows "(case n of
      ConflictNode vs \<Rightarrow> set vs = versions_at bk v p
        \<and> (\<nexists>x. \<forall>h \<in> set (dv_heads v). resolve_one bk v (sn_tree h) p = Inr (Some x))
    | MergedDir ss \<Rightarrow> (\<lambda>(i, d). (i, DirNode d)) ` set ss = versions_at bk v p
        \<and> (\<forall>h \<in> set (dv_heads v). \<exists>d. resolve_one bk v (sn_tree h) p = Inr (Some (DirNode d)))
        \<and> (\<nexists>x. \<forall>h \<in> set (dv_heads v). resolve_one bk v (sn_tree h) p = Inr (Some x))
    | _ \<Rightarrow> \<forall>h \<in> set (dv_heads v). resolve_one bk v (sn_tree h) p = Inr (Some n))"
  using assms
proof (cases rule: served)
  case agreed
  then show ?thesis by (cases n) auto
qed auto

section \<open>Listing a directory that one head deleted\<close>

text \<open>
  Where one head keeps a directory and another has deleted it, the path is a conflict and so is
  every path below it, but listing the conflict resolves each child among the heads that kept
  the directory: the entry is listed as a plain node although looking it up is a conflict.
\<close>

lemma readdir_union_one:
  fixes bk :: "('s, 'e) backing"
  assumes "view_load_tree bk v d = Inr t" "entry_named c t = Some x"
  shows "\<exists>es. readdir_union bk v [(i, d)] = Inr es \<and> \<lparr>de_name = as_str c, de_node = x\<rparr> \<in> set es"
proof -
  let ?m = "\<lambda>n. result_bind (merge [(i, entry_named n t)] :: 'e view_error + _) (\<lambda>node. Inr \<lparr>de_name = as_str n, de_node = node\<rparr>)"
  have trees: "sorted_list_of_fmap (fmupd i t fmempty) = [(i, t)]"
    by (simp add: sorted_list_of_fmap_def sorted_list_of_fset.rep_eq)
  have m: "?m n = Inr \<lparr>de_name = as_str n, de_node = the (entry_named n t)\<rparr>" if "n \<in> set (map en_name (tn_entries t))" for n
  proof -
    have "entry_named n t \<noteq> None" using that by (auto simp: entry_named_def find_None_iff)
    then show ?thesis by (auto simp: merge_def)
  qed
  have c: "c \<in> set (map en_name (tn_entries t))"
    using assms(2) by (auto simp: entry_named_def find_Some_iff)
  let ?names = "sort (remdups (map en_name (tn_entries t)))"
  have "collect ?m ?names = Inr (map (\<lambda>n. \<lparr>de_name = as_str n, de_node = the (entry_named n t)\<rparr>) ?names)"
    unfolding collect_Inr using m by auto
  moreover have "\<lparr>de_name = as_str c, de_node = x\<rparr> \<in> set (map (\<lambda>n. \<lparr>de_name = as_str n, de_node = the (entry_named n t)\<rparr>) ?names)"
    using c assms(2) by force
  ultimately show ?thesis using assms(1) trees by (simp add: readdir_union_def Let_def)
qed

lemma listing_of_deleted_parent:
  assumes "dv_heads v = [h1, h2]" "resolve_one bk v (sn_tree h1) p = Inr (Some (DirNode d))" "resolve_one bk v (sn_tree h2) p = Inr None"
    and "resolve_one bk v (sn_tree h1) (p @ [c]) = Inr (Some x)" "resolve_one bk v (sn_tree h2) (p @ [c]) = Inr None"
    and "view_load_tree bk v d = Inr t" "entry_named c t = Some x"
  defines "i \<equiv> snapshot_id_of (bk_derive bk) h1"
  shows "lookup_literal bk v p = Inr (ConflictNode [(i, DirNode d)])"
    and "lookup_literal bk v (p @ [c]) = Inr (ConflictNode [(i, x)])"
    and "\<exists>es. readdir bk v (ConflictNode [(i, DirNode d)]) = Inr es \<and> \<lparr>de_name = as_str c, de_node = x\<rparr> \<in> set es"
  using assms(1-5) readdir_union_one [OF assms(6,7)]
  by (simp_all add: lookup_literal_def merge_def i_def dir_versions_def)

section \<open>Two heads\<close>

text \<open>One head with an empty tree and one whose tree holds a symlink, over a store with both trees.\<close>

definition link_tree :: tree_node where
  "link_tree = \<lparr>tn_entries = [\<lparr>en_name = Component (ascii ''a''), en_content = Symlink (ascii ''b'')\<rparr>]\<rparr>"

definition head_of :: "content_id \<Rightarrow> snapshot" where
  "head_of t = \<lparr>sn_parents = [], sn_tree = t, sn_author = Ident 0, sn_membership = Ident 0, sn_epoch = 1,
     sn_flags = 0, sn_timestamp = 0, sn_signature = 0\<rparr>"

definition two_store :: memory_store where
  "two_store = \<lparr>ms_objects = fmap_of_list [(Ident 1, (Tree, tree_encode tree_empty)), (Ident 2, (Tree, tree_encode link_tree))],
     ms_retained = None\<rparr>"

definition two_view :: "memory_store drive_view" where
  "two_view = \<lparr>dv_store = shared_new two_store, dv_materialization = (\<lambda>_. RemoteOnly),
     dv_heads = [head_of (Ident 1), head_of (Ident 2)]\<rparr>"

definition two_backing :: "(memory_store, memory_store_error) backing" where
  "two_backing = \<lparr>bk_ops = memory_ops (\<lambda>_ _. 0), bk_errors = default_store_error,
     bk_derive = (\<lambda>_ bs. if bs = snapshot_encode (head_of (Ident 1)) then 7 else 5)\<rparr>"

lemma link_tree_valid: "tree_valid link_tree"
  by (simp add: link_tree_def tree_valid_def entry_valid_def component_valid_def component_new_def ascii_def U32_MAX_def)

lemma two_load:
  "view_load_tree two_backing two_view (Ident 1) = Inr tree_empty"
  "view_load_tree two_backing two_view (Ident 2) = Inr link_tree"
  by (simp_all add: view_load_tree_def stored_bytes_def store_read_def two_backing_def two_view_def shared_new_def
      memory_ops_def memory_get_def two_store_def fmlookup_of_list tree_decode_encode [OF link_tree_valid]
      tree_decode_encode [OF tree_empty_valid])

lemma head_ids: "snapshot_id_of (bk_derive two_backing) (head_of (Ident 1)) = Ident 7"
  "snapshot_id_of (bk_derive two_backing) (head_of (Ident 2)) = Ident 5"
proof -
  have "snapshot_encode (head_of (Ident 2)) \<noteq> snapshot_encode (head_of (Ident 1))"
    by (simp add: snapshot_encode_def snapshot_signing_preimage_def head_of_def)
  then show "snapshot_id_of (bk_derive two_backing) (head_of (Ident 1)) = Ident 7"
    "snapshot_id_of (bk_derive two_backing) (head_of (Ident 2)) = Ident 5"
    by (simp_all add: snapshot_id_of_def content_derive_def two_backing_def)
qed

lemma two_resolve:
  "resolve_one two_backing two_view (Ident 1) [Component (ascii ''a'')] = Inr None"
  "resolve_one two_backing two_view (Ident 2) [Component (ascii ''a'')] = Inr (Some (SymlinkNode (ascii ''b'')))"
  using tree_get_find [of link_tree] link_tree_valid
  by (simp_all add: two_load tree_valid_def)
    (simp_all add: tree_empty_def tree_get_def binary_search_def link_tree_def)

lemma two_literal:
  "lookup_literal two_backing two_view [Component (ascii ''a'')] = Inr (ConflictNode [(Ident 5, SymlinkNode (ascii ''b''))])"
proof -
  have "dv_heads two_view = [head_of (Ident 1), head_of (Ident 2)]" "sn_tree (head_of t) = t" for t
    by (simp_all add: two_view_def head_of_def)
  then show ?thesis by (simp add: lookup_literal_def two_resolve head_ids merge_def del: resolve_one.simps)
qed

theorem no_silent_winner_witness:
  "set [(Ident 5, SymlinkNode (ascii ''b''))] = versions_at two_backing two_view [Component (ascii ''a'')]
   \<and> (\<nexists>x. \<forall>h \<in> set (dv_heads two_view). resolve_one two_backing two_view (sn_tree h) [Component (ascii ''a'')] = Inr (Some x))"
  using no_silent_winner [OF two_literal] by simp


end
