(* ===== verification/Wyrd_Confine.thy ===== *)
theory Wyrd_Confine
  imports Wyrd_Drive
begin

text \<open>
  Symlink confinement (\<open>crates/wyrd-namespace/src/view.rs\<close>): the bounded resolution of an
  untrusted target inside the drive, over any view that resolves a root and children within
  a work limit.
\<close>

section \<open>Errors and limits\<close>

datatype 'e confinement_error =
    Absolute
  | EscapesRoot
  | CrossesConflict
  | Cycle
  | HopLimit nat nat
  | ComponentLimit nat nat
  | WorkLimit u64 u64
  | LookupFailed "'e view_error"

definition MAX_SYMLINK_HOPS :: nat where
  "MAX_SYMLINK_HOPS = 40"

definition MAX_SYMLINK_COMPONENTS :: nat where
  "MAX_SYMLINK_COMPONENTS = 256"

definition MAX_SYMLINK_WORK :: u64 where
  "MAX_SYMLINK_WORK = 64 * 1024 * 1024"

text \<open>The two operations of \<open>NamespaceView\<close> the resolver calls.\<close>

record 'e namespace_view =
  nv_resolve_root :: "u64 \<Rightarrow> 'e view_error + lookup_result"
  nv_resolve_child :: "drive_node \<Rightarrow> bytes \<Rightarrow> u64 \<Rightarrow> 'e view_error + lookup_result"

definition drive_namespace :: "('s, 'e) backing \<Rightarrow> 's drive_view \<Rightarrow> 'e namespace_view" where
  "drive_namespace bk v = \<lparr>nv_resolve_root = resolve_root bk v, nv_resolve_child = resolve_child bk v\<rparr>"

definition listing_namespace ::
  "(bytes \<Rightarrow> 'e view_error + drive_node) \<Rightarrow> (drive_node \<Rightarrow> 'e view_error + dir_entry list) \<Rightarrow> 'e namespace_view" where
  "listing_namespace look list_dir =
    \<lparr>nv_resolve_root = default_resolve_root look, nv_resolve_child = default_resolve_child list_dir\<rparr>"

section \<open>The budget\<close>

definition budget_remaining :: "u64 \<Rightarrow> u64" where
  "budget_remaining work = saturating_sub MAX_SYMLINK_WORK work"

definition budget_consume :: "u64 \<Rightarrow> bool \<Rightarrow> u64 \<Rightarrow> ('e confinement_error + unit) \<times> u64" where
  "budget_consume work limit_exceeded budget =
    (let observed = saturating_add budget work in
     if limit_exceeded \<or> observed > MAX_SYMLINK_WORK then (Inl (WorkLimit observed MAX_SYMLINK_WORK), observed)
     else (Inr (), observed))"

section \<open>The resolver\<close>

record symlink_state =
  ss_root :: drive_node
  ss_current :: "drive_node option"
  ss_stack :: "(bytes \<times> drive_node option) list"
  ss_pending :: "bytes list"
  ss_followed :: "bytes list set"
  ss_hops :: nat
  ss_components :: nat

text \<open>A step works on the resolution state and the budget, and may fail.\<close>

type_synonym ('e, 'a) resolver = "(symlink_state \<times> u64, 'e confinement_error, 'a) action"

definition consume_symlink_components :: "('e, unit) resolver" where
  "consume_symlink_components = (\<lambda>(st, b).
    let n = Suc (ss_components st); st = st\<lparr>ss_components := n\<rparr> in
    (if n > MAX_SYMLINK_COMPONENTS then Inl (ComponentLimit n MAX_SYMLINK_COMPONENTS) else Inr (), (st, b)))"

definition validate_symlink_component :: "bytes \<Rightarrow> 'e confinement_error + unit" where
  "validate_symlink_component c =
    result_bind (map_err (\<lambda>_. LookupFailed VInvalidPath) (component_new c)) (\<lambda>_. Inr ())"

definition resolve_child_within :: "'e namespace_view \<Rightarrow> drive_node \<Rightarrow> bytes \<Rightarrow> ('e, drive_node option) resolver" where
  "resolve_child_within nv parent c = (\<lambda>(st, b).
    case (case nv_resolve_child nv parent c (budget_remaining b) of
            Inr r \<Rightarrow> Inr r
          | Inl e \<Rightarrow>
              if e \<in> {VNotFound, VNotADirectory, VNotAFile}
              then Inr \<lparr>lr_node = None, lr_work = 0, lr_limit_exceeded = False\<rparr>
              else if e = VConflict then Inl CrossesConflict
              else Inl (LookupFailed e)) of
      Inl e \<Rightarrow> (Inl e, (st, b))
    | Inr r \<Rightarrow> (case budget_consume (lr_work r) (lr_limit_exceeded r) b of
          (Inl e, b) \<Rightarrow> (Inl e, (st, b))
        | (Inr _, b) \<Rightarrow> (Inr (lr_node r), (st, b))))"

definition push_node :: "bytes \<Rightarrow> drive_node option \<Rightarrow> ('e, unit) resolver" where
  "push_node c node = (\<lambda>(st, b). (Inr (), (st\<lparr>ss_stack := ss_stack st @ [(c, node)], ss_current := node\<rparr>, b)))"

definition resolve_literal_component :: "'e namespace_view \<Rightarrow> bytes \<Rightarrow> ('e, unit) resolver" where
  "resolve_literal_component nv c =
    act_bind (act_result (validate_symlink_component c)) (\<lambda>_ (st, b).
    case ss_current st of
      None \<Rightarrow> push_node c None (st, b)
    | Some parent \<Rightarrow>
        act_bind (resolve_child_within nv parent c) (\<lambda>child.
        case child of
          Some (ConflictNode _) \<Rightarrow> act_result (Inl CrossesConflict)
        | node \<Rightarrow> push_node c node) (st, b))"

definition starts_with_slash :: "bytes \<Rightarrow> bool" where
  "starts_with_slash s \<longleftrightarrow> s \<noteq> [] \<and> hd s = 0x2F"

text \<open>Following a link: the path it was found at, to be released after its target is resolved.\<close>

definition follow_symlink :: "bytes \<Rightarrow> bytes \<Rightarrow> ('e, bytes list) resolver" where
  "follow_symlink c target = (\<lambda>(st, b).
    let hops = Suc (ss_hops st);
        path = map fst (ss_stack st) @ [c];
        st = st\<lparr>ss_hops := hops\<rparr> in
    if hops > MAX_SYMLINK_HOPS then (Inl (HopLimit hops MAX_SYMLINK_HOPS), (st, b))
    else if path \<in> ss_followed st then (Inl Cycle, (st, b))
    else let st = st\<lparr>ss_followed := insert path (ss_followed st)\<rparr> in
      if starts_with_slash target then (Inl Absolute, (st\<lparr>ss_followed := ss_followed st - {path}\<rparr>, b))
      else let combined = ss_components st + length (split_on 0x2F target) in
        if combined > MAX_SYMLINK_COMPONENTS
        then (Inl (ComponentLimit combined MAX_SYMLINK_COMPONENTS), (st, b))
        else (Inr path, (st\<lparr>ss_pending := split_on 0x2F target @ ss_pending st\<rparr>, b)))"

definition settle_child :: "bytes \<Rightarrow> drive_node option \<Rightarrow> ('e, bytes list option) resolver" where
  "settle_child c child =
    (case child of
       Some (ConflictNode _) \<Rightarrow> act_result (Inl CrossesConflict)
     | Some (SymlinkNode target) \<Rightarrow> act_bind (follow_symlink c target) (\<lambda>path. act_result (Inr (Some path)))
     | node \<Rightarrow> act_bind (push_node c node) (\<lambda>_. act_result (Inr None)))"

text \<open>
  One round of the loop for a component already taken off the queue; a path is returned when a link
  was queued for resolution.
\<close>

definition resolve_component :: "'e namespace_view \<Rightarrow> bytes \<Rightarrow> ('e, bytes list option) resolver" where
  "resolve_component nv c =
    act_bind consume_symlink_components (\<lambda>_ (st, b).
    if c = [] \<or> c = ascii ''.'' then (Inr None, (st, b))
    else if c = ascii ''..'' then
      if ss_stack st = [] then (Inl EscapesRoot, (st, b))
      else let stack = butlast (ss_stack st) in
        (Inr None, (st\<lparr>ss_stack := stack,
                       ss_current := (if stack = [] then Some (ss_root st) else snd (last stack))\<rparr>, b))
    else
      act_bind (act_result (validate_symlink_component c)) (\<lambda>_ (st, b).
      case ss_current st of
        None \<Rightarrow> act_bind (push_node c None) (\<lambda>_. act_result (Inr None)) (st, b)
      | Some parent \<Rightarrow>
          act_bind (resolve_child_within nv parent c) (settle_child c) (st, b)) (st, b))"

text \<open>
  The loop and its recursive call share one fuel; running out of it is \<open>None\<close>.
\<close>

fun resolve_symlink_components ::
  "'e namespace_view \<Rightarrow> nat \<Rightarrow> symlink_state \<times> u64 \<Rightarrow> (('e confinement_error + unit) \<times> symlink_state \<times> u64) option" where
  "resolve_symlink_components nv 0 s = None"
| "resolve_symlink_components nv (Suc fuel) (st, b) =
    (case ss_pending st of
       [] \<Rightarrow> Some (Inr (), (st, b))
     | c # rest \<Rightarrow>
         (case resolve_component nv c (st\<lparr>ss_pending := rest\<rparr>, b) of
            (Inl e, s) \<Rightarrow> Some (Inl e, s)
          | (Inr None, s) \<Rightarrow> resolve_symlink_components nv fuel s
          | (Inr (Some path), s) \<Rightarrow>
              (case resolve_symlink_components nv fuel s of
                 None \<Rightarrow> None
               | Some (r, (st, b)) \<Rightarrow>
                   let s = (st\<lparr>ss_followed := ss_followed st - {path}\<rparr>, b) in
                   (case r of Inl e \<Rightarrow> Some (Inl e, s) | Inr _ \<Rightarrow> resolve_symlink_components nv fuel s))))"

fun resolve_parents :: "'e namespace_view \<Rightarrow> bytes list \<Rightarrow> ('e, unit) resolver" where
  "resolve_parents nv [] = act_result (Inr ())"
| "resolve_parents nv (c # cs) =
    act_bind consume_symlink_components (\<lambda>_.
    act_bind (resolve_literal_component nv c) (\<lambda>_. resolve_parents nv cs))"

definition link_parents :: "bytes \<Rightarrow> bytes list" where
  "link_parents link_path = butlast (filter (\<lambda>c. c \<noteq> []) (split_on 0x2F link_path))"

definition start_state :: "drive_node \<Rightarrow> bytes \<Rightarrow> symlink_state" where
  "start_state root target =
    \<lparr>ss_root = root, ss_current = Some root, ss_stack = [], ss_pending = split_on 0x2F target,
     ss_followed = {}, ss_hops = 0, ss_components = 0\<rparr>"

text \<open>Two rounds more than the component limit are enough.\<close>

definition RESOLVE_FUEL :: nat where
  "RESOLVE_FUEL = MAX_SYMLINK_COMPONENTS + 2"

definition confine_symlink_target_with_budget ::
  "'e namespace_view \<Rightarrow> bytes \<Rightarrow> bytes \<Rightarrow> u64 \<Rightarrow> (('e confinement_error + unit) \<times> u64) option" where
  "confine_symlink_target_with_budget nv link_path target budget =
    (if starts_with_slash target then Some (Inl Absolute, budget)
     else (case nv_resolve_root nv (budget_remaining budget) of
         Inl e \<Rightarrow> Some (Inl (LookupFailed e), budget)
       | Inr r \<Rightarrow> (case budget_consume (lr_work r) (lr_limit_exceeded r) budget of
           (Inl e, budget) \<Rightarrow> Some (Inl e, budget)
         | (Inr _, budget) \<Rightarrow> (case lr_node r of
             None \<Rightarrow> Some (Inl (LookupFailed VNotFound), budget)
           | Some root \<Rightarrow>
               let segments = length (split_on 0x2F target) in
               if segments > MAX_SYMLINK_COMPONENTS
               then Some (Inl (ComponentLimit segments MAX_SYMLINK_COMPONENTS), budget)
               else (case resolve_parents nv (link_parents link_path) (start_state root target, budget) of
                   (Inl e, (st, budget)) \<Rightarrow> Some (Inl e, budget)
                 | (Inr _, s) \<Rightarrow>
                     map_option (\<lambda>(r, (st, budget)). (r, budget)) (resolve_symlink_components nv RESOLVE_FUEL s))))))"

definition confine_symlink_target :: "'e namespace_view \<Rightarrow> bytes \<Rightarrow> bytes \<Rightarrow> ('e confinement_error + unit) option" where
  "confine_symlink_target nv link_path target =
    map_option fst (confine_symlink_target_with_budget nv link_path target 0)"

end
