(* ===== verification/Wyrd_Confinement.thy ===== *)
theory Wyrd_Confinement
  imports Wyrd_Confine
begin

text \<open>
  What confinement guarantees: a step relation describes how a path with symlinks resolves from
  the drive root, and a target the resolver accepts resolves to its end without ever stepping above
  the root or through an absolute link.
\<close>

section \<open>Resolution as steps\<close>

text \<open>The node a list of names leads to, where there is one.\<close>

definition node_at :: "(drive_node \<Rightarrow> bytes \<Rightarrow> drive_node option) \<Rightarrow> drive_node \<Rightarrow> bytes list \<Rightarrow> drive_node option" where
  "node_at child root pos = foldl (\<lambda>n c. Option.bind n (\<lambda>p. child p c)) (Some root) pos"

lemma node_at_simps [simp]:
  "node_at child root [] = Some root"
  "node_at child root (pos @ [c]) = Option.bind (node_at child root pos) (\<lambda>p. child p c)"
  by (simp_all add: node_at_def)

definition plain_name :: "bytes \<Rightarrow> bool" where
  "plain_name c \<longleftrightarrow> c \<noteq> [] \<and> c \<noteq> ascii ''.'' \<and> c \<noteq> ascii ''..''"

text \<open>A position below the root and the names still to be walked.\<close>

inductive walk_step ::
  "(drive_node \<Rightarrow> bytes \<Rightarrow> drive_node option) \<Rightarrow> drive_node \<Rightarrow> bytes list \<times> bytes list \<Rightarrow> bytes list \<times> bytes list \<Rightarrow> bool"
  for child root where
  stay: "c = [] \<or> c = ascii ''.'' \<Longrightarrow> walk_step child root (pos, c # names) (pos, names)"
| up: "pos \<noteq> [] \<Longrightarrow> walk_step child root (pos, ascii ''..'' # names) (butlast pos, names)"
| follow: "plain_name c \<Longrightarrow> node_at child root (pos @ [c]) = Some (SymlinkNode target) \<Longrightarrow> \<not> starts_with_slash target \<Longrightarrow>
    walk_step child root (pos, c # names) (pos, split_on 0x2F target @ names)"
| enter: "plain_name c \<Longrightarrow> (\<And>target. node_at child root (pos @ [c]) \<noteq> Some (SymlinkNode target)) \<Longrightarrow>
    walk_step child root (pos, c # names) (pos @ [c], names)"

inductive_cases walk_stepE: "walk_step child root (pos, names) s"

text \<open>The two ways to leave the drive.\<close>

fun escaping :: "(drive_node \<Rightarrow> bytes \<Rightarrow> drive_node option) \<Rightarrow> drive_node \<Rightarrow> bytes list \<times> bytes list \<Rightarrow> bool" where
  "escaping child root (pos, []) \<longleftrightarrow> False"
| "escaping child root (pos, c # names) \<longleftrightarrow>
    (c = ascii ''..'' \<and> pos = []) \<or>
    (plain_name c \<and> (case node_at child root (pos @ [c]) of Some (SymlinkNode target) \<Rightarrow> starts_with_slash target | _ \<Rightarrow> False))"

lemma dots_distinct [simp]: "ascii ''..'' \<noteq> []" "[] \<noteq> ascii ''..''" "ascii ''.'' \<noteq> ascii ''..''" "ascii ''..'' \<noteq> ascii ''.''" "\<not> plain_name []"
    "\<not> plain_name (ascii ''.'')" "\<not> plain_name (ascii ''..'')"
  by (simp_all add: ascii_def plain_name_def)

lemma walk_deterministic: "walk_step child root s t \<Longrightarrow> walk_step child root s u \<Longrightarrow> t = u"
  by (cases s) (auto elim!: walk_stepE)

lemma walk_stuck: "escaping child root s \<Longrightarrow> \<not> walk_step child root s t"
  by (cases s) (auto elim!: walk_stepE split: option.splits drive_node.splits)

lemma walk_finished: "\<not> walk_step child root (pos, []) t"
  by (auto elim!: walk_stepE)

lemma walk_confluent:
  assumes "(walk_step child root)\<^sup>*\<^sup>* s (pos, [])" "(walk_step child root)\<^sup>*\<^sup>* s t"
  shows "(walk_step child root)\<^sup>*\<^sup>* t (pos, [])"
  using assms(2,1)
proof (induction rule: rtranclp_induct)
  case (step t u)
  from step.IH [OF step.prems] step.hyps(2) show ?case
    by (metis converse_rtranclpE walk_deterministic walk_finished)
qed

lemma walk_inside:
  assumes "(walk_step child root)\<^sup>*\<^sup>* s (pos, [])" "(walk_step child root)\<^sup>*\<^sup>* s t"
  shows "\<not> escaping child root t"
proof
  assume "escaping child root t"
  with walk_stuck walk_confluent [OF assms] show False
    by (metis converse_rtranclpE escaping.simps(1))
qed

section \<open>The resolver follows the steps\<close>

text \<open>
  What a view promises the resolver: a child resolved within the limit is the child whatever the
  limit, and the errors that mean absence mean absence.
\<close>

locale resolving_view =
  fixes nv :: "'e namespace_view"
    and child :: "drive_node \<Rightarrow> bytes \<Rightarrow> drive_node option"
  assumes child_Inr: "nv_resolve_child nv parent c w = Inr r \<Longrightarrow> \<not> lr_limit_exceeded r \<Longrightarrow> lr_node r = child parent c"
    and child_Inl: "nv_resolve_child nv parent c w = Inl e \<Longrightarrow> e \<in> {VNotFound, VNotADirectory, VNotAFile} \<Longrightarrow> child parent c = None"

abbreviation names_of :: "symlink_state \<Rightarrow> bytes list" where
  "names_of st \<equiv> map fst (ss_stack st)"

definition tracks :: "(drive_node \<Rightarrow> bytes \<Rightarrow> drive_node option) \<Rightarrow> drive_node \<Rightarrow> symlink_state \<Rightarrow> bool" where
  "tracks child root st \<longleftrightarrow> ss_root st = root \<and> ss_current st = node_at child root (names_of st)
     \<and> (\<forall>i < length (ss_stack st). snd (ss_stack st ! i) = node_at child root (take (Suc i) (names_of st)))"

lemma tracks_update [simp]:
  "tracks child root (st\<lparr>ss_pending := p\<rparr>) = tracks child root st"
  "tracks child root (st\<lparr>ss_followed := f\<rparr>) = tracks child root st"
  "tracks child root (st\<lparr>ss_hops := h\<rparr>) = tracks child root st"
  "tracks child root (st\<lparr>ss_components := k\<rparr>) = tracks child root st"
  by (simp_all add: tracks_def)

lemma tracks_push:
  assumes "tracks child root st" "node = node_at child root (names_of st @ [c])"
  shows "tracks child root (st\<lparr>ss_stack := ss_stack st @ [(c, node)], ss_current := node\<rparr>)"
  using assms by (auto simp: tracks_def nth_append less_Suc_eq)

lemma tracks_pop:
  assumes "tracks child root st" "ss_stack st \<noteq> []"
  shows "tracks child root (st\<lparr>ss_stack := butlast (ss_stack st),
    ss_current := (if butlast (ss_stack st) = [] then Some (ss_root st) else snd (last (butlast (ss_stack st))))\<rparr>)"
proof -
  obtain xs x where st: "ss_stack st = xs @ [x]" using assms(2) by (metis rev_exhaust)
  show ?thesis
  proof (cases xs rule: rev_cases)
    case Nil
    with assms(1) st show ?thesis by (simp add: tracks_def)
  next
    case (snoc ys y)
    have pre: "snd (xs ! i) = node_at child root (take (Suc i) (map fst xs))" if "i < length xs" for i
    proof -
      have "snd ((xs @ [x]) ! i) = node_at child root (take (Suc i) (map fst (xs @ [x])))"
        using assms(1) that unfolding tracks_def st by auto
      with that show ?thesis by (simp add: nth_append)
    qed
    have xs: "xs \<noteq> []" "last xs = y" using snoc by auto
    have "snd y = node_at child root (map fst xs)" using pre [of "length ys"] by (simp add: snoc)
    with assms(1) pre xs show ?thesis by (simp add: tracks_def st)
  qed
qed

lemma budget_consume_Inr: "budget_consume w limit b = (Inr u, b') \<Longrightarrow> \<not> limit \<and> b' \<le> MAX_SYMLINK_WORK"
  by (auto simp: budget_consume_def Let_def split: if_splits)

lemma act_bind_InrE:
  assumes "act_bind f g s = (Inr y, s')"
  obtains x t where "f s = (Inr x, t)" "g x t = (Inr y, s')"
  using assms by (auto simp: act_bind_def split: prod.splits sum.splits)

lemma consume_Inr:
  "consume_symlink_components (st, b) = (Inr u, s) \<longleftrightarrow>
    s = (st\<lparr>ss_components := Suc (ss_components st)\<rparr>, b) \<and> Suc (ss_components st) \<le> MAX_SYMLINK_COMPONENTS"
  by (auto simp: consume_symlink_components_def Let_def)

lemma push_node_Inr: "push_node c node (st, b) = (Inr u, s) \<longleftrightarrow>
    s = (st\<lparr>ss_stack := ss_stack st @ [(c, node)], ss_current := node\<rparr>, b)"
  by (auto simp: push_node_def)

lemma follow_Inr:
  assumes "follow_symlink c target (st, b) = (Inr path, (st', b'))"
  shows "\<not> starts_with_slash target" "ss_stack st' = ss_stack st" "ss_current st' = ss_current st" "ss_root st' = ss_root st"
    "ss_pending st' = split_on 0x2F target @ ss_pending st" "ss_components st' = ss_components st"
  using assms by (auto simp: follow_symlink_def Let_def split: if_splits)

lemma act_bind_InlE:
  assumes "act_bind f g s = (Inl e, s')"
  obtains (first) "f s = (Inl e, s')" | (second) x t where "f s = (Inr x, t)" "g x t = (Inl e, s')"
  using assms by (auto simp: act_bind_def split: prod.splits sum.splits)

lemma resolve_child_no_escape:
  "resolve_child_within nv parent c s = (Inl e, s') \<Longrightarrow> e \<notin> {EscapesRoot, Absolute}"
  by (auto simp: resolve_child_within_def budget_consume_def Let_def split: prod.splits sum.splits if_splits)

lemma settle_child_escape:
  "settle_child c node s = (Inl e, s') \<Longrightarrow> e \<in> {EscapesRoot, Absolute} \<Longrightarrow>
    \<exists>target. node = Some (SymlinkNode target) \<and> starts_with_slash target"
  by (auto simp: settle_child_def follow_symlink_def Let_def act_result_def push_node_def elim!: act_bind_InlE
      split: option.splits drive_node.splits prod.splits if_splits)

lemma validate_no_escape: "validate_symlink_component c = Inl e \<Longrightarrow> e \<notin> {EscapesRoot, Absolute}"
  by (auto simp: validate_symlink_component_def result_bind_def map_err_def split: sum.splits)

lemma consume_Inl: "consume_symlink_components (st, b) = (Inl e, s) \<Longrightarrow> e \<notin> {EscapesRoot, Absolute}"
  by (auto simp: consume_symlink_components_def Let_def split: if_splits)

lemma resolve_parents_no_escape:
  "resolve_parents nv cs s = (Inl e, s') \<Longrightarrow> e \<notin> {EscapesRoot, Absolute}"
proof (induction cs arbitrary: s)
  case (Cons c cs)
  obtain st b where s: "s = (st, b)" by force
  have lit: "resolve_literal_component nv c t = (Inl e, s') \<Longrightarrow> e \<notin> {EscapesRoot, Absolute}" for t
    by (auto simp: resolve_literal_component_def act_result_def push_node_def
        dest: validate_no_escape resolve_child_no_escape elim!: act_bind_InlE
        split: option.splits drive_node.splits prod.splits)
  from Cons.prems show ?case unfolding s resolve_parents.simps
    by (elim act_bind_InlE) (rule consume_Inl lit Cons.IH, assumption)+
qed (simp add: act_result_def)

lemma resolved_pending:
  "resolve_symlink_components nv fuel (st, b) = Some (Inr u, (st', b')) \<Longrightarrow> ss_pending st' = []"
proof (induction fuel arbitrary: st b)
  case (Suc fuel)
  then show ?case
    by (auto simp: Let_def split: list.splits prod.splits sum.splits option.splits)
qed simp

context resolving_view
begin

lemma resolve_child_sound:
  assumes "resolve_child_within nv parent c (st, b) = (Inr node, (st', b'))"
  shows "st' = st \<and> node = child parent c"
proof -
  show ?thesis
  proof (cases "nv_resolve_child nv parent c (budget_remaining b)")
    case (Inl e)
    with assms have "e \<in> {VNotFound, VNotADirectory, VNotAFile}"
      by (auto simp: resolve_child_within_def split: if_splits)
    with Inl assms child_Inl [OF Inl] show ?thesis
      by (auto simp: resolve_child_within_def split: prod.splits sum.splits)
  next
    case (Inr r)
    with assms child_Inr [OF Inr] show ?thesis
      by (auto simp: resolve_child_within_def dest!: budget_consume_Inr split: prod.splits sum.splits)
  qed
qed

lemma plain_component_sound:
  assumes tr: "tracks child root st" and c: "plain_name c" and parent: "ss_current st = Some parent"
    and run: "act_bind (resolve_child_within nv parent c) (settle_child c) (st, b) = (Inr r, (st', b'))"
  shows "tracks child root st' \<and> walk_step child root (names_of st, c # ss_pending st) (names_of st', ss_pending st')
    \<and> ss_components st' = ss_components st"
proof -
  from run obtain node st1 b1 where node: "resolve_child_within nv parent c (st, b) = (Inr node, (st1, b1))"
    and rest: "(settle_child c node :: ('e, bytes list option) resolver) (st1, b1) = (Inr r, (st', b'))"
    by (elim act_bind_InrE) auto
  have st1: "st1 = st" and child: "node = child parent c" using resolve_child_sound [OF node] by auto
  have "node_at child root (names_of st) = Some parent" using tr parent unfolding tracks_def by simp
  then have at: "node_at child root (names_of st @ [c]) = node" by (simp add: child)
  show ?thesis
  proof (cases "\<exists>target. node = Some (SymlinkNode target)")
    case True
    then obtain target where target: "node = Some (SymlinkNode target)" by blast
    with rest obtain path where "(follow_symlink c target :: ('e, bytes list) resolver) (st, b1) = (Inr path, (st', b'))"
      by (auto simp: st1 settle_child_def act_result_def elim!: act_bind_InrE)
    note F = follow_Inr [OF this]
    have "walk_step child root (names_of st, c # ss_pending st) (names_of st, split_on 0x2F target @ ss_pending st)"
      using c at target F(1) by (intro walk_step.follow) auto
    with F tr show ?thesis by (simp add: tracks_def)
  next
    case False
    with rest have "(push_node c node :: ('e, unit) resolver) (st, b1) = (Inr (), (st', b'))"
      by (auto simp: st1 settle_child_def act_result_def elim!: act_bind_InrE split: option.splits drive_node.splits)
    then have st': "st' = st\<lparr>ss_stack := ss_stack st @ [(c, node)], ss_current := node\<rparr>" by (simp add: push_node_Inr)
    have "walk_step child root (names_of st, c # ss_pending st) (names_of st @ [c], ss_pending st)"
      using c at False by (intro walk_step.enter) auto
    with tracks_push [OF tr at [symmetric]] show ?thesis by (simp add: st')
  qed
qed

lemma resolve_component_sound:
  assumes tr: "tracks child root st" and run: "resolve_component nv c (st, b) = (Inr r, (st', b'))"
  shows "tracks child root st' \<and> walk_step child root (names_of st, c # ss_pending st) (names_of st', ss_pending st')
    \<and> ss_components st' = Suc (ss_components st)"
proof -
  let ?st = "st\<lparr>ss_components := Suc (ss_components st)\<rparr>"
  have tr': "tracks child root ?st" using tr by simp
  consider "c = [] \<or> c = ascii ''.''" | "c = ascii ''..''" | "plain_name c" by (auto simp: plain_name_def)
  then show ?thesis
  proof cases
    case 1
    with run have "st' = ?st" by (auto simp: resolve_component_def consume_Inr elim!: act_bind_InrE)
    with tr' walk_step.stay [OF 1] show ?thesis by simp
  next
    case 2
    with run have ne: "ss_stack st \<noteq> []" and st': "st' = ?st\<lparr>ss_stack := butlast (ss_stack st),
        ss_current := (if butlast (ss_stack st) = [] then Some (ss_root st) else snd (last (butlast (ss_stack st))))\<rparr>"
      by (auto simp: resolve_component_def consume_Inr Let_def ascii_def elim!: act_bind_InrE split: if_splits)
    have "walk_step child root (names_of st, c # ss_pending st) (butlast (names_of st), ss_pending st)"
      unfolding 2 using ne by (intro walk_step.up) simp
    moreover have "tracks child root st'" using tracks_pop [OF tr'] ne unfolding st' by (simp cong: if_cong)
    ultimately show ?thesis by (simp add: st' map_butlast)
  next
    case 3
    show ?thesis
    proof (cases "ss_current st")
      case None
      then have at: "node_at child root (names_of st @ [c]) = None" using tr unfolding tracks_def by simp
      from 3 run None have st': "st' = ?st\<lparr>ss_stack := ss_stack st @ [(c, None)], ss_current := None\<rparr>"
        by (auto simp: resolve_component_def consume_Inr plain_name_def act_result_def push_node_Inr elim!: act_bind_InrE
            split: prod.splits)
      have "walk_step child root (names_of st, c # ss_pending st) (names_of st @ [c], ss_pending st)"
        using 3 at by (intro walk_step.enter) auto
      with tracks_push [OF tr', of None c] at show ?thesis by (simp add: st')
    next
      case (Some parent)
      from 3 run Some obtain t where "act_bind (resolve_child_within nv parent c) (settle_child c) (?st, t) = (Inr r, (st', b'))"
        by (auto simp: resolve_component_def consume_Inr plain_name_def act_result_def elim!: act_bind_InrE
            split: prod.splits)
      from plain_component_sound [OF tr' 3 _ this] Some show ?thesis by simp
    qed
  qed
qed

lemma resolve_symlink_components_sound:
  "tracks child root st \<Longrightarrow> resolve_symlink_components nv fuel (st, b) = Some (Inr u, (st', b')) \<Longrightarrow>
    tracks child root st' \<and> ss_pending st' = []
    \<and> (walk_step child root)\<^sup>*\<^sup>* (names_of st, ss_pending st) (names_of st', [])"
proof (induction fuel arbitrary: st b u st' b')
  case (Suc fuel)
  show ?case
  proof (cases "ss_pending st")
    case Nil
    with Suc.prems show ?thesis by auto
  next
    case (Cons c rest)
    let ?st = "st\<lparr>ss_pending := rest\<rparr>"
    obtain r st1 b1 where comp: "resolve_component nv c (?st, b) = (Inr r, (st1, b1))"
      using Suc.prems(2) Cons by (cases "resolve_component nv c (?st, b)") (auto split: sum.splits)
    from resolve_component_sound [OF _ comp, of root] Suc.prems(1)
    have step: "tracks child root st1" "walk_step child root (names_of st, ss_pending st) (names_of st1, ss_pending st1)"
      using Cons by auto
    have "tracks child root st' \<and> ss_pending st' = [] \<and> (walk_step child root)\<^sup>*\<^sup>* (names_of st1, ss_pending st1) (names_of st', [])"
    proof (cases r)
      case None
      with Suc.prems(2) Cons comp have "resolve_symlink_components nv fuel (st1, b1) = Some (Inr u, (st', b'))" by simp
      from Suc.IH [OF step(1) this] show ?thesis .
    next
      case (Some path)
      with Suc.prems(2) Cons comp obtain st2 b2 where nested: "resolve_symlink_components nv fuel (st1, b1) = Some (Inr (), (st2, b2))"
        and rest: "resolve_symlink_components nv fuel (st2\<lparr>ss_followed := ss_followed st2 - {path}\<rparr>, b2) = Some (Inr u, (st', b'))"
        by (auto simp: Let_def split: option.splits sum.splits)
      from Suc.IH [OF step(1) nested] have n: "tracks child root st2" "ss_pending st2 = []"
        "(walk_step child root)\<^sup>*\<^sup>* (names_of st1, ss_pending st1) (names_of st2, [])" by auto
      from Suc.IH [OF _ rest, of ] n show ?thesis by (auto intro: rtranclp_trans)
    qed
    with step(2) show ?thesis by (auto intro: converse_rtranclp_into_rtranclp)
  qed
qed simp

lemma resolve_parents_sound:
  "tracks child root st \<Longrightarrow> resolve_parents nv cs (st, b) = (Inr u, (st', b')) \<Longrightarrow>
    tracks child root st' \<and> names_of st' = names_of st @ cs \<and> ss_pending st' = ss_pending st"
proof (induction cs arbitrary: st b)
  case Nil
  then show ?case by (simp add: act_result_def)
next
  case (Cons c cs)
  let ?st = "st\<lparr>ss_components := Suc (ss_components st)\<rparr>"
  from Cons.prems(2) obtain st1 b1 where lit: "resolve_literal_component nv c (?st, b) = (Inr (), (st1, b1))"
    and rest: "resolve_parents nv cs (st1, b1) = (Inr u, (st', b'))"
    by (auto simp: consume_Inr elim!: act_bind_InrE)
  have "\<exists>node. st1 = ?st\<lparr>ss_stack := ss_stack st @ [(c, node)], ss_current := node\<rparr>
      \<and> node = node_at child root (names_of st @ [c])"
  proof (cases "ss_current st")
    case None
    then have "node_at child root (names_of st @ [c]) = None" using Cons.prems(1) unfolding tracks_def by simp
    moreover from lit None have "st1 = ?st\<lparr>ss_stack := ss_stack st @ [(c, None)], ss_current := None\<rparr>"
      by (auto simp: resolve_literal_component_def act_result_def push_node_Inr elim!: act_bind_InrE split: prod.splits)
    ultimately show ?thesis by simp
  next
    case (Some parent)
    from lit Some obtain node st2 b2 where node: "resolve_child_within nv parent c (?st, b) = (Inr node, (st2, b2))"
      and st1: "st1 = st2\<lparr>ss_stack := ss_stack st2 @ [(c, node)], ss_current := node\<rparr>"
      by (fastforce simp: resolve_literal_component_def act_result_def push_node_Inr elim!: act_bind_InrE
          split: prod.splits option.splits drive_node.splits)
    have "node_at child root (names_of st) = Some parent" using Cons.prems(1) Some unfolding tracks_def by simp
    with resolve_child_sound [OF node] st1 show ?thesis by auto
  qed
  then obtain node where st1: "st1 = ?st\<lparr>ss_stack := ss_stack st @ [(c, node)], ss_current := node\<rparr>"
    "node = node_at child root (names_of st @ [c])" by blast
  have "tracks child root st1" using tracks_push [of child root ?st node c] Cons.prems(1) st1 by simp
  from Cons.IH [OF this rest] st1(1) show ?case by simp
qed

lemma confined_walk:
  assumes "confine_symlink_target_with_budget nv link target b = Some (Inr u, b')"
  shows "\<exists>r root pos. nv_resolve_root nv (budget_remaining b) = Inr r \<and> lr_node r = Some root
    \<and> \<not> starts_with_slash target
    \<and> (walk_step child root)\<^sup>*\<^sup>* (link_parents link, split_on 0x2F target) (pos, [])"
proof -
  have abs: "\<not> starts_with_slash target"
    using assms by (auto simp: confine_symlink_target_with_budget_def)
  obtain r where r: "nv_resolve_root nv (budget_remaining b) = Inr r"
    using assms abs by (auto simp: confine_symlink_target_with_budget_def split: sum.splits)
  obtain b1 root st st' b2 b3 where root: "lr_node r = Some root"
    and par: "resolve_parents nv (link_parents link) (start_state root target, b1) = (Inr (), (st, b2))"
    and res: "resolve_symlink_components nv RESOLVE_FUEL (st, b2) = Some (Inr (), (st', b3))"
    using assms abs r
    by (auto simp: confine_symlink_target_with_budget_def Let_def
        split: prod.splits sum.splits option.splits if_splits)
  have "tracks child root (start_state root target)" by (simp add: tracks_def start_state_def)
  from resolve_parents_sound [OF this par] have st: "tracks child root st" "names_of st = link_parents link"
    "ss_pending st = split_on 0x2F target" by (auto simp: start_state_def)
  from resolve_symlink_components_sound [OF st(1) res] st r root abs show ?thesis by auto
qed

text \<open>A verdict of escape is never raised for a path that stays inside.\<close>

lemma plain_component_escape:
  assumes tr: "tracks child root st" and c: "plain_name c" and parent: "ss_current st = Some parent"
    and run: "act_bind (resolve_child_within nv parent c) (settle_child c) (st, b) = (Inl e, s)"
    and e: "e \<in> {EscapesRoot, Absolute}"
  shows "escaping child root (names_of st, c # names)"
proof -
  from run e obtain node st1 b1 where node: "resolve_child_within nv parent c (st, b) = (Inr node, (st1, b1))"
    and rest: "(settle_child c node :: ('e, bytes list option) resolver) (st1, b1) = (Inl e, s)"
    by (auto elim!: act_bind_InlE dest: resolve_child_no_escape)
  have child: "node = child parent c" using resolve_child_sound [OF node] by auto
  have "node_at child root (names_of st) = Some parent" using tr parent unfolding tracks_def by simp
  then have at: "node_at child root (names_of st @ [c]) = node" by (simp add: child)
  from settle_child_escape [OF rest e] at c show ?thesis by auto
qed

lemma resolve_component_escape:
  assumes tr: "tracks child root st" and run: "resolve_component nv c (st, b) = (Inl e, s)"
    and e: "e \<in> {EscapesRoot, Absolute}"
  shows "escaping child root (names_of st, c # names)"
proof -
  let ?st = "st\<lparr>ss_components := Suc (ss_components st)\<rparr>"
  have tr': "tracks child root ?st" using tr by simp
  from run e have run': "c \<noteq> [] \<and> c \<noteq> ascii ''.''"
    "c = ascii ''..'' \<Longrightarrow> ss_stack st = []"
    "plain_name c \<Longrightarrow> \<exists>parent. ss_current st = Some parent
      \<and> act_bind (resolve_child_within nv parent c) (settle_child c) (?st, b) = (Inl e, s)"
    by (auto simp: resolve_component_def consume_Inr plain_name_def act_result_def push_node_def Let_def ascii_def
        dest: validate_no_escape consume_Inl elim!: act_bind_InlE split: if_splits option.splits prod.splits)
  show ?thesis
  proof (cases "plain_name c")
    case True
    from run'(3) [OF this] obtain parent where "ss_current ?st = Some parent"
      "act_bind (resolve_child_within nv parent c) (settle_child c) (?st, b) = (Inl e, s)" by auto
    from plain_component_escape [OF tr' True this e] show ?thesis by simp
  qed (use run' in \<open>auto simp: plain_name_def\<close>)
qed

lemma resolve_symlink_components_escape:
  "tracks child root st \<Longrightarrow> resolve_symlink_components nv fuel (st, b) = Some (Inl e, (st', b')) \<Longrightarrow>
    e \<in> {EscapesRoot, Absolute} \<Longrightarrow>
    \<exists>t. (walk_step child root)\<^sup>*\<^sup>* (names_of st, ss_pending st) t \<and> escaping child root t"
proof (induction fuel arbitrary: st b st' b')
  case (Suc fuel)
  obtain c rest where Cons: "ss_pending st = c # rest" using Suc.prems(2) by (cases "ss_pending st") auto
  let ?st = "st\<lparr>ss_pending := rest\<rparr>"
  obtain r st1 b1 where comp: "resolve_component nv c (?st, b) = (r, (st1, b1))" by (metis prod.collapse)
  show ?case
  proof (cases r)
    case (Inl e')
    with Suc.prems(2) Cons comp have "r = Inl e" by simp
    with resolve_component_escape [of root ?st c b e _ rest] comp Suc.prems Cons show ?thesis by force
  next
    case (Inr path)
    from resolve_component_sound [OF _ comp [unfolded Inr], of root] Suc.prems(1)
    have step: "tracks child root st1" "walk_step child root (names_of st, ss_pending st) (names_of st1, ss_pending st1)"
      using Cons by auto
    have "\<exists>st2 b2. resolve_symlink_components nv fuel (st1, b1) = Some (Inl e, (st2, b2))"
    proof (cases path)
      case (Some p)
      with Suc.prems(2) Cons comp Inr resolved_pending [of nv fuel st1 b1] show ?thesis
        by (cases fuel) (auto simp: Let_def split: option.splits sum.splits)
    qed (use Suc.prems(2) Cons comp Inr in simp)
    then obtain st2 b2 where "resolve_symlink_components nv fuel (st1, b1) = Some (Inl e, (st2, b2))" by blast
    from Suc.IH [OF step(1) this Suc.prems(3)] step(2) show ?thesis by (meson converse_rtranclp_into_rtranclp)
  qed
qed simp

end

section \<open>The resolver always answers\<close>

lemma follow_components: "follow_symlink c t (st, b) = (Inr path, (st', b')) \<Longrightarrow> ss_components st' = ss_components st"
  using follow_Inr(6) by blast

lemma child_components:
  "resolve_child_within nv parent c (st, b) = (r, (st', b')) \<Longrightarrow> st' = st"
  by (auto simp: resolve_child_within_def split: sum.splits prod.splits if_splits)

lemma settle_components:
  "settle_child c child (st, b) = (Inr r, (st', b')) \<Longrightarrow> ss_components st' = ss_components st"
  by (auto simp: settle_child_def act_result_def push_node_Inr dest: follow_components elim!: act_bind_InrE
      split: option.splits drive_node.splits)

lemma resolve_component_count:
  assumes "resolve_component nv c (st, b) = (Inr r, (st', b'))"
  shows "ss_components st' = Suc (ss_components st) \<and> Suc (ss_components st) \<le> MAX_SYMLINK_COMPONENTS"
  using assms
  by (auto simp: resolve_component_def consume_Inr act_result_def push_node_Inr Let_def elim!: act_bind_InrE
      dest!: settle_components child_components split: if_splits option.splits)

lemma literal_components:
  "resolve_literal_component nv c (st, b) = (Inr u, (st', b')) \<Longrightarrow> ss_components st' = ss_components st"
  by (auto simp: resolve_literal_component_def act_result_def push_node_Inr dest!: child_components elim!: act_bind_InrE
      split: option.splits drive_node.splits)

lemma resolve_parents_count:
  "ss_components st \<le> MAX_SYMLINK_COMPONENTS \<Longrightarrow> resolve_parents nv cs (st, b) = (Inr u, (st', b')) \<Longrightarrow>
    ss_components st' \<le> MAX_SYMLINK_COMPONENTS"
proof (induction cs arbitrary: st b)
  case (Cons c cs)
  let ?st = "st\<lparr>ss_components := Suc (ss_components st)\<rparr>"
  from Cons.prems(2) obtain st1 b1 where le: "Suc (ss_components st) \<le> MAX_SYMLINK_COMPONENTS"
    and lit: "resolve_literal_component nv c (?st, b) = (Inr (), (st1, b1))"
    and rest: "resolve_parents nv cs (st1, b1) = (Inr u, (st', b'))"
    by (auto simp: consume_Inr elim!: act_bind_InrE)
  from Cons.IH [OF _ rest] literal_components [OF lit] le show ?case by simp
qed (simp add: act_result_def)

lemma resolve_enough_fuel:
  "ss_components st \<le> MAX_SYMLINK_COMPONENTS \<Longrightarrow> MAX_SYMLINK_COMPONENTS + 2 \<le> fuel + ss_components st \<Longrightarrow>
    resolve_symlink_components nv fuel (st, b) \<noteq> None"
proof (induction fuel arbitrary: st b)
  case (Suc fuel)
  show ?case
  proof (cases "ss_pending st")
    case (Cons c rest)
    obtain r st1 b1 where comp: "resolve_component nv c (st\<lparr>ss_pending := rest\<rparr>, b) = (r, (st1, b1))"
      by (metis prod.collapse)
    show ?thesis
    proof (cases r)
      case (Inr path)
      from resolve_component_count [OF comp [unfolded Inr]]
      have count: "ss_components st1 = Suc (ss_components st)" "Suc (ss_components st) \<le> MAX_SYMLINK_COMPONENTS" by auto
      then have ne: "resolve_symlink_components nv fuel (st1, b1) \<noteq> None" using Suc by (intro Suc.IH) auto
      obtain n where n: "fuel = Suc n" using count(2) Suc.prems(2) by (cases fuel) auto
      show ?thesis
      proof (cases path)
        case (Some p)
        obtain q st2 b2 where q: "resolve_symlink_components nv fuel (st1, b1) = Some (q, (st2, b2))" using ne by auto
        with resolved_pending [of nv fuel st1 b1] Cons comp Inr Some n show ?thesis
          by (auto simp: Let_def split: sum.splits)
      qed (use ne Cons comp Inr in simp)
    qed (use Cons comp in simp)
  qed simp
qed simp

section \<open>The views the code has\<close>

lemma load_for_resolution_mono:
  assumes "load_tree_for_resolution bk v i w = Inr (Some t, cost)" "w \<le> w'"
  shows "load_tree_for_resolution bk v i w' = Inr (Some t, cost)"
proof -
  obtain bs where "stored_bytes bk v Tree i = Inr bs"
    using assms(1) by (auto simp: load_tree_for_resolution_def result_simps)
  with assms show ?thesis
    by (auto simp: load_tree_for_resolution_def Let_def result_simps split: if_splits)
qed

lemma saturating_sub_max: "saturating_sub w k \<le> saturating_sub (- 1) k"
proof -
  have "unat w \<le> unat (- 1 :: u64)" by (simp add: word_le_nat_alt [symmetric])
  then show ?thesis by (simp add: word_le_nat_alt unat_saturating_sub diff_le_mono)
qed

lemma load_all_unlimited:
  "load_all bk v w k subs = Inr (Some trees, work) \<Longrightarrow> load_all bk v (- 1) k subs = Inr (Some trees, work)"
proof (induction subs arbitrary: k trees)
  case (Cons a subs)
  obtain s i where a: "a = (s, i)" by force
  with Cons.prems obtain t cost rest where t: "load_tree_for_resolution bk v i (saturating_sub w k) = Inr (Some t, cost)"
    and rest: "load_all bk v w (saturating_add k cost) subs = Inr (Some rest, work)" "trees = (s, t) # rest"
    by (auto simp: result_simps Let_def split: option.splits)
  from load_for_resolution_mono [OF t saturating_sub_max] Cons.IH [OF rest(1)] rest(2) a show ?case by simp
qed simp

definition drive_child :: "('s, 'e) backing \<Rightarrow> 's drive_view \<Rightarrow> drive_node \<Rightarrow> bytes \<Rightarrow> drive_node option" where
  "drive_child bk v parent c = (case resolve_child bk v parent c (- 1) of Inr r \<Rightarrow> lr_node r | Inl _ \<Rightarrow> None)"

lemma load_for_resolution_error:
  "load_tree_for_resolution bk v i w = Inl e \<Longrightarrow> e \<notin> {VNotFound, VNotADirectory, VNotAFile}"
  by (auto simp: load_tree_for_resolution_def stored_bytes_def store_read_def absent_def result_bind_def map_err_def Let_def
      split: sum.splits option.splits if_splits fetch_status.splits)

lemma load_all_error: "load_all bk v w k subs = Inl e \<Longrightarrow> e \<notin> {VNotFound, VNotADirectory, VNotAFile}"
proof (induction subs arbitrary: k)
  case (Cons a subs)
  obtain s i where a: "a = (s, i)" by force
  show ?case
  proof (cases "load_tree_for_resolution bk v i (saturating_sub w k)")
    case (Inl e')
    with Cons.prems a load_for_resolution_error [OF Inl] show ?thesis by simp
  next
    case (Inr r)
    obtain t cost where "r = (t, cost)" by force
    with Inr Cons a show ?thesis by (auto simp: Let_def result_bind_def split: option.splits sum.splits prod.splits)
  qed
qed simp

interpretation drive: resolving_view "drive_namespace bk v" "drive_child bk v" for bk :: "('s, 'e) backing" and v
proof (unfold_locales, goal_cases)
  case (1 parent c w r)
  then show ?case
  proof (cases parent)
    case (DirNode i)
    with 1 obtain t where t: "load_tree_for_resolution bk v i w = Inr (Some t, lr_work r)" "lr_node r = child_node t c"
      by (auto simp: drive_namespace_def result_simps)
    have "w \<le> - 1" by simp
    from load_for_resolution_mono [OF t(1) this] t(2) DirNode show ?thesis by (simp add: drive_child_def)
  next
    case (MergedDir subs)
    with 1 obtain trees work where t: "load_all bk v w 0 subs = Inr (Some trees, work)" "merged_child c trees = (Inr (lr_node r) :: 'e view_error + _)"
      by (auto simp: drive_namespace_def over_limit_def result_simps split: option.splits)
    from load_all_unlimited [OF t(1)] t(2) MergedDir show ?thesis by (simp add: drive_child_def)
  qed (auto simp: drive_namespace_def)
next
  case (2 parent c w e)
  then show ?case
  proof (cases parent)
    case (DirNode i)
    with 2 load_for_resolution_error [of bk v i w e] show ?thesis by (auto simp: drive_namespace_def result_bind_def split: sum.splits)
  next
    case (MergedDir subs)
    with 2 load_all_error [of bk v w 0 subs e] obtain trees work where t: "load_all bk v w 0 subs = Inr (Some trees, work)" "merged_child c trees = Inl e"
      by (auto simp: drive_namespace_def result_bind_def split: sum.splits option.splits)
    from load_all_unlimited [OF t(1)] t(2) MergedDir show ?thesis by (simp add: drive_child_def)
  qed (simp_all add: drive_child_def)
qed

definition listed_child :: "(drive_node \<Rightarrow> 'e view_error + dir_entry list) \<Rightarrow> drive_node \<Rightarrow> bytes \<Rightarrow> drive_node option" where
  "listed_child list_dir parent c =
    (case list_dir parent of Inr es \<Rightarrow> map_option de_node (List.find (\<lambda>e. de_name e = c) es) | Inl _ \<Rightarrow> None)"

interpretation listing: resolving_view "listing_namespace look list_dir" "listed_child list_dir" for look list_dir
  by unfold_locales (auto simp: listing_namespace_def default_resolve_child_def listed_child_def Let_def result_bind_def
      split: sum.splits)

section \<open>What a verdict means\<close>

definition stays_inside where
  "stays_inside child root s \<longleftrightarrow> (\<exists>pos. (walk_step child root)\<^sup>*\<^sup>* s (pos, []))
     \<and> (\<forall>t. (walk_step child root)\<^sup>*\<^sup>* s t \<longrightarrow> \<not> escaping child root t)"

definition gets_out where
  "gets_out child root s \<longleftrightarrow> (\<exists>t. (walk_step child root)\<^sup>*\<^sup>* s t \<and> escaping child root t)"

lemma confine_runs:
  fixes nv :: "'e namespace_view"
  assumes run: "confine_symlink_target_with_budget nv link target b = Some (Inl e, b')" "e \<in> {EscapesRoot, Absolute}"
    "\<not> starts_with_slash target"
  obtains r root b1 st b2 st' b3 where "nv_resolve_root nv (budget_remaining b) = Inr r" "lr_node r = Some root"
    "resolve_parents nv (link_parents link) (start_state root target, b1) = (Inr (), (st, b2))"
    "resolve_symlink_components nv RESOLVE_FUEL (st, b2) = Some (Inl e, (st', b3))"
proof -
  obtain r where r: "nv_resolve_root nv (budget_remaining b) = Inr r"
    using run by (auto simp: confine_symlink_target_with_budget_def split: sum.splits)
  obtain b1 where b1: "(budget_consume (lr_work r) (lr_limit_exceeded r) b :: ('e confinement_error + unit) \<times> u64) = (Inr (), b1)"
    using run r by (auto simp: confine_symlink_target_with_budget_def budget_consume_def Let_def split: if_splits)
  obtain root where root: "lr_node r = Some root"
    using run r b1 by (auto simp: confine_symlink_target_with_budget_def split: option.splits)
  obtain st b2 where par: "resolve_parents nv (link_parents link) (start_state root target, b1) = (Inr (), (st, b2))"
    using run r b1 root
    by (auto simp: confine_symlink_target_with_budget_def Let_def dest: resolve_parents_no_escape
        split: prod.splits sum.splits if_splits)
  with run r b1 root that show thesis
    by (auto simp: confine_symlink_target_with_budget_def Let_def split: if_splits)
qed

lemma confine_total_with_budget: "confine_symlink_target_with_budget nv link target b \<noteq> None"
proof -
  have "\<exists>y. resolve_symlink_components nv RESOLVE_FUEL s = Some y"
    if "resolve_parents nv (link_parents link) (start_state root target, b1) = (Inr u, s)" for root b1 u s
  proof -
    obtain st b2 where s: "s = (st, b2)" by force
    have "ss_components st \<le> MAX_SYMLINK_COMPONENTS"
      using resolve_parents_count [of "start_state root target" nv "link_parents link" b1 u st b2] that s by (simp add: start_state_def)
    then show ?thesis using resolve_enough_fuel [of st RESOLVE_FUEL nv b2] s by (simp add: RESOLVE_FUEL_def)
  qed
  then show ?thesis
    by (fastforce simp: confine_symlink_target_with_budget_def Let_def split: sum.splits prod.splits option.splits)
qed

context resolving_view
begin

lemma confined_stays:
  assumes "confine_symlink_target_with_budget nv link target b = Some (Inr u, b')"
  shows "\<not> starts_with_slash target \<and> (\<exists>r root. nv_resolve_root nv (budget_remaining b) = Inr r \<and> lr_node r = Some root
    \<and> stays_inside child root (link_parents link, split_on 0x2F target))"
  using confined_walk [OF assms] walk_inside unfolding stays_inside_def by blast

lemma refused_gets_out:
  assumes "confine_symlink_target_with_budget nv link target b = Some (Inl e, b')" "e \<in> {EscapesRoot, Absolute}"
    "\<not> starts_with_slash target"
  shows "\<exists>r root. nv_resolve_root nv (budget_remaining b) = Inr r \<and> lr_node r = Some root
    \<and> gets_out child root (link_parents link, split_on 0x2F target)"
proof -
  from confine_runs [OF assms] obtain r root b1 st b2 st' b3
    where r: "nv_resolve_root nv (budget_remaining b) = Inr r" "lr_node r = Some root"
      and par: "resolve_parents nv (link_parents link) (start_state root target, b1) = (Inr (), (st, b2))"
      and res: "resolve_symlink_components nv RESOLVE_FUEL (st, b2) = Some (Inl e, (st', b3))" .
  have "tracks child root (start_state root target)" by (simp add: tracks_def start_state_def)
  from resolve_parents_sound [OF this par] have st: "tracks child root st" "names_of st = link_parents link"
    "ss_pending st = split_on 0x2F target" by (auto simp: start_state_def)
  from resolve_symlink_components_escape [OF st(1) res assms(2)] st r show ?thesis by (auto simp: gets_out_def)
qed

end

text \<open>
  C7. Symlink confinement decides containment. Whatever trees and links the members of a drive
  wrote, a target \<open>confine_symlink_target\<close> accepts is relative and, walked from the link's parent
  through every nested link, arrives at its end, and no point of the walk steps above the drive root
  or through an absolute link; a target refused as escaping or absolute is absolute itself or has
  such a point on its walk.
\<close>

theorem confinement_verdict:
  assumes "confine_symlink_target (drive_namespace bk v) link target = Some verdict"
  shows "(verdict = Inr () \<longrightarrow> \<not> starts_with_slash target \<and>
      (\<exists>r root. resolve_root bk v MAX_SYMLINK_WORK = Inr r \<and> lr_node r = Some root
        \<and> stays_inside (drive_child bk v) root (link_parents link, split_on 0x2F target)))
    \<and> (verdict \<in> {Inl EscapesRoot, Inl Absolute} \<longrightarrow> starts_with_slash target \<or>
      (\<exists>r root. resolve_root bk v MAX_SYMLINK_WORK = Inr r \<and> lr_node r = Some root
        \<and> gets_out (drive_child bk v) root (link_parents link, split_on 0x2F target)))"
proof -
  have root: "nv_resolve_root (drive_namespace bk v) (budget_remaining 0) = resolve_root bk v MAX_SYMLINK_WORK"
    by (simp add: drive_namespace_def budget_remaining_def saturating_sub_def)
  obtain b' where run: "confine_symlink_target_with_budget (drive_namespace bk v) link target 0 = Some (verdict, b')"
    using assms by (auto simp: confine_symlink_target_def)
  note drive.confined_stays [of bk v link target 0 _ b', unfolded root]
    drive.refused_gets_out [of bk v link target 0 _ b', unfolded root]
  with run show ?thesis by auto
qed

text \<open>
  Confinement terminates with a verdict on every link and target over every view, hostile trees
  and link cycles included: the fuel of the model, two rounds more than the component limit the code
  enforces, never runs out.
\<close>

theorem confinement_total: "\<exists>verdict. confine_symlink_target nv link target = Some verdict"
  using confine_total_with_budget [of nv link target 0] by (auto simp: confine_symlink_target_def)

section \<open>A drive with a link\<close>

text \<open>One head whose root holds a directory \<open>d\<close> and a link \<open>a\<close> to it.\<close>

definition knot_tree :: tree_node where
  "knot_tree = \<lparr>tn_entries =
    [\<lparr>en_name = Component (ascii ''a''), en_content = Symlink (ascii ''d'')\<rparr>,
     \<lparr>en_name = Component (ascii ''d''), en_content = Dir (Ident 1)\<rparr>]\<rparr>"

definition knot_view :: "memory_store drive_view" where
  "knot_view = \<lparr>dv_store = shared_new \<lparr>ms_objects = fmap_of_list [(Ident 1, (Tree, tree_encode tree_empty)),
       (Ident 2, (Tree, tree_encode knot_tree))], ms_retained = None\<rparr>,
     dv_materialization = (\<lambda>_. RemoteOnly),
     dv_heads = [\<lparr>sn_parents = [], sn_tree = Ident 2, sn_author = Ident 0, sn_membership = Ident 0, sn_epoch = 1,
       sn_flags = 0, sn_timestamp = 0, sn_signature = 0\<rparr>]\<rparr>"

definition knot_backing :: "(memory_store, memory_store_error) backing" where
  "knot_backing = \<lparr>bk_ops = memory_ops (\<lambda>_ _. 0), bk_errors = default_store_error, bk_derive = (\<lambda>_ _. 0)\<rparr>"

lemma knot_valid: "tree_valid knot_tree"
  by (simp add: knot_tree_def tree_valid_def entry_valid_def component_valid_def component_new_def ascii_def U32_MAX_def less_component_def)

lemma knot_length: "length (tree_encode knot_tree) = 53"
  by (simp add: knot_tree_def tree_encode_def ascii_def entry_bytes_def length_u32_le U32_MAX_def)

lemma knot_load: "w \<ge> 54 \<Longrightarrow> load_tree_for_resolution knot_backing knot_view (Ident 2) w = Inr (Some knot_tree, 54)"
  by (simp add: load_tree_for_resolution_def stored_bytes_def store_read_def knot_backing_def knot_view_def shared_new_def
      memory_ops_def memory_get_def fmlookup_of_list tree_decode_encode [OF knot_valid] knot_length u64_or_max_def
      saturating_add_def result_simps)

lemma knot_root: "w \<ge> 54 \<Longrightarrow> resolve_root knot_backing knot_view w =
    Inr \<lparr>lr_node = Some (DirNode (Ident 2)), lr_work = 54, lr_limit_exceeded = False\<rparr>"
proof -
  assume "w \<ge> 54"
  moreover have "head_trees dk (dv_heads knot_view) = [(snapshot_id_of dk (hd (dv_heads knot_view)), Ident 2)]"
    "dv_heads knot_view \<noteq> []" for dk by (simp_all add: knot_view_def head_trees_def)
  ultimately show ?thesis
    by (simp add: resolve_root_def knot_load saturating_add_def saturating_sub_def merge_def present_in_def Let_def result_simps linorder_not_less)
qed

lemma knot_child:
  assumes "w \<ge> 54"
  shows "resolve_child knot_backing knot_view (DirNode (Ident 2)) (ascii ''a'') w =
      Inr \<lparr>lr_node = Some (SymlinkNode (ascii ''d'')), lr_work = 54, lr_limit_exceeded = False\<rparr>"
    and "resolve_child knot_backing knot_view (DirNode (Ident 2)) (ascii ''d'') w =
      Inr \<lparr>lr_node = Some (DirNode (Ident 1)), lr_work = 54, lr_limit_exceeded = False\<rparr>"
proof -
  have "sorted_wrt (<) (map en_name (tn_entries knot_tree))" using knot_valid by (simp add: tree_valid_def)
  from binary_search_Some [OF this]
  have "binary_search (map en_name (tn_entries knot_tree)) (Component (ascii ''a'')) = Some 0"
    "binary_search (map en_name (tn_entries knot_tree)) (Component (ascii ''d'')) = Some 1" by (simp_all add: knot_tree_def)
  with assms show "resolve_child knot_backing knot_view (DirNode (Ident 2)) (ascii ''a'') w =
      Inr \<lparr>lr_node = Some (SymlinkNode (ascii ''d'')), lr_work = 54, lr_limit_exceeded = False\<rparr>"
    "resolve_child knot_backing knot_view (DirNode (Ident 2)) (ascii ''d'') w =
      Inr \<lparr>lr_node = Some (DirNode (Ident 1)), lr_work = 54, lr_limit_exceeded = False\<rparr>"
    by (simp_all add: knot_load child_node_def linorder_not_less) (simp_all add: knot_tree_def)
qed

lemmas resolve_numeral = resolve_symlink_components.simps(2) [of _ "pred_numeral k" for k, folded numeral_eq_Suc]

abbreviation knot_namespace where
  "knot_namespace \<equiv> drive_namespace knot_backing knot_view"

lemma knot_namespace:
  "w \<ge> 54 \<Longrightarrow> nv_resolve_root knot_namespace w =
    Inr \<lparr>lr_node = Some (DirNode (Ident 2)), lr_work = 54, lr_limit_exceeded = False\<rparr>"
  "w \<ge> 54 \<Longrightarrow> nv_resolve_child knot_namespace (DirNode (Ident 2)) [97] w =
    Inr \<lparr>lr_node = Some (SymlinkNode [100]), lr_work = 54, lr_limit_exceeded = False\<rparr>"
  "w \<ge> 54 \<Longrightarrow> nv_resolve_child knot_namespace (DirNode (Ident 2)) [100] w =
    Inr \<lparr>lr_node = Some (DirNode (Ident 1)), lr_work = 54, lr_limit_exceeded = False\<rparr>"
  using knot_child [of w] by (simp_all add: drive_namespace_def knot_root ascii_def)

lemmas resolver_simps = act_bind_def act_result_def consume_symlink_components_def validate_symlink_component_def
  resolve_child_within_def push_node_def settle_child_def follow_symlink_def resolve_component_def
  budget_consume_def budget_remaining_def saturating_add_def saturating_sub_def starts_with_slash_def start_state_def
  MAX_SYMLINK_HOPS_def MAX_SYMLINK_COMPONENTS_def MAX_SYMLINK_WORK_def result_simps Let_def ascii_def component_new_def

lemma knot_tight: "confine_symlink_target knot_namespace (ascii ''l'') (ascii ''a/../d'') = Some (Inr ())"
  by (simp add: confine_symlink_target_def confine_symlink_target_with_budget_def RESOLVE_FUEL_def link_parents_def
      knot_namespace resolver_simps resolve_numeral)

theorem confinement_verdict_witness:
  "\<not> starts_with_slash (ascii ''a/../d'') \<and>
    (\<exists>r root. resolve_root knot_backing knot_view MAX_SYMLINK_WORK = Inr r \<and> lr_node r = Some root
      \<and> stays_inside (drive_child knot_backing knot_view) root (link_parents (ascii ''l''), split_on 0x2F (ascii ''a/../d'')))"
  using confinement_verdict [OF knot_tight] by simp

text \<open>
  The resolver calls itself after a link has been queued, and that call drains everything that is
  pending, not the link's own segments only; the link is released from \<open>followed\<close> after the last
  segment of the whole target. A target that passes through the same link twice, one after the
  other, is therefore refused as a cycle although its walk ends inside the drive.
\<close>

lemma revisited_link_is_no_cycle:
  "confine_symlink_target knot_namespace (ascii ''l'') (ascii ''a/../a'') = Some (Inl Cycle)"
  "resolve_root knot_backing knot_view MAX_SYMLINK_WORK =
    Inr \<lparr>lr_node = Some (DirNode (Ident 2)), lr_work = 54, lr_limit_exceeded = False\<rparr>"
  "stays_inside (drive_child knot_backing knot_view) (DirNode (Ident 2)) (link_parents (ascii ''l''), split_on 0x2F (ascii ''a/../a''))"
proof -
  show "confine_symlink_target knot_namespace (ascii ''l'') (ascii ''a/../a'') = Some (Inl Cycle)"
    by (simp add: confine_symlink_target_def confine_symlink_target_with_budget_def RESOLVE_FUEL_def link_parents_def
        knot_namespace resolver_simps resolve_numeral)
  show "resolve_root knot_backing knot_view MAX_SYMLINK_WORK =
      Inr \<lparr>lr_node = Some (DirNode (Ident 2)), lr_work = 54, lr_limit_exceeded = False\<rparr>"
    by (simp add: knot_root MAX_SYMLINK_WORK_def)
  let ?child = "drive_child knot_backing knot_view" and ?root = "DirNode (Ident 2)"
  have nodes: "?child ?root [97] = Some (SymlinkNode [100])" "?child ?root [100] = Some (DirNode (Ident 1))"
    using knot_child [of "- 1"] by (simp_all add: drive_child_def ascii_def)
  have a: "walk_step ?child ?root ([], [97] # names) ([], [100] # names)" for names
    using walk_step.follow [of "[97]" ?child ?root "[]" "[100]" names] nodes node_at_simps(2) [of ?child ?root "[]" "[97]"]
    by (simp add: plain_name_def ascii_def starts_with_slash_def)
  have d: "walk_step ?child ?root ([], [100] # names) ([[100]], names)" for names
    using walk_step.enter [of "[100]" ?child ?root "[]" names] nodes node_at_simps(2) [of ?child ?root "[]" "[100]"]
    by (simp add: plain_name_def ascii_def)
  have up: "walk_step ?child ?root ([[100]], [46, 46] # names) ([], names)" for names
    using walk_step.up [of "[[100]]" ?child ?root names] by (simp add: ascii_def)
  have "(walk_step ?child ?root)\<^sup>*\<^sup>* ([], [[97], [46, 46], [97]]) ([[100]], [])"
    using a d up by (meson converse_rtranclp_into_rtranclp rtranclp.rtrancl_refl)
  then have "(walk_step ?child ?root)\<^sup>*\<^sup>* (link_parents (ascii ''l''), split_on 0x2F (ascii ''a/../a'')) ([[100]], [])"
    by (simp add: link_parents_def ascii_def)
  with walk_inside [OF this] show "stays_inside ?child ?root (link_parents (ascii ''l''), split_on 0x2F (ascii ''a/../a''))"
    unfolding stays_inside_def by blast
qed

end
