(* ===== verification/Wyrd_Rename.thy ===== *)
theory Wyrd_Rename
  imports Wyrd_Filesystem
begin

text \<open>
  Renaming a directory onto the directory that holds it (\<open>rename\<close> of \<open>crates/wyrd-format/src/mutation.rs\<close>).  The
  in-memory store never refuses a write, so whether a rename succeeds is decided by the trees on its two paths.
\<close>

section \<open>The directory at the end of a path\<close>

fun tree_below :: "(content_id \<rightharpoonup> bytes) \<Rightarrow> tree_node \<Rightarrow> component list \<Rightarrow> tree_node option" where
  "tree_below m t [] = Some t"
| "tree_below m t (c # cs) =
    (case map_option en_content (find_entry c (tn_entries t)) of
       Some (Dir subtree) \<Rightarrow> Option.bind (load m subtree) (\<lambda>child. tree_below m child cs)
     | _ \<Rightarrow> None)"

lemma tree_below_Cons:
  "tree_below m t (c # cs) = Some u \<longleftrightarrow> (\<exists>x d child. find_entry c (tn_entries t) = Some x \<and> en_content x = Dir d
     \<and> load m d = Some child \<and> tree_below m child cs = Some u)"
  by (auto simp: tree_below.simps bind_eq_Some_conv split: option.splits entry_content.splits)

declare tree_below.simps(2) [simp del]

lemma load_valid: "load m i = Some t \<Longrightarrow> tree_valid t"
  using tree_decode_sound by (auto simp: load_def split: option.splits sum.splits)

lemma tree_below_mono: "m \<subseteq>\<^sub>m m' \<Longrightarrow> tree_below m t p = Some u \<Longrightarrow> tree_below m' t p = Some u"
proof (induction p arbitrary: t)
  case (Cons c p)
  have "load m d = Some child \<Longrightarrow> load m' d = Some child" for d child
    using map_le_Some [OF Cons.prems(1)] by (auto simp: load_def split: option.splits)
  with Cons show ?case unfolding tree_below_Cons by blast
qed simp

lemma memory_load_iff: "load_tree (memory_ops dk) i s = Inr t \<longleftrightarrow> load (memory_content s) i = Some t"
  by (auto simp: load_tree_def load_def memory_ops_def memory_get_def memory_content_def result_simps split: option.splits sum.splits)

lemma resolved_below:
  assumes "cs \<noteq> []" "resolve_entry (memory_ops dk) t cs s = Inr e" "en_content e = Dir d" "load (memory_content s) d = Some u"
  shows "tree_below (memory_content s) t cs = Some u"
  using assms(1,2)
proof (induction cs arbitrary: t)
  case (Cons c cs)
  then obtain x where x: "find_entry c (tn_entries t) = Some x" by (auto simp: result_simps)
  show ?case
  proof (cases "cs = []")
    case True
    with Cons.prems x assms(3,4) show ?thesis by (simp add: tree_below_Cons)
  next
    case False
    with Cons.prems(2) x obtain d' child where d: "en_content x = Dir d'" "load_tree (memory_ops dk) d' s = Inr child"
      "resolve_entry (memory_ops dk) child cs s = Inr e"
      by (auto simp: result_simps split: entry_content.splits)
    from Cons.IH [OF False d(3)] x d(1,2) show ?thesis unfolding tree_below_Cons memory_load_iff by blast
  qed
qed simp

section \<open>Rebuilds that succeed\<close>

lemma memory_rebuild:
  assumes "length es \<le> U32_MAX" "distinct (map en_name es)" "\<And>e. e \<in> set es \<Longrightarrow> entry_valid e"
  shows "\<exists>i s'. rebuild (memory_ops dk) es s = (Inr i, s')"
proof -
  have "length (as_str (en_name e)) \<le> U32_MAX \<and> (case en_content e of File _ _ cs \<Rightarrow> length cs \<le> U32_MAX
          | Symlink t \<Rightarrow> length t \<le> U32_MAX | Dir _ \<Rightarrow> True)" if "e \<in> set es" for e
    using assms(3) [OF that] by (cases "en_content e") (auto simp: entry_valid_def component_valid_def)
  then have "from_entries es = Inr \<lparr>tn_entries = sort_key en_name es\<rparr>"
    unfolding from_entries_Inr_iff check_entry_counts_iff using assms(1,2) by blast
  then show ?thesis
    using memory_insert_result [of dk Tree "tree_encode \<lparr>tn_entries = sort_key en_name es\<rparr>" s]
    by (cases "memory_insert dk Tree (tree_encode \<lparr>tn_entries = sort_key en_name es\<rparr>) s")
      (simp add: rebuild_def act_bind_def act_result_def insert_tree_def tree_insert_into_def memory_ops_def result_simps)
qed

lemma entry_valid_dir: "entry_valid x \<Longrightarrow> en_name e = en_name x \<Longrightarrow> en_content e = Dir d \<Longrightarrow> entry_valid e"
  by (simp add: entry_valid_def)

lemma memory_rebuild_at:
  assumes "tree_valid t" "i < length (tn_entries t)"
  shows "\<exists>j s'. rebuild (memory_ops dk) (remove_at i (tn_entries t)) s = (Inr j, s')"
    and "\<exists>j s'. rebuild (memory_ops dk) ((tn_entries t)[i := (tn_entries t ! i)\<lparr>en_content := Dir d\<rparr>]) s = (Inr j, s')"
proof -
  let ?es = "tn_entries t"
  note names = valid_names [OF assms(1)]
  have len: "length ?es \<le> U32_MAX" and valid: "\<And>e. e \<in> set ?es \<Longrightarrow> entry_valid e" using assms(1) by (auto simp: tree_valid_def)
  have "distinct (map en_name (remove_at i ?es))"
    using names split_at(1) [OF names assms(2)] distinct_without unfolding remove_at_def by metis
  then show "\<exists>j s'. rebuild (memory_ops dk) (remove_at i ?es) s = (Inr j, s')"
    using len valid assms(2) by (intro memory_rebuild) (auto simp: remove_at_def dest: in_set_takeD in_set_dropD)
  have "map en_name (?es[i := (?es ! i)\<lparr>en_content := Dir d\<rparr>]) = map en_name ?es"
    using assms(2) by (simp add: map_update) (metis assms(2) list_update_id nth_map)
  moreover have "entry_valid e" if "e \<in> set (?es[i := (?es ! i)\<lparr>en_content := Dir d\<rparr>])" for e
  proof -
    from that set_update_subset_insert [of ?es i "(?es ! i)\<lparr>en_content := Dir d\<rparr>"]
    consider "e = (?es ! i)\<lparr>en_content := Dir d\<rparr>" | "e \<in> set ?es" by blast
    then show ?thesis using valid [OF nth_mem [OF assms(2)]] valid by cases (auto intro: entry_valid_dir)
  qed
  ultimately show "\<exists>j s'. rebuild (memory_ops dk) (?es[i := (?es ! i)\<lparr>en_content := Dir d\<rparr>]) s = (Inr j, s')"
    using len names by (intro memory_rebuild) simp_all
qed

lemma memory_rebuild_upsert:
  assumes "tree_valid t" "find_entry (en_name e) (tn_entries t) = Some x" "en_content e = Dir d"
  shows "\<exists>j s'. rebuild (memory_ops dk) (upsert (tn_entries t) e) s = (Inr j, s')"
proof -
  have names: "map en_name (upsert es e) = map en_name es" if "find_entry (en_name e) es = Some x" for es
    using that by (induction es) (auto split: if_splits)
  have "entry_valid x" "en_name x = en_name e"
    using find_entry_Some [OF assms(2)] assms(1) by (auto simp: tree_valid_def)
  then have "entry_valid y" if "y \<in> set (upsert (tn_entries t) e)" for y
    using that set_upsert [of "tn_entries t" e] assms(1,3) entry_valid_dir [of x e d] by (auto simp: tree_valid_def)
  moreover have "length (upsert (tn_entries t) e) = length (tn_entries t)"
    using arg_cong [OF names [OF assms(2)], of length] by simp
  ultimately show ?thesis
    using names [OF assms(2)] valid_names [OF assms(1)] assms(1) by (intro memory_rebuild) (simp_all add: tree_valid_def)
qed

text \<open>Taking an existing entry away succeeds: the descent reads before the first write.\<close>

lemma position_of_find:
  assumes "List.find P xs = Some x"
  shows "\<exists>i. position P xs = Some i \<and> i < length xs \<and> xs ! i = x"
  using assms position_None [of P xs] position_Some [of P xs] by (cases "position P xs") auto

lemma memory_remove:
  "tree_valid t \<Longrightarrow> tree_below (memory_content s) t p = Some u \<Longrightarrow> find_entry n (tn_entries u) = Some e \<Longrightarrow>
   \<exists>i s'. remove_node (memory_ops dk) t (p @ [n]) s = (Inr i, s')"
proof (induction p arbitrary: t)
  case Nil
  then obtain i where i: "position (\<lambda>x. en_name x = n) (tn_entries t) = Some i" "i < length (tn_entries t)"
    using position_of_find by fastforce
  with memory_rebuild_at(1) [OF Nil(1) i(2)] show ?case by (simp add: result_simps)
next
  case (Cons c p)
  from Cons.prems(2) obtain x d child where x: "find_entry c (tn_entries t) = Some x" "en_content x = Dir d"
    and child: "load (memory_content s) d = Some child" "tree_below (memory_content s) child p = Some u"
    unfolding tree_below_Cons by blast
  from position_of_find [OF x(1)] obtain i where i: "position (\<lambda>y. en_name y = c) (tn_entries t) = Some i"
    "i < length (tn_entries t)" "tn_entries t ! i = x" by blast
  from Cons.IH [OF load_valid [OF child(1)] child(2) Cons.prems(3)] obtain j s1 where
    j: "remove_node (memory_ops dk) child (p @ [n]) s = (Inr j, s1)" by blast
  have load: "load_tree (memory_ops dk) d s = Inr child" using child(1) by (simp add: memory_load_iff)
  from memory_rebuild_at(2) [OF Cons.prems(1) i(2), of dk j s1] i x load j show ?case
    by (simp add: act_bind_def act_result_def act_read_def dir_of_def result_simps)
qed

text \<open>Replacing an existing empty directory by a directory succeeds.\<close>

lemma memory_replace:
  "p \<noteq> [] \<Longrightarrow> tree_valid t \<Longrightarrow> tree_below (memory_content s) t p = Some u \<Longrightarrow> tn_entries u = [] \<Longrightarrow>
   en_name e = last p \<Longrightarrow> en_content e = Dir x \<Longrightarrow>
   \<exists>i s'. rename_insert (memory_ops dk) t p e True s = (Inr i, s')"
proof (induction p arbitrary: t)
  case (Cons c p)
  from Cons.prems(3) obtain y d child where y: "find_entry c (tn_entries t) = Some y" "en_content y = Dir d"
    and child: "load (memory_content s) d = Some child" "tree_below (memory_content s) child p = Some u"
    unfolding tree_below_Cons by blast
  have load: "load_tree (memory_ops dk) d s = Inr child" using child(1) by (simp add: memory_load_iff)
  show ?case
  proof (cases "p = []")
    case True
    with Cons.prems child memory_rebuild_upsert [OF Cons.prems(2), of e y x dk s] y load show ?thesis
      by (simp add: act_bind_def act_read_def is_dir_empty_def result_simps)
  next
    case False
    from Cons.IH [OF False load_valid [OF child(1)] child(2)] Cons.prems False obtain j s1 where
      j: "rename_insert (memory_ops dk) child p e True s = (Inr j, s1)" by auto
    from memory_rebuild_upsert [OF Cons.prems(2), of "\<lparr>en_name = c, en_content = Dir j\<rparr>" y j dk s1] y load j False
    show ?thesis by (simp add: act_bind_def act_result_def act_read_def dir_of_def)
  qed
qed simp

section \<open>What is left of a directory\<close>

definition without :: "component \<Rightarrow> tree_node \<Rightarrow> tree_node \<Rightarrow> bool" where
  "without n u u' \<longleftrightarrow> (\<forall>c. find_entry c (tn_entries u') = (if c = n then None else find_entry c (tn_entries u)))"

context object_store
begin

text \<open>The rebuild of the directory that held the entry, and of a directory above it.\<close>

lemma runs_remove_last:
  assumes t: "tree_valid t" and i: "position (\<lambda>x. en_name x = n) (tn_entries t) = Some i"
  shows "runs inv content dk m (rebuild (trace_ops ops) (remove_at i (tn_entries t)))
    (\<lambda>j. \<exists>t'. load m j = Some t' \<and> without n t t')"
proof (rule runs_weaken [OF runs_rebuild])
  let ?es = "tn_entries t"
  note p = position_Some [OF i]
  show "entry_typed x" if "x \<in> set (remove_at i ?es)" for x
    using that valid_entries [OF t] by (auto simp: remove_at_def dest: in_set_takeD in_set_dropD)
  fix j assume "\<exists>t'. from_entries (remove_at i ?es) = Inr t' \<and> tree_valid t' \<and> load m j = Some t'"
  then show "\<exists>t'. load m j = Some t' \<and> without n t t'"
    using find_from_entries [of "remove_at i ?es"] find_remove_at [OF valid_names [OF t] p(1)] p(2)
    by (auto simp: without_def)
qed

lemma runs_rebuild_above:
  assumes t: "tree_valid t" and i: "position (\<lambda>y. en_name y = c) (tn_entries t) = Some i"
    and j: "\<exists>t' u'. load m j = Some t' \<and> tree_below m t' p = Some u' \<and> without n u u'"
  shows "runs inv content dk m (rebuild (trace_ops ops) ((tn_entries t)[i := (tn_entries t ! i)\<lparr>en_content := Dir j\<rparr>]))
    (\<lambda>k. \<exists>t' u'. load m k = Some t' \<and> tree_below m t' (c # p) = Some u' \<and> without n u u')"
proof (rule runs_weaken [OF runs_rebuild])
  let ?es = "tn_entries t"
  let ?e = "(?es ! i)\<lparr>en_content := Dir j\<rparr>"
  note p = position_Some [OF i]
  show "entry_typed y" if "y \<in> set (?es[i := ?e])" for y
    using that set_update_subset_insert [of ?es i] valid_entries [OF t] nth_mem [OF p(1)]
    by (fastforce simp: entry_typed_def)
  fix k assume "\<exists>t'. from_entries (?es[i := ?e]) = Inr t' \<and> tree_valid t' \<and> load m k = Some t'"
  then obtain t' where t': "from_entries (?es[i := ?e]) = Inr t'" "load m k = Some t'" by blast
  have "find_entry c (tn_entries t') = Some ?e"
    using find_from_entries [OF t'(1)] find_update_at [OF valid_names [OF t] p(1), of ?e c] p(2) by simp
  with j t'(2) show "\<exists>t' u'. load m k = Some t' \<and> tree_below m t' (c # p) = Some u' \<and> without n u u'"
    unfolding tree_below_Cons by fastforce
qed

text \<open>After a removal the directory that held the entry loads, without that entry.\<close>

lemma runs_remove_below:
  "tree_valid t \<Longrightarrow> tree_below m t p = Some u \<Longrightarrow>
   runs inv content dk m (remove_node (trace_ops ops) t (p @ [n]))
     (\<lambda>i. \<exists>t' u'. load m i = Some t' \<and> tree_below m t' p = Some u' \<and> without n u u')"
proof (induction p arbitrary: t)
  case Nil
  then show ?case
    by (auto simp: Let_def intro!: runs_bind [OF _ _ runs_position] grows_rebuild runs_remove_last)
next
  case (Cons c p)
  let ?es = "tn_entries t"
  let ?Q = "\<lambda>k. \<exists>t' u'. load m k = Some t' \<and> tree_below m t' (c # p) = Some u' \<and> without n u u'"
  from Cons.prems(2) obtain x d child where x: "find_entry c ?es = Some x" "en_content x = Dir d"
    and child: "load m d = Some child" "tree_below m child p = Some u"
    unfolding tree_below_Cons by blast
  have down: "runs inv content dk m (act_bind (act_read (load_tree (trace_ops ops) d)) (\<lambda>child.
      act_bind (remove_node (trace_ops ops) child (p @ [n])) (\<lambda>j.
      rebuild (trace_ops ops) (?es[i := (?es ! i)\<lparr>en_content := Dir j\<rparr>])))) ?Q"
    if i: "position (\<lambda>y. en_name y = c) ?es = Some i" for i
  proof (rule runs_bind [OF _ _ runs_load])
    fix t1 assume t1: "load m d = Some t1 \<and> tree_valid t1"
    with child have "t1 = child" "tree_valid t1" by auto
    with child(2) have t1: "tree_valid t1" "tree_below m t1 p = Some u" by simp_all
    show "runs inv content dk m (act_bind (remove_node (trace_ops ops) t1 (p @ [n])) (\<lambda>j.
        rebuild (trace_ops ops) (?es[i := (?es ! i)\<lparr>en_content := Dir j\<rparr>]))) ?Q"
      by (rule runs_bind [OF _ _ Cons.IH [OF t1] runs_rebuild_above [OF Cons.prems(1) i]])
        (auto intro: grows_rebuild grows_remove_node)
  qed (auto intro!: grows_bind grows_rebuild grows_remove_node)
  show ?case
    unfolding append_Cons remove_node.simps Let_def
  proof (rule runs_bind [OF _ _ runs_position])
    fix i assume i: "position (\<lambda>y. en_name y = c) ?es = Some i"
    then have "?es ! i = x" using position_Some(3) [OF i] x(1) by simp
    with down [OF i] x(2) show "runs inv content dk m
      (if p @ [n] = [] then rebuild (trace_ops ops) (remove_at i ?es)
       else act_bind (act_result (dir_of c (Some (?es ! i)))) (\<lambda>subtree.
         act_bind (act_read (load_tree (trace_ops ops) subtree)) (\<lambda>child.
         act_bind (remove_node (trace_ops ops) child (p @ [n])) (\<lambda>j.
         rebuild (trace_ops ops) (?es[i := (?es ! i)\<lparr>en_content := Dir j\<rparr>]))))) ?Q"
      by (simp add: dir_of_def)
  qed (auto intro!: grows_bind grows_rebuild grows_remove_node)
qed

end

section \<open>Renaming onto the own parent\<close>

text \<open>Once the only entry of a directory is taken away, what loads in its place is empty.\<close>

lemma removal_empties:
  assumes inv: "memory_inv dk s" and t: "tree_valid t" "tree_below (memory_content s) t p = Some \<lparr>tn_entries = [e]\<rparr>"
    and run: "remove_node (trace_ops (memory_ops dk)) t (p @ [en_name e]) (s, []) = (Inr i, (s1, l1))"
    and free: "inj_on (\<lambda>(k, d). content_derive dk k d) (payloads dk (memory_content s) \<union> set l1)"
  shows "\<exists>t' u'. load (memory_content s1) i = Some t' \<and> tree_below (memory_content s1) t' p = Some u' \<and> tn_entries u' = []"
proof -
  let ?f = "remove_node (trace_ops (memory_ops dk)) t (p @ [en_name e])"
  have grows: "grows (memory_inv dk) memory_content dk ?f" by (rule memory.grows_remove_node) simp
  note G = growsD [OF grows inv run]
  have "settles dk (memory_content s1) l1"
    by (rule no_collision_settles [OF grows inv run memory.scrub [OF inv] free])
  moreover have "tree_below (memory_content s1) t p = Some \<lparr>tn_entries = [e]\<rparr>" by (rule tree_below_mono [OF G(2) t(2)])
  from memory.runs_remove_below [OF t(1) this, of dk "en_name e"]
  have "runs (memory_inv dk) memory_content dk (memory_content s1) ?f
    (\<lambda>i. \<exists>t' u'. load (memory_content s1) i = Some t' \<and> tree_below (memory_content s1) t' p = Some u'
      \<and> without (en_name e) \<lparr>tn_entries = [e]\<rparr> u')" .
  note this [unfolded runs_def, rule_format, OF inv run map_le_refl]
  ultimately obtain t' u' where u: "load (memory_content s1) i = Some t'" "tree_below (memory_content s1) t' p = Some u'"
    "without (en_name e) \<lparr>tn_entries = [e]\<rparr> u'" by blast
  have none: "find_entry c (tn_entries u') = None" for c using u(3) by (simp add: without_def)
  have "tn_entries u' = []"
  proof (cases "tn_entries u'")
    case (Cons y ys)
    with none [of "en_name y"] show ?thesis by simp
  qed
  with u show ?thesis by blast
qed

lemma resolve_below:
  "tree_below (memory_content s) t p = Some u \<Longrightarrow> find_entry n (tn_entries u) = Some e \<Longrightarrow>
   resolve_entry (memory_ops dk) t (p @ [n]) s = Inr e"
proof (induction p arbitrary: t)
  case (Cons c p)
  from Cons.prems(1) obtain x d child where x: "find_entry c (tn_entries t) = Some x" "en_content x = Dir d"
    and child: "load (memory_content s) d = Some child" "tree_below (memory_content s) child p = Some u"
    unfolding tree_below_Cons by blast
  have "load_tree (memory_ops dk) d s = Inr child" using child(1) by (simp add: memory_load_iff)
  with x Cons.IH [OF child(2) Cons.prems(2)] show ?case by (simp add: result_simps)
qed (simp add: result_simps)

lemma rename_to_parent_move:
  assumes paths: "parse_path (fst (split_trailing_slash from_path)) = Inr (p @ [n])"
      "parse_path (fst (split_trailing_slash to_path)) = Inr p"
    and root: "load_tree ops root s = Inr tree"
    and source: "resolve_entry ops tree (p @ [n]) s = Inr source" "is_dir (en_content source)"
    and dest: "resolve_entry ops tree p s = Inr dest" "is_dir (en_content dest)"
  shows "rename ops root from_path to_path s = rename_move ops tree (p @ [n]) p source s"
  using assms by (simp add: rename_unfold rename_body_def act_bind_def act_result_def act_read_def result_simps)

text \<open>The move itself: the removal empties the parent, which the rest then finds and replaces.\<close>

lemma move_onto_parent:
  assumes inv: "memory_inv dk s" and t: "tree_valid tree" "tree_below (memory_content s) tree p = Some \<lparr>tn_entries = [e]\<rparr>"
    and e: "en_content e = Dir x" and p: "p \<noteq> []"
    and free: "collision_free dk (memory_content s) (rename_move (trace_ops (memory_ops dk)) tree (p @ [en_name e]) p e) s"
  shows "\<exists>root' s'. rename_move (memory_ops dk) tree (p @ [en_name e]) p e s = (Inr root', s')"
proof -
  let ?f = "p @ [en_name e]" and ?to = "trace_ops (memory_ops dk)"
  have f: "?f \<noteq> []" by simp
  from memory_remove [OF t, of "en_name e" e dk] obtain i s1 where rm: "remove_node (memory_ops dk) tree ?f s = (Inr i, s1)" by auto
  obtain r s1' l1 where "remove_node ?to tree ?f (s, []) = (r, (s1', l1))" by (cases "remove_node ?to tree ?f (s, [])") auto
  with rm erases_remove_node [OF f, of "memory_ops dk" tree, unfolded erases_def, rule_format, of s "[]"]
  have tr: "remove_node ?to tree ?f (s, []) = (Inr i, (s1, l1))" by simp
  define rest where "rest = (\<lambda>i. act_bind (act_read (load_tree ?to i)) (\<lambda>dest. rename_insert ?to dest p
    \<lparr>en_name = last p, en_content = en_content e\<rparr> (is_dir (en_content e))))"
  have grows: "grows (memory_inv dk) memory_content dk (rest i)"
    unfolding rest_def by (intro grows_bind grows_simple memory.grows_rename_insert p)
  obtain r2 s2 l2 where more: "rest i (s1, l1) = (r2, (s2, l2))" by (cases "rest i (s1, l1)") auto
  have "rename_move ?to tree ?f p e (s, []) = (r2, (s2, l2))"
    using tr more by (simp add: rename_move_def act_bind_def rest_def)
  moreover have "memory_inv dk s1" by (rule growsD(1) [OF memory.grows_remove_node [OF f] inv tr])
  then have "set l1 \<subseteq> set l2" by (rule growsD(3) [OF grows _ more])
  ultimately have "inj_on (\<lambda>(k, d). content_derive dk k d) (payloads dk (memory_content s) \<union> set l1)"
    using free unfolding collision_free_def by (auto elim: inj_on_subset)
  from removal_empties [OF inv t tr this] obtain t' u' where u: "load (memory_content s1) i = Some t'"
    "tree_below (memory_content s1) t' p = Some u'" "tn_entries u' = []" by blast
  from memory_replace [OF p load_valid [OF u(1)] u(2,3), of "\<lparr>en_name = last p, en_content = en_content e\<rparr>" x dk] e
  obtain j s3 where "rename_insert (memory_ops dk) t' p \<lparr>en_name = last p, en_content = en_content e\<rparr> True s1 = (Inr j, s3)" by auto
  moreover have "load_tree (memory_ops dk) i s1 = Inr t'" using u(1) by (simp add: memory_load_iff)
  ultimately show ?thesis using rm e by (simp add: rename_move_def act_bind_def act_read_def)
qed

text \<open>
  C38.  Renaming a directory onto the directory that holds it succeeds whenever it is the only entry there, at any
  depth and in any in-memory store, with or without trailing slashes: the emptiness of the destination is
  judged after the source has been taken out of it, although the destination is not empty when the call is made.
  Afterwards the path of the parent shows what the renamed directory held.
\<close>

theorem rename_onto_own_parent:
  assumes "memory_inv dk s" "utf8_valid to_path"
    and "parse_path (fst (split_trailing_slash from_path)) = Inr (p @ [n])"
    and "parse_path (fst (split_trailing_slash to_path)) = Inr p"
    and "load_tree (memory_ops dk) root s = Inr tree"
    and "resolve_entry (memory_ops dk) tree p s = Inr parent" "en_content parent = Dir d"
    and "load_tree (memory_ops dk) d s = Inr \<lparr>tn_entries = [\<lparr>en_name = n, en_content = Dir x\<rparr>]\<rparr>"
    and "collision_free dk (memory_content s) (rename (trace_ops (memory_ops dk)) root from_path to_path) s"
  shows "is_dir_empty (memory_ops dk) d s = Inr False
    \<and> (\<exists>root' s'. rename (memory_ops dk) root from_path to_path s = (Inr root', s')
        \<and> (\<forall>q. view (memory_content s') (Dir root') (p @ q) = view (memory_content s') (Dir x) q))"
proof -
  let ?e = "\<lparr>en_name = n, en_content = Dir x\<rparr>"
  note p = parse_path_Inr(1) [OF assms(4)]
  note tree = memory.load_tree_Inr [OF assms(1) map_le_refl assms(5)]
  have below: "tree_below (memory_content s) tree p = Some \<lparr>tn_entries = [?e]\<rparr>"
    using resolved_below [OF p assms(6,7)] assms(8) by (simp add: memory_load_iff)
  have source: "resolve_entry (memory_ops dk) tree (p @ [n]) s = Inr ?e" by (rule resolve_below [OF below]) simp
  have dest: "is_dir (en_content parent)" by (simp add: assms(7))
  have plain: "rename (memory_ops dk) root from_path to_path s = rename_move (memory_ops dk) tree (p @ [n]) p ?e s"
    by (rule rename_to_parent_move [OF assms(3,4,5) source _ assms(6) dest]) simp
  have "rename (trace_ops (memory_ops dk)) root from_path to_path (s, [])
      = rename_move (trace_ops (memory_ops dk)) tree (p @ [n]) p ?e (s, [])"
    by (rule rename_to_parent_move [OF assms(3,4)]) (use assms(5,6) source dest p in simp_all)
  with assms(9) move_onto_parent [OF assms(1) tree(2) below _ p, of x]
  obtain root' s' where run: "rename (memory_ops dk) root from_path to_path s = (Inr root', s')"
    unfolding plain by (auto simp: collision_free_def)
  from memory.plain_run [OF memory.grows_rename erases_rename memory.runs_rename [OF assms(2)] assms(1) run assms(9)] assms(3,4)
  have view: "view (memory_content s') (Dir root') = move_view (view (memory_content s') (Dir root)) (p @ [n]) p" by simp
  have "memory_content s \<subseteq>\<^sub>m memory_content s'" using memory_keeps(5) [OF assms(1) run] by simp
  note later = memory.load_tree_Inr(1) [OF assms(1) this assms(5)] memory.resolve_entry_Inr [OF assms(1) this _ tree(2) source]
  have "view (memory_content s') (Dir root') (p @ q) = view (memory_content s') (Dir x) q" for q
    using later by (simp add: view move_view_def put_view_def view_dir)
  then show ?thesis using run assms(8) by (auto simp: is_dir_empty_def result_simps)
qed

theorem rename_onto_own_parent_witness:
  "is_dir_empty (memory_ops fs_dk) (Ident 2) fs_store = Inr False
   \<and> (\<exists>root' s'. rename (memory_ops fs_dk) (Ident 3) (ascii ''a/bb'') (ascii ''a'') fs_store = (Inr root', s')
        \<and> (\<forall>q. view (memory_content s') (Dir root') ([name_a] @ q) = view (memory_content s') (Dir (Ident 1)) q))"
proof -
  have "utf8_valid (ascii ''a'')" by (simp add: ascii_def)
  moreover have "resolve_entry (memory_ops fs_dk) \<lparr>tn_entries = [\<lparr>en_name = name_a, en_content = Dir (Ident 2)\<rparr>]\<rparr> [name_a] fs_store
      = Inr \<lparr>en_name = name_a, en_content = Dir (Ident 2)\<rparr>" by (simp add: result_simps)
  ultimately show ?thesis
    using rename_onto_own_parent [OF fs_inv, of "ascii ''a''" "ascii ''a/bb''" "[name_a]" name_b "Ident 3"] fs_runs(5)
    by (simp add: fs_parse fs_stripped fs_tree_load)
qed

end
