(* ===== verification/Wyrd_Crypto.thy ===== *)
theory Wyrd_Crypto
  imports Wyrd_Identity
begin

text \<open>
  The cryptography of the sync crate: errors, the AEAD wiring (\<open>crates/wyrd-sync/src/keys/{mod,aead}.rs\<close>)
  and the keys an epoch secret derives (\<open>keys/epoch.rs\<close>).  The elliptic curve, HKDF and the AEAD itself are
  third-party code: the functions the code calls are a parameter, and random draws are arguments.
\<close>

section \<open>Sealing\<close>

datatype crypto_error = OpenFailed | SealFailed | CryptoMalformed | HeaderMismatch | CryptoIdentityMismatch | RngFailed

text \<open>
  What the seals call: the x-only public key of a secret, the shared x-coordinate of \<open>ecdh_shared\<close>,
  HKDF-SHA256 of an input key under an info string, and the XChaCha20-Poly1305 pair of \<open>keys/aead.rs\<close>
  (key, nonce, message, associated data).
\<close>

record sealing =
  se_public :: "array32 \<Rightarrow> array32"
  se_ecdh :: "array32 \<Rightarrow> array32 \<Rightarrow> array32"
  se_hkdf :: "bytes \<Rightarrow> bytes \<Rightarrow> array32"
  se_seal :: "array32 \<Rightarrow> bytes \<Rightarrow> bytes \<Rightarrow> bytes \<Rightarrow> bytes option"
  se_open :: "array32 \<Rightarrow> bytes \<Rightarrow> bytes \<Rightarrow> bytes \<Rightarrow> bytes option"

definition aead_seal :: "sealing \<Rightarrow> array32 \<Rightarrow> bytes \<Rightarrow> bytes \<Rightarrow> bytes \<Rightarrow> crypto_error + bytes" where
  "aead_seal se key nonce msg aad = (case se_seal se key nonce msg aad of None \<Rightarrow> Inl SealFailed | Some ct \<Rightarrow> Inr ct)"

definition aead_open :: "sealing \<Rightarrow> array32 \<Rightarrow> bytes \<Rightarrow> bytes \<Rightarrow> bytes \<Rightarrow> crypto_error + bytes" where
  "aead_open se key nonce msg aad = (case se_open se key nonce msg aad of None \<Rightarrow> Inl OpenFailed | Some pt \<Rightarrow> Inr pt)"

section \<open>Epoch secrets\<close>

datatype epoch_secret_tag = EpochSecretTag

type_synonym epoch_secret = "epoch_secret_tag ident"

definition MANIFEST_KEY_CONTEXT :: string where
  "MANIFEST_KEY_CONTEXT = ''wyrd manifest key v1''"

definition OBJECT_KEY_CONTEXT :: string where
  "OBJECT_KEY_CONTEXT = ''wyrd object key v1''"

definition CONTROL_KEY_CONTEXT :: string where
  "CONTROL_KEY_CONTEXT = ''wyrd control key v1''"

definition manifest_key_input :: "epoch_secret \<Rightarrow> drive_id \<Rightarrow> u64 \<Rightarrow> snapshot_id \<Rightarrow> bytes" where
  "manifest_key_input secret drive epoch snap =
    as_bytes drive @ u64_bytes epoch @ as_bytes secret @ as_bytes snap"

definition manifest_key :: "kdf \<Rightarrow> epoch_secret \<Rightarrow> drive_id \<Rightarrow> u64 \<Rightarrow> snapshot_id \<Rightarrow> array32" where
  "manifest_key dk secret drive epoch snap = dk MANIFEST_KEY_CONTEXT (manifest_key_input secret drive epoch snap)"

definition object_key_input :: "epoch_secret \<Rightarrow> drive_id \<Rightarrow> u64 \<Rightarrow> content_id \<Rightarrow> object_kind \<Rightarrow> u8 \<Rightarrow> bytes" where
  "object_key_input secret drive epoch content kind version =
    as_bytes drive @ u64_bytes epoch @ as_bytes secret @ as_bytes content @ [kind_byte kind, version]"

definition object_key :: "kdf \<Rightarrow> epoch_secret \<Rightarrow> drive_id \<Rightarrow> u64 \<Rightarrow> content_id \<Rightarrow> object_kind \<Rightarrow> u8 \<Rightarrow> array32" where
  "object_key dk secret drive epoch content kind version =
    dk OBJECT_KEY_CONTEXT (object_key_input secret drive epoch content kind version)"

definition control_key :: "kdf \<Rightarrow> epoch_secret \<Rightarrow> drive_id \<Rightarrow> u64 \<Rightarrow> array32" where
  "control_key dk secret drive epoch =
    dk CONTROL_KEY_CONTEXT (as_bytes drive @ u64_bytes epoch @ as_bytes secret)"

section \<open>What a sealing promises\<close>

text \<open>
  The documented behaviour the deliveries rely on: an agreed secret is the same from both sides, opening
  inverts sealing under the same key, nonce and associated data, and a ciphertext is at least the
  authentication tag longer than its plaintext.
\<close>

definition ecdh_agrees :: "sealing \<Rightarrow> array32 \<Rightarrow> array32 \<Rightarrow> bool" where
  "ecdh_agrees se a b \<longleftrightarrow> se_ecdh se a (se_public se b) = se_ecdh se b (se_public se a)"

definition seal_opens :: "sealing \<Rightarrow> bool" where
  "seal_opens se \<longleftrightarrow> (\<forall>key nonce msg aad ct. se_seal se key nonce msg aad = Some ct \<longrightarrow>
     se_open se key nonce ct aad = Some msg \<and> length msg + 16 \<le> length ct)"

lemma seal_opensD:
  "seal_opens se \<Longrightarrow> se_seal se key nonce msg aad = Some ct \<Longrightarrow>
   se_open se key nonce ct aad = Some msg \<and> length msg + 16 \<le> length ct"
  by (simp add: seal_opens_def)

text \<open>A sealing whose tag is the key and whose agreement adds the secrets.\<close>

definition sample_sealing :: sealing where
  "sample_sealing =
    \<lparr>se_public = (\<lambda>sk. sk), se_ecdh = (\<lambda>sk pk. sk + pk), se_hkdf = (\<lambda>shared info. array32_of shared),
     se_seal = (\<lambda>key nonce msg aad. Some (msg @ array32_bytes key)),
     se_open = (\<lambda>key nonce ct aad.
       if drop (length ct - 32) ct = array32_bytes key then Some (take (length ct - 32) ct) else None)\<rparr>"

lemma sample_sealing_laws: "ecdh_agrees sample_sealing a b" "seal_opens sample_sealing"
  by (auto simp: ecdh_agrees_def seal_opens_def sample_sealing_def add.commute)

end
