(* ===== verification/Wyrd_Capability.thy ===== *)
theory Wyrd_Capability
  imports Wyrd_Log Wyrd_Crypto
begin

text \<open>
  Capabilities, their stored and delivered forms, and the keyring
  (\<open>crates/wyrd-sync/src/keys/capability/{model,encoding}.rs\<close>).
\<close>

section \<open>Capabilities\<close>

record capability =
  cap_drive :: drive_id
  cap_device :: device_id
  cap_encryption_key :: device_encryption_key
  cap_transition :: transition_id
  cap_secrets :: "epoch_secret list"

datatype capability_error =
    CapEpochMismatch u64 u64
  | CapEmpty
  | InvalidEncryptionKey
  | InvalidDevice
  | NotAMember
  | StaleEncryptionKey
  | TransitionMismatch transition_id transition_id
  | UnknownTransition transition_id
  | UnauthorizableTransition transition_id
  | CapDriveMismatch drive_id drive_id

definition capability_new ::
  "crypto \<Rightarrow> drive_id \<Rightarrow> device_id \<Rightarrow> device_encryption_key \<Rightarrow> transition_id \<Rightarrow> u64 \<Rightarrow> epoch_secret list
    \<Rightarrow> capability_error + capability" where
  "capability_new cr drive device encryption_key transition epoch secrets =
    (let carried = of_nat (length secrets) in
     if secrets = [] then Inl CapEmpty
     else if carried \<noteq> epoch then Inl (CapEpochMismatch epoch carried)
     else if \<not> cr_xonly_from_slice cr (raw encryption_key) then Inl InvalidEncryptionKey
     else if \<not> cr_xonly_from_slice cr (raw device) then Inl InvalidDevice
     else Inr \<lparr>cap_drive = drive, cap_device = device, cap_encryption_key = encryption_key,
       cap_transition = transition, cap_secrets = secrets\<rparr>)"

definition capability_mint ::
  "crypto \<Rightarrow> drive_id \<Rightarrow> device_id \<Rightarrow> membership_state \<Rightarrow> membership_transition \<Rightarrow> epoch_secret list
    \<Rightarrow> capability_error + capability" where
  "capability_mint cr drive device state transition secrets =
    (case encryption_key_of state device of
       None \<Rightarrow> Inl NotAMember
     | Some encryption_key \<Rightarrow>
         capability_new cr drive device encryption_key (transition_id_of (cr_derive_key cr) transition)
           (mt_epoch transition) secrets)"

definition covered_epoch :: "capability \<Rightarrow> u64" where
  "covered_epoch c = of_nat (length (cap_secrets c))"

definition up_to_epoch :: "capability \<Rightarrow> u64" where
  "up_to_epoch c = of_nat (length (cap_secrets c))"

definition validate_against :: "capability \<Rightarrow> membership_state \<Rightarrow> capability_error + unit" where
  "validate_against c state =
    (case encryption_key_of state (cap_device c) of
       None \<Rightarrow> Inl NotAMember
     | Some registered \<Rightarrow> if registered = cap_encryption_key c then Inr () else Inl StaleEncryptionKey)"

definition authorize_against ::
  "crypto \<Rightarrow> capability \<Rightarrow> drive_id \<Rightarrow> membership_log \<Rightarrow> transition_id \<Rightarrow> capability_error + unit" where
  "authorize_against cr c drive log i =
    (if cap_drive c \<noteq> drive then Inl (CapDriveMismatch drive (cap_drive c))
     else (case log_authoritative cr log i of
         None \<Rightarrow> Inl (UnknownTransition i)
       | Some AuthPending \<Rightarrow> Inl (UnknownTransition i)
       | Some AuthTerminal \<Rightarrow> Inl (UnauthorizableTransition i)
       | Some (AuthValid transition state) \<Rightarrow>
           (let found = transition_id_of (cr_derive_key cr) transition in
            case validate_against c state of
              Inl e \<Rightarrow> Inl e
            | Inr _ \<Rightarrow>
                if cap_transition c \<noteq> found then Inl (TransitionMismatch found (cap_transition c))
                else if covered_epoch c \<noteq> mt_epoch transition
                then Inl (CapEpochMismatch (mt_epoch transition) (covered_epoch c))
                else Inr ())))"

section \<open>The stored document\<close>

definition plaintext_bytes :: "capability \<Rightarrow> bytes" where
  "plaintext_bytes c =
    as_bytes (cap_drive c) @ as_bytes (cap_device c) @ as_bytes (cap_encryption_key c) @ as_bytes (cap_transition c)
    @ u64_bytes (up_to_epoch c) @ u32_bytes (of_nat (length (cap_secrets c))) @ ids_bytes (cap_secrets c)"

definition parse_plaintext :: "crypto \<Rightarrow> bytes \<Rightarrow> capability option" where
  "parse_plaintext cr pt =
    (if length pt < 140 \<or> (length pt - 140) mod 32 \<noteq> 0 then None
     else let epoch = u64_of (subslice pt 128 8); count = unat (u32_of (subslice pt 136 4)) in
       if unat epoch \<noteq> count \<or> length pt \<noteq> 140 + count * 32 then None
       else (case capability_new cr (from_bytes (subslice pt 0 32)) (from_bytes (subslice pt 32 32))
               (from_bytes (subslice pt 64 32)) (from_bytes (subslice pt 96 32)) epoch (ids_of (drop 140 pt)) of
           Inl _ \<Rightarrow> None
         | Inr c \<Rightarrow> Some c))"

section \<open>The delivery envelope\<close>

definition CAPABILITY_KEY_CONTEXT :: bytes where
  "CAPABILITY_KEY_CONTEXT = ascii ''wyrd capability key v1''"

definition CAPABILITY_AAD_DOMAIN :: bytes where
  "CAPABILITY_AAD_DOMAIN = ascii ''wyrd capability v1''"

definition hkdf_capability_key :: "sealing \<Rightarrow> array32 \<Rightarrow> array32" where
  "hkdf_capability_key se shared = se_hkdf se (array32_bytes shared) CAPABILITY_KEY_CONTEXT"

definition capability_aad ::
  "drive_id \<Rightarrow> device_id \<Rightarrow> device_encryption_key \<Rightarrow> transition_id \<Rightarrow> u64 \<Rightarrow> bytes" where
  "capability_aad drive device encryption_key transition epoch =
    CAPABILITY_AAD_DOMAIN @ as_bytes drive @ as_bytes device @ as_bytes encryption_key @ as_bytes transition
    @ u64_bytes epoch"

text \<open>The two draws, the ephemeral secret and the nonce, succeed or report the failing random source.\<close>

definition capability_wrap ::
  "crypto \<Rightarrow> sealing \<Rightarrow> crypto_error + array32 \<Rightarrow> crypto_error + bytes \<Rightarrow> capability \<Rightarrow> crypto_error + bytes" where
  "capability_wrap cr se ephemeral draw_nonce c =
    (case ephemeral of
       Inl e \<Rightarrow> Inl e
     | Inr sk \<Rightarrow>
         if \<not> cr_xonly_from_slice cr (raw (cap_encryption_key c)) then Inl CryptoMalformed
         else (case draw_nonce of
             Inl e \<Rightarrow> Inl e
           | Inr nonce \<Rightarrow>
               (let key = hkdf_capability_key se (se_ecdh se sk (raw (cap_encryption_key c)));
                    aad = capability_aad (cap_drive c) (cap_device c) (cap_encryption_key c) (cap_transition c)
                      (up_to_epoch c) in
                case aead_seal se key nonce (plaintext_bytes c) aad of
                  Inl e \<Rightarrow> Inl e
                | Inr ct \<Rightarrow>
                    Inr (array32_bytes (se_public se sk) @ drop (length CAPABILITY_AAD_DOMAIN) aad @ nonce @ ct))))"

definition capability_unwrap :: "crypto \<Rightarrow> sealing \<Rightarrow> array32 \<Rightarrow> bytes \<Rightarrow> crypto_error + capability" where
  "capability_unwrap cr se secret bs =
    (if length bs < 160 + 24 + 48 then Inl CryptoMalformed
     else if \<not> cr_xonly_from_slice cr (array32_of (subslice bs 0 32)) then Inl CryptoMalformed
     else
       let drive = from_bytes (subslice bs 32 32); claimed_device = from_bytes (subslice bs 64 32);
           claimed_key = from_bytes (subslice bs 96 32); transition = from_bytes (subslice bs 128 32);
           epoch = u64_of (subslice bs 160 8); nonce = subslice bs 168 24; ct = drop 192 bs;
           key = hkdf_capability_key se (se_ecdh se secret (array32_of (subslice bs 0 32)));
           aad = capability_aad drive claimed_device claimed_key transition epoch in
       (case aead_open se key nonce ct aad of
          Inl e \<Rightarrow> Inl e
        | Inr pt \<Rightarrow>
            if length pt < 140 then Inl CryptoMalformed
            else let count = unat (u32_of (subslice pt 136 4)) in
              if length pt \<noteq> 140 + count * 32 then Inl CryptoMalformed
              else if from_bytes (subslice pt 0 32) \<noteq> drive \<or> from_bytes (subslice pt 32 32) \<noteq> claimed_device
                \<or> from_bytes (subslice pt 64 32) \<noteq> claimed_key \<or> from_bytes (subslice pt 96 32) \<noteq> transition
              then Inl HeaderMismatch
              else if unat (u64_of (subslice pt 128 8)) \<noteq> count then Inl CryptoMalformed
              else if u64_of (subslice pt 128 8) \<noteq> epoch then Inl HeaderMismatch
              else if se_public se secret \<noteq> raw claimed_key then Inl HeaderMismatch
              else Inr \<lparr>cap_drive = drive, cap_device = claimed_device, cap_encryption_key = claimed_key,
                cap_transition = transition, cap_secrets = ids_of (drop 140 pt)\<rparr>))"

section \<open>The keyring\<close>

record drive_keyring =
  kr_drive :: drive_id
  kr_device :: device_id
  kr_secrets :: "(u64, epoch_secret) fmap"

datatype install_error =
    WrongDrive drive_id drive_id
  | WrongDevice device_id device_id
  | Unauthorized capability_error
  | EpochConflict u64
  | InstallCrypto crypto_error

datatype install_report = NoChange | Added u64 u64

definition keyring_new :: "drive_id \<Rightarrow> device_id \<Rightarrow> drive_keyring" where
  "keyring_new drive device = \<lparr>kr_drive = drive, kr_device = device, kr_secrets = fmempty\<rparr>"

definition preflight :: "crypto \<Rightarrow> drive_keyring \<Rightarrow> capability \<Rightarrow> membership_log \<Rightarrow> install_error + unit" where
  "preflight cr kr c log =
    (if cap_drive c \<noteq> kr_drive kr then Inl (WrongDrive (cap_drive c) (kr_drive kr))
     else if cap_device c \<noteq> kr_device kr then Inl (WrongDevice (cap_device c) (kr_device kr))
     else map_err Unauthorized (authorize_against cr c (kr_drive kr) log (cap_transition c)))"

text \<open>The enumeration \<open>(i as u64 + 1, secret)\<close> both install paths walk.\<close>

definition epoch_secrets :: "capability \<Rightarrow> (u64 \<times> epoch_secret) list" where
  "epoch_secrets c = map (\<lambda>(i, secret). (of_nat i + 1, secret)) (enumerate 0 (cap_secrets c))"

fun add_vacant ::
  "(u64 \<times> epoch_secret) list \<Rightarrow> (u64, epoch_secret) fmap \<Rightarrow> u64 option \<Rightarrow> u64
    \<Rightarrow> (u64, epoch_secret) fmap \<times> u64 option \<times> u64" where
  "add_vacant [] held added_from added_to = (held, added_from, added_to)"
| "add_vacant ((epoch, secret) # entries) held added_from added_to =
    (case fmlookup held epoch of
       None \<Rightarrow> add_vacant entries (fmupd epoch secret held)
         (if added_from = None then Some epoch else added_from) epoch
     | Some _ \<Rightarrow> add_vacant entries held added_from added_to)"

definition epoch_conflict :: "(u64, epoch_secret) fmap \<Rightarrow> u64 \<times> epoch_secret \<Rightarrow> bool" where
  "epoch_conflict held entry =
    (case fmlookup held (fst entry) of Some current \<Rightarrow> current \<noteq> snd entry | None \<Rightarrow> False)"

definition keyring_install ::
  "crypto \<Rightarrow> capability \<Rightarrow> membership_log \<Rightarrow> drive_keyring \<Rightarrow> (install_error + install_report) \<times> drive_keyring" where
  "keyring_install cr c log kr =
    (case preflight cr kr c log of
       Inl e \<Rightarrow> (Inl e, kr)
     | Inr _ \<Rightarrow>
         (case List.find (epoch_conflict (kr_secrets kr)) (epoch_secrets c) of
            Some (epoch, _) \<Rightarrow> (Inl (EpochConflict epoch), kr)
          | None \<Rightarrow>
              (let (held, added_from, added_to) = add_vacant (epoch_secrets c) (kr_secrets kr) None 0 in
               (Inr (case added_from of None \<Rightarrow> NoChange | Some from_epoch \<Rightarrow> Added from_epoch added_to),
                kr\<lparr>kr_secrets := held\<rparr>))))"

fun fill_vacant ::
  "(u64 \<times> epoch_secret) list \<Rightarrow> (u64, epoch_secret) fmap \<Rightarrow> u64 list \<Rightarrow> u64 list \<times> (u64, epoch_secret) fmap" where
  "fill_vacant [] held skipped = (skipped, held)"
| "fill_vacant ((epoch, secret) # entries) held skipped =
    (case fmlookup held epoch of
       None \<Rightarrow> fill_vacant entries (fmupd epoch secret held) skipped
     | Some current \<Rightarrow> fill_vacant entries held (if current \<noteq> secret then skipped @ [epoch] else skipped))"

definition install_vacant ::
  "crypto \<Rightarrow> capability \<Rightarrow> membership_log \<Rightarrow> drive_keyring \<Rightarrow> (install_error + u64 list) \<times> drive_keyring" where
  "install_vacant cr c log kr =
    (case preflight cr kr c log of
       Inl e \<Rightarrow> (Inl e, kr)
     | Inr _ \<Rightarrow>
         (let (skipped, held) = fill_vacant (epoch_secrets c) (kr_secrets kr) [] in
          (Inr skipped, kr\<lparr>kr_secrets := held\<rparr>)))"

definition keyring_secret :: "drive_keyring \<Rightarrow> u64 \<Rightarrow> epoch_secret option" where
  "keyring_secret kr epoch = fmlookup (kr_secrets kr) epoch"

definition keyring_up_to :: "drive_keyring \<Rightarrow> u64" where
  "keyring_up_to kr = (case rev (sorted_list_of_fset (fmdom (kr_secrets kr))) of [] \<Rightarrow> 0 | epoch # _ \<Rightarrow> epoch)"

definition keyring_is_empty :: "drive_keyring \<Rightarrow> bool" where
  "keyring_is_empty kr \<longleftrightarrow> kr_secrets kr = fmempty"

end
