(* ===== verification/Wyrd_Keyring.thy ===== *)
theory Wyrd_Keyring
  imports Wyrd_Capability
begin

text \<open>
  What the keyring and the capability documents promise: installing adds and never replaces, the strict
  and the fill-vacant install agree where they both apply, the stored document and the delivery envelope
  give back the capability they were made from.
\<close>

section \<open>Installing\<close>

definition cap_bounded :: "capability \<Rightarrow> bool" where
  "cap_bounded c \<longleftrightarrow> length (cap_secrets c) < 2 ^ 64"

definition cap_secret :: "capability \<Rightarrow> u64 \<Rightarrow> epoch_secret option" where
  "cap_secret c epoch =
    (if 0 < epoch \<and> unat epoch \<le> length (cap_secrets c) then Some (cap_secrets c ! (unat epoch - 1)) else None)"

lemma fill_vacant_lookup:
  "fmlookup (snd (fill_vacant entries held skipped)) epoch =
    (case fmlookup held epoch of Some secret \<Rightarrow> Some secret | None \<Rightarrow> map_of entries epoch)"
  by (induction entries held skipped rule: fill_vacant.induct) (auto split: option.splits)

lemma add_vacant_lookup:
  "fmlookup (fst (add_vacant entries held f t)) epoch =
    (case fmlookup held epoch of Some secret \<Rightarrow> Some secret | None \<Rightarrow> map_of entries epoch)"
  by (induction entries held f t rule: add_vacant.induct) (auto split: option.splits)

lemma add_vacant_fill_vacant: "fst (add_vacant entries held f t) = snd (fill_vacant entries held skipped)"
  by (rule fmap_ext) (simp add: add_vacant_lookup fill_vacant_lookup)

lemma epoch_conflict_Pair [simp]:
  "epoch_conflict held (epoch, secret) \<longleftrightarrow> fmlookup held epoch \<noteq> None \<and> fmlookup held epoch \<noteq> Some secret"
  by (auto simp: epoch_conflict_def split: option.splits)

lemma fill_vacant_skipped:
  "distinct (map fst entries) \<Longrightarrow>
   fst (fill_vacant entries held skipped) = skipped @ map fst (filter (epoch_conflict held) entries)"
proof (induction entries held skipped rule: fill_vacant.induct)
  case (2 epoch secret entries held skipped)
  have "filter (epoch_conflict (fmupd epoch secret held)) entries = filter (epoch_conflict held) entries"
    using 2(3) by (intro filter_cong) (auto simp: image_iff)
  then show ?case using 2 by (auto split: option.splits)
qed simp

lemma epoch_of_index: "i < 2 ^ 64 - 1 \<Longrightarrow> unat (of_nat i + 1 :: u64) = Suc i"
proof -
  assume i: "i < 2 ^ 64 - 1"
  have "of_nat i + 1 = (of_nat (Suc i) :: u64)" by simp
  then have "unat (of_nat i + 1 :: u64) = Suc i mod 2 ^ 64" by (simp only: unat_of_nat) simp
  with i show ?thesis by simp
qed

lemma epoch_secrets_eq:
  "epoch_secrets c = map (\<lambda>i. (of_nat i + 1, cap_secrets c ! i)) [0..<length (cap_secrets c)]"
  by (auto simp: epoch_secrets_def enumerate_eq_zip intro!: nth_equalityI)

lemma distinct_epochs: "cap_bounded c \<Longrightarrow> distinct (map fst (epoch_secrets c))"
proof -
  assume b: "cap_bounded c"
  have "inj_on (\<lambda>i. of_nat i + 1 :: u64) {0..<length (cap_secrets c)}"
  proof (rule inj_onI)
    fix i j assume ij: "i \<in> {0..<length (cap_secrets c)}" "j \<in> {0..<length (cap_secrets c)}"
      "of_nat i + 1 = (of_nat j + 1 :: u64)"
    have "unat (of_nat i + 1 :: u64) = Suc i" "unat (of_nat j + 1 :: u64) = Suc j"
      using b ij(1,2) by (auto simp: cap_bounded_def intro!: epoch_of_index)
    with ij(3) show "i = j" by (metis nat.inject)
  qed
  then show ?thesis by (simp add: epoch_secrets_eq comp_def distinct_map)
qed

lemma in_epoch_secrets:
  assumes "cap_bounded c"
  shows "(epoch, secret) \<in> set (epoch_secrets c) \<longleftrightarrow> cap_secret c epoch = Some secret"
proof
  assume "(epoch, secret) \<in> set (epoch_secrets c)"
  then obtain i where i: "i < length (cap_secrets c)" "epoch = of_nat i + 1" "secret = cap_secrets c ! i"
    by (auto simp: epoch_secrets_eq)
  then have "unat epoch = Suc i" using assms epoch_of_index [of i] by (simp add: cap_bounded_def)
  moreover from this have "0 < epoch" by (simp add: word_less_nat_alt)
  ultimately show "cap_secret c epoch = Some secret" using i by (simp add: cap_secret_def)
next
  assume a: "cap_secret c epoch = Some secret"
  then have e: "0 < unat epoch" "unat epoch \<le> length (cap_secrets c)" "secret = cap_secrets c ! (unat epoch - 1)"
    by (auto simp: cap_secret_def word_less_nat_alt split: if_splits)
  have "epoch = of_nat (Suc (unat epoch - 1))" using e(1) by simp
  then have "epoch = of_nat (unat epoch - 1) + 1" by (simp add: add.commute)
  with e show "(epoch, secret) \<in> set (epoch_secrets c)"
    by (auto simp: epoch_secrets_eq intro!: image_eqI [of _ _ "unat epoch - 1"])
qed

lemma map_of_epoch_secrets: "cap_bounded c \<Longrightarrow> map_of (epoch_secrets c) epoch = cap_secret c epoch"
  using in_epoch_secrets [of c epoch] distinct_epochs [of c]
  by (cases "cap_secret c epoch") (auto simp: map_of_eq_None_iff)

lemma install_vacant_cases:
  "install_vacant cr c log kr = (r, kr') \<longleftrightarrow>
    (\<exists>e. preflight cr kr c log = Inl e \<and> r = Inl e \<and> kr' = kr)
    \<or> (preflight cr kr c log = Inr () \<and> r = Inr (fst (fill_vacant (epoch_secrets c) (kr_secrets kr) []))
       \<and> kr' = kr\<lparr>kr_secrets := snd (fill_vacant (epoch_secrets c) (kr_secrets kr) [])\<rparr>)"
  by (auto simp: install_vacant_def split: sum.splits prod.splits)

text \<open>Installing keeps what is held and adds the secrets of the epochs that were vacant.\<close>

lemma install_vacant_secret:
  assumes "cap_bounded c" "install_vacant cr c log kr = (Inr skipped, kr')"
  shows "keyring_secret kr' epoch =
    (case keyring_secret kr epoch of Some secret \<Rightarrow> Some secret | None \<Rightarrow> cap_secret c epoch)"
    and "kr_drive kr' = kr_drive kr" "kr_device kr' = kr_device kr"
    and "skipped = filter (\<lambda>e. keyring_secret kr e \<noteq> None \<and> keyring_secret kr e \<noteq> cap_secret c e)
      (map fst (epoch_secrets c))"
proof -
  have kr': "kr' = kr\<lparr>kr_secrets := snd (fill_vacant (epoch_secrets c) (kr_secrets kr) [])\<rparr>"
    and sk: "skipped = fst (fill_vacant (epoch_secrets c) (kr_secrets kr) [])"
    using assms(2) by (auto simp: install_vacant_cases)
  show "keyring_secret kr' epoch =
      (case keyring_secret kr epoch of Some secret \<Rightarrow> Some secret | None \<Rightarrow> cap_secret c epoch)"
    using map_of_epoch_secrets [OF assms(1)]
    by (auto simp: kr' keyring_secret_def fill_vacant_lookup split: option.splits)
  show "kr_drive kr' = kr_drive kr" "kr_device kr' = kr_device kr" by (simp_all add: kr')
  show "skipped = filter (\<lambda>e. keyring_secret kr e \<noteq> None \<and> keyring_secret kr e \<noteq> cap_secret c e)
      (map fst (epoch_secrets c))"
    unfolding sk fill_vacant_skipped [OF distinct_epochs [OF assms(1)]] filter_map comp_def append_Nil
    by (intro arg_cong [where f = "map fst"] filter_cong refl)
       (auto simp: in_epoch_secrets assms(1) keyring_secret_def)
qed

lemma find_None_iff_all: "List.find P xs = None \<longleftrightarrow> (\<forall>x \<in> set xs. \<not> P x)"
  by (induction xs) auto

text \<open>The strict install refuses exactly where the fill-vacant one would skip, and otherwise does the same.\<close>

lemma keyring_install_agrees:
  assumes "cap_bounded c"
  shows "install_vacant cr c log kr = (Inr [], kr') \<longleftrightarrow> (\<exists>report. keyring_install cr c log kr = (Inr report, kr'))"
proof (cases "preflight cr kr c log")
  case (Inr u)
  have n: "fst (fill_vacant (epoch_secrets c) (kr_secrets kr) []) = []
      \<longleftrightarrow> List.find (epoch_conflict (kr_secrets kr)) (epoch_secrets c) = None"
    unfolding fill_vacant_skipped [OF distinct_epochs [OF assms]] find_None_iff_all
    by (auto simp: filter_empty_conv)
  show ?thesis
    using Inr n add_vacant_fill_vacant [of "epoch_secrets c" "kr_secrets kr" None 0 "[]"]
    by (cases "List.find (epoch_conflict (kr_secrets kr)) (epoch_secrets c)")
       (auto simp: install_vacant_cases keyring_install_def split: prod.splits)
qed (auto simp: install_vacant_cases keyring_install_def)

section \<open>The stored document\<close>

definition cap_valid :: "crypto \<Rightarrow> capability \<Rightarrow> bool" where
  "cap_valid cr c \<longleftrightarrow> cap_secrets c \<noteq> [] \<and> length (cap_secrets c) \<le> U32_MAX
     \<and> cr_xonly_from_slice cr (raw (cap_encryption_key c)) \<and> cr_xonly_from_slice cr (raw (cap_device c))"

lemma cap_valid_bounded: "cap_valid cr c \<Longrightarrow> cap_bounded c"
  by (simp add: cap_valid_def cap_bounded_def U32_MAX_def)

lemma secret_count:
  assumes "length (cap_secrets c) \<le> U32_MAX"
  shows "unat (of_nat (length (cap_secrets c)) :: u32) = length (cap_secrets c)"
    and "unat (up_to_epoch c) = length (cap_secrets c)"
  using assms by (simp_all add: U32_MAX_def up_to_epoch_def unat_of_nat)

lemma length_plaintext_bytes [simp]: "length (plaintext_bytes c) = 140 + length (cap_secrets c) * 32"
  by (simp add: plaintext_bytes_def)

lemma plaintext_fields:
  assumes "pt = plaintext_bytes c"
  shows "subslice pt 0 32 = as_bytes (cap_drive c)" "subslice pt 32 32 = as_bytes (cap_device c)"
    "subslice pt 64 32 = as_bytes (cap_encryption_key c)" "subslice pt 96 32 = as_bytes (cap_transition c)"
    "subslice pt 128 8 = u64_bytes (up_to_epoch c)" "subslice pt 136 4 = u32_bytes (of_nat (length (cap_secrets c)))"
    "drop 140 pt = ids_bytes (cap_secrets c)"
  by (simp_all add: assms plaintext_bytes_def wire_simps)

lemma parse_plaintext_bytes: "cap_valid cr c \<Longrightarrow> parse_plaintext cr (plaintext_bytes c) = Some c"
  by (simp add: parse_plaintext_def plaintext_fields [OF refl] Let_def capability_new_def cap_valid_def secret_count
      flip: up_to_epoch_def)

lemma plaintext_split:
  assumes "length pt = 140 + n * 32"
  shows "subslice pt 0 32 @ subslice pt 32 32 @ subslice pt 64 32 @ subslice pt 96 32 @ subslice pt 128 8
    @ subslice pt 136 4 @ drop 140 pt = pt"
  by (simp add: slice_join) (simp add: subslice_def)

lemma parse_plaintext_sound:
  assumes "parse_plaintext cr pt = Some c"
  shows "cap_valid cr c \<and> plaintext_bytes c = pt"
proof -
  let ?n = "unat (u32_of (subslice pt 136 4))"
  from assms have len: "length pt = 140 + ?n * 32" and epoch: "unat (u64_of (subslice pt 128 8)) = ?n"
    and new: "capability_new cr (from_bytes (subslice pt 0 32)) (from_bytes (subslice pt 32 32))
      (from_bytes (subslice pt 64 32)) (from_bytes (subslice pt 96 32)) (u64_of (subslice pt 128 8))
      (ids_of (drop 140 pt)) = Inr c"
    by (auto simp: parse_plaintext_def Let_def split: if_splits sum.splits)
  have n: "length (cap_secrets c) = ?n" "ids_bytes (cap_secrets c) = drop 140 pt"
    using new len by (auto simp: capability_new_def Let_def length_ids_of ids_bytes_ids_of split: if_splits)
  have bound: "?n \<le> U32_MAX" using unat_u32_less [of "u32_of (subslice pt 136 4)"] by (simp add: U32_MAX_def)
  have "of_nat ?n = u32_of (subslice pt 136 4)" by simp
  moreover have "up_to_epoch c = u64_of (subslice pt 128 8)" by (simp add: up_to_epoch_def n(1) flip: epoch)
  ultimately have "plaintext_bytes c = pt"
    using new len n plaintext_split [OF len]
    by (auto simp: plaintext_bytes_def capability_new_def Let_def as_from_bytes bytes_of_field length_slice split: if_splits)
  moreover have "cap_valid cr c" using new n bound by (auto simp: cap_valid_def capability_new_def Let_def split: if_splits)
  ultimately show ?thesis by simp
qed

interpretation capability_document:
  canonical_codec plaintext_bytes "\<lambda>pt. ok_or (parse_plaintext cr pt) ()" "cap_valid cr" for cr
  by unfold_locales
     (auto simp: ok_or_def parse_plaintext_bytes dest: parse_plaintext_sound split: option.splits)

text \<open>
  C37. A stored capability has one byte form: a document parses exactly when it is the encoding of a
  capability that carries at least one and at most a 32-bit count of secrets and whose device and
  encryption keys are curve points.
\<close>

theorem capability_canonical:
  "parse_plaintext cr pt = Some c \<longleftrightarrow> cap_valid cr c \<and> pt = plaintext_bytes c"
  using capability_document.decode_iff [of cr pt c] by (simp add: ok_or_def split: option.splits)

section \<open>The delivery envelope\<close>

lemma length_aad_domain: "length CAPABILITY_AAD_DOMAIN = 18"
  by (simp add: CAPABILITY_AAD_DOMAIN_def ascii_def)

lemma wrapped_bytes:
  assumes "capability_wrap cr se (Inr sk) (Inr nonce) c = Inr bs"
  obtains ct where "se_seal se (hkdf_capability_key se (se_ecdh se sk (raw (cap_encryption_key c)))) nonce
      (plaintext_bytes c) (capability_aad (cap_drive c) (cap_device c) (cap_encryption_key c) (cap_transition c)
        (up_to_epoch c)) = Some ct"
    and "bs = array32_bytes (se_public se sk) @ as_bytes (cap_drive c) @ as_bytes (cap_device c)
      @ as_bytes (cap_encryption_key c) @ as_bytes (cap_transition c) @ u64_bytes (up_to_epoch c) @ nonce @ ct"
proof -
  have "drop (length CAPABILITY_AAD_DOMAIN) (capability_aad d v k t e) =
      as_bytes d @ as_bytes v @ as_bytes k @ as_bytes t @ u64_bytes e" for d v k t e
    by (simp add: capability_aad_def)
  with assms that show thesis
    by (auto simp: capability_wrap_def aead_seal_def Let_def split: if_splits option.splits)
qed

text \<open>
  C33. A capability wrapped for the holder of an encryption secret is unwrapped by that secret to the
  capability itself, whatever ephemeral secret and nonce the wrap drew.
\<close>

theorem capability_delivery:
  assumes wrap: "capability_wrap cr se (Inr sk) (Inr nonce) c = Inr bs"
    and valid: "cap_valid cr c" and nonce: "length nonce = 24"
    and key: "raw (cap_encryption_key c) = se_public se secret"
    and curve: "cr_xonly_from_slice cr (se_public se sk)"
    and laws: "ecdh_agrees se sk secret" "seal_opens se"
  shows "capability_unwrap cr se secret bs = Inr c"
proof -
  obtain ct where ct: "se_seal se (hkdf_capability_key se (se_ecdh se sk (raw (cap_encryption_key c)))) nonce
      (plaintext_bytes c) (capability_aad (cap_drive c) (cap_device c) (cap_encryption_key c) (cap_transition c)
        (up_to_epoch c)) = Some ct"
    and bs: "bs = array32_bytes (se_public se sk) @ as_bytes (cap_drive c) @ as_bytes (cap_device c)
      @ as_bytes (cap_encryption_key c) @ as_bytes (cap_transition c) @ u64_bytes (up_to_epoch c) @ nonce @ ct"
    by (rule wrapped_bytes [OF wrap])
  have fields: "subslice bs 0 32 = array32_bytes (se_public se sk)" "subslice bs 32 32 = as_bytes (cap_drive c)"
    "subslice bs 64 32 = as_bytes (cap_device c)" "subslice bs 96 32 = as_bytes (cap_encryption_key c)"
    "subslice bs 128 32 = as_bytes (cap_transition c)" "subslice bs 160 8 = u64_bytes (up_to_epoch c)"
    "subslice bs 168 24 = nonce" "drop 192 bs = ct"
    using nonce by (simp_all add: bs wire_simps)
  have opened: "se_open se (hkdf_capability_key se (se_ecdh se secret (se_public se sk))) nonce ct
      (capability_aad (cap_drive c) (cap_device c) (cap_encryption_key c) (cap_transition c) (up_to_epoch c))
      = Some (plaintext_bytes c)" and long: "length (plaintext_bytes c) + 16 \<le> length ct"
    using seal_opensD [OF laws(2) ct] laws(1) key by (auto simp: ecdh_agrees_def)
  have "Suc 0 \<le> length (cap_secrets c)" using valid by (simp add: cap_valid_def Suc_le_eq)
  then have len: "\<not> length bs < 232" using long nonce by (simp add: bs)
  show ?thesis
    using valid len curve key secret_count [of c]
    by (simp add: capability_unwrap_def fields plaintext_fields [OF refl] aead_open_def opened cap_valid_def)
qed

definition sample_points :: crypto where
  "sample_points =
    \<lparr>cr_derive_key = (\<lambda>context data. of_nat (length data)), cr_xonly_from_slice = (\<lambda>k. k \<noteq> 0),
     cr_signature_from_slice = (\<lambda>_. True), cr_verify_schnorr = (\<lambda>_ _ _. True), cr_sign_schnorr = (\<lambda>_ _. 0)\<rparr>"

definition sample_capability :: capability where
  "sample_capability =
    \<lparr>cap_drive = Ident 1, cap_device = Ident 2, cap_encryption_key = Ident 3, cap_transition = Ident 4,
     cap_secrets = [Ident 5, Ident 6]\<rparr>"

lemma sample_wrap:
  "\<exists>bs. capability_wrap sample_points sample_sealing (Inr 7) (Inr (replicate 24 9)) sample_capability = Inr bs"
  by (simp add: capability_wrap_def aead_seal_def Let_def sample_points_def sample_sealing_def sample_capability_def)

theorem capability_delivery_witness:
  "\<exists>bs. capability_wrap sample_points sample_sealing (Inr 7) (Inr (replicate 24 9)) sample_capability = Inr bs
     \<and> capability_unwrap sample_points sample_sealing 3 bs = Inr sample_capability"
proof -
  obtain bs where bs: "capability_wrap sample_points sample_sealing (Inr 7) (Inr (replicate 24 9)) sample_capability = Inr bs"
    using sample_wrap by blast
  have "capability_unwrap sample_points sample_sealing 3 bs = Inr sample_capability"
    by (rule capability_delivery [OF bs])
       (simp_all add: sample_sealing_laws, simp_all add: cap_valid_def sample_points_def sample_sealing_def
          sample_capability_def U32_MAX_def)
  with bs show ?thesis by blast
qed

end
