(* ===== verification/Wyrd_Control.thy ===== *)
theory Wyrd_Control
  imports Wyrd_Snapshot Wyrd_Crypto
begin

text \<open>
  Control messages (\<open>crates/wyrd-sync/src/control/message.rs\<close>): the five kinds and their payloads,
  the payload encoder and decoder, what an announcement's signature covers, and the rule for a
  second announcement of the same snapshot.
\<close>

section \<open>Data\<close>

datatype control_kind =
    KCapability
  | KMembershipTransition
  | KKeyRotation
  | KSnapshotAnnouncement
  | KReconciliationRequest

fun control_kind_byte :: "control_kind \<Rightarrow> u8" where
  "control_kind_byte KCapability = 0x00"
| "control_kind_byte KMembershipTransition = 0x01"
| "control_kind_byte KKeyRotation = 0x02"
| "control_kind_byte KSnapshotAnnouncement = 0x03"
| "control_kind_byte KReconciliationRequest = 0x04"

definition control_kind_from_byte :: "u8 \<Rightarrow> control_kind option" where
  "control_kind_from_byte b =
    (if b = 0x00 then Some KCapability
     else if b = 0x01 then Some KMembershipTransition
     else if b = 0x02 then Some KKeyRotation
     else if b = 0x03 then Some KSnapshotAnnouncement
     else if b = 0x04 then Some KReconciliationRequest
     else None)"

record capability_payload =
  cp_device :: device_id
  cp_epoch :: u64
  cp_wrapped :: bytes

record reconciliation_request =
  rq_requester :: device_id
  rq_evidence :: bytes

record announcement =
  ann_snapshot :: snapshot_id
  ann_author :: device_id
  ann_epoch :: u64
  ann_membership :: transition_id
  ann_body_root :: bao_root
  ann_root_manifest :: content_id
  ann_root_manifest_transport :: bao_root
  ann_node_addr :: "bytes option"
  ann_signature :: array64

text \<open>The one-field payloads are their field.\<close>

datatype message =
    CapabilityMessage capability_payload
  | TransitionMessage bytes
  | KeyRotationMessage transition_id
  | AnnouncementMessage announcement
  | ReconciliationMessage reconciliation_request

datatype control_error =
    CtTruncated
  | CtTrailingBytes
  | CtUnknownKind u8
  | CtUnknownVersion u8
  | CtUnknownSignDomain u8
  | CtWrongDrive
  | CtBadSignature
  | CtInvalidAuthorKey
  | CtUnknownEpoch u64
  | CtCrypto crypto_error

fun message_kind :: "message \<Rightarrow> control_kind" where
  "message_kind (CapabilityMessage _) = KCapability"
| "message_kind (TransitionMessage _) = KMembershipTransition"
| "message_kind (KeyRotationMessage _) = KKeyRotation"
| "message_kind (AnnouncementMessage _) = KSnapshotAnnouncement"
| "message_kind (ReconciliationMessage _) = KReconciliationRequest"

section \<open>Encoding\<close>

text \<open>A counted blob; the length is cast to 32 bits, so a longer blob is written with a wrapped count.\<close>

definition push_blob :: "bytes \<Rightarrow> bytes" where
  "push_blob b = u32_bytes (word_of_nat (length b)) @ b"

definition node_addr_bytes :: "bytes option \<Rightarrow> bytes" where
  "node_addr_bytes addr = (case addr of None \<Rightarrow> [0x00] | Some a \<Rightarrow> 0x01 # push_blob a)"

definition covered_payload :: "announcement \<Rightarrow> bytes" where
  "covered_payload a =
     as_bytes (ann_snapshot a) @ as_bytes (ann_author a) @ u64_bytes (ann_epoch a) @ as_bytes (ann_membership a)
     @ as_bytes (ann_body_root a) @ as_bytes (ann_root_manifest a) @ as_bytes (ann_root_manifest_transport a)
     @ node_addr_bytes (ann_node_addr a)"

definition announcement_signing_message :: "announcement \<Rightarrow> drive_id \<Rightarrow> bytes" where
  "announcement_signing_message a drive = ascii ''wyrd announcement v1'' @ as_bytes drive @ covered_payload a"

definition encode_payload :: "message \<Rightarrow> bytes" where
  "encode_payload m =
    (case m of
       CapabilityMessage p \<Rightarrow> as_bytes (cp_device p) @ u64_bytes (cp_epoch p) @ push_blob (cp_wrapped p)
     | TransitionMessage t \<Rightarrow> push_blob t
     | KeyRotationMessage i \<Rightarrow> as_bytes i
     | AnnouncementMessage a \<Rightarrow>
         as_bytes (ann_snapshot a) @ as_bytes (ann_author a) @ u64_bytes (ann_epoch a) @ as_bytes (ann_membership a)
         @ as_bytes (ann_body_root a) @ as_bytes (ann_root_manifest a) @ as_bytes (ann_root_manifest_transport a)
         @ node_addr_bytes (ann_node_addr a) @ array64_bytes (ann_signature a)
     | ReconciliationMessage r \<Rightarrow> as_bytes (rq_requester r) @ push_blob (rq_evidence r))"

section \<open>Decoding\<close>

definition parse_blob :: "bytes \<Rightarrow> nat \<Rightarrow> control_error + bytes \<times> nat" where
  "parse_blob bs pos =
    result_bind (need CtTruncated (length bs) pos 4) (\<lambda>_.
    let n = read_count bs pos; pos = pos + 4 in
    result_bind (need CtTruncated (length bs) pos n) (\<lambda>_. Inr (subslice bs pos n, pos + n)))"

definition parse_node_addr :: "bytes \<Rightarrow> nat \<Rightarrow> control_error + bytes option \<times> nat" where
  "parse_node_addr bs pos =
    (if pos < length bs \<and> bs ! pos = 0x00 then Inr (None, pos + 1)
     else if pos < length bs \<and> bs ! pos = 0x01 then
       result_bind (parse_blob bs (pos + 1)) (\<lambda>(addr, pos). Inr (Some addr, pos))
     else Inl CtTruncated)"

definition decode_body :: "control_kind \<Rightarrow> bytes \<Rightarrow> control_error + message \<times> nat" where
  "decode_body kind bs =
    (let len = length bs; pos = 0 in
     case kind of
       KCapability \<Rightarrow>
         result_bind (need CtTruncated len pos 40) (\<lambda>_.
         result_bind (parse_blob bs 40) (\<lambda>(wrapped, pos).
         Inr (CapabilityMessage \<lparr>cp_device = from_bytes (subslice bs 0 32), cp_epoch = u64_of (subslice bs 32 8),
                cp_wrapped = wrapped\<rparr>, pos)))
     | KMembershipTransition \<Rightarrow> result_bind (parse_blob bs pos) (\<lambda>(t, pos). Inr (TransitionMessage t, pos))
     | KKeyRotation \<Rightarrow>
         result_bind (need CtTruncated len pos 32) (\<lambda>_.
         Inr (KeyRotationMessage (from_bytes (subslice bs 0 32)), 32))
     | KSnapshotAnnouncement \<Rightarrow>
         result_bind (need CtTruncated len pos 200) (\<lambda>_.
         result_bind (parse_node_addr bs 200) (\<lambda>(addr, pos).
         result_bind (need CtTruncated len pos 64) (\<lambda>_.
         Inr (AnnouncementMessage
           \<lparr>ann_snapshot = from_bytes (subslice bs 0 32), ann_author = from_bytes (subslice bs 32 32),
            ann_epoch = u64_of (subslice bs 64 8), ann_membership = from_bytes (subslice bs 72 32),
            ann_body_root = from_bytes (subslice bs 104 32), ann_root_manifest = from_bytes (subslice bs 136 32),
            ann_root_manifest_transport = from_bytes (subslice bs 168 32), ann_node_addr = addr,
            ann_signature = array64_of (subslice bs pos 64)\<rparr>, pos + 64))))
     | KReconciliationRequest \<Rightarrow>
         result_bind (need CtTruncated len pos 32) (\<lambda>_.
         result_bind (parse_blob bs 32) (\<lambda>(evidence, pos).
         Inr (ReconciliationMessage \<lparr>rq_requester = from_bytes (subslice bs 0 32), rq_evidence = evidence\<rparr>, pos))))"

definition decode_payload :: "control_kind \<Rightarrow> bytes \<Rightarrow> control_error + message" where
  "decode_payload kind bs =
    result_bind (decode_body kind bs) (\<lambda>(message, pos).
    if pos \<noteq> length bs then Inl CtTrailingBytes else Inr message)"

section \<open>Reannouncing\<close>

datatype announcement_update = Same | RouteUpdate | Fork

definition check_update :: "announcement \<Rightarrow> announcement \<Rightarrow> announcement_update" where
  "check_update a candidate =
    (if a = candidate then Same
     else if ann_author a = ann_author candidate \<and> ann_epoch a = ann_epoch candidate
       \<and> ann_membership a = ann_membership candidate \<and> ann_body_root a = ann_body_root candidate
       \<and> ann_root_manifest a = ann_root_manifest candidate
       \<and> ann_root_manifest_transport a = ann_root_manifest_transport candidate
     then RouteUpdate else Fork)"

section \<open>The codec laws\<close>

lemma control_kind_bytes: "control_kind_from_byte b = Some k \<longleftrightarrow> b = control_kind_byte k"
  by (cases k) (auto simp: control_kind_from_byte_def split: if_splits)

definition blob_ok :: "bytes \<Rightarrow> bool" where
  "blob_ok b \<longleftrightarrow> length b \<le> U32_MAX"

lemma push_blob_le: "blob_ok b \<Longrightarrow> push_blob b = u32_le (length b) @ b"
  by (simp add: push_blob_def blob_ok_def u32_le_def u32_len_def)

interpretation blob: wire_item push_blob parse_blob blob_ok
proof (unfold_locales, goal_cases)
  case (1 x pre pos post)
  then show ?case
    by (simp add: parse_blob_def push_blob_le Let_def) (simp add: blob_ok_def wire_simps count_simps Let_def nth_append)
next
  case (2 payload pos x pos')
  then have len: "pos + 4 + read_count payload pos \<le> length payload" and
    x: "x = subslice payload (pos + 4) (read_count payload pos)" "pos' = pos + 4 + read_count payload pos"
    by (auto simp: parse_blob_def result_simps Let_def)
  have n: "length x = read_count payload pos" using len x by (simp add: length_slice)
  have ok: "blob_ok x" using n read_count_bound [of payload pos] by (simp add: blob_ok_def)
  have "push_blob x = subslice payload pos (4 + read_count payload pos)"
    using ok len n by (simp add: push_blob_le u32_le_read_count) (simp add: x slice_split)
  with ok n x len show ?case by (simp add: length_slice)
qed

definition node_addr_ok :: "bytes option \<Rightarrow> bool" where
  "node_addr_ok addr \<longleftrightarrow> (case addr of None \<Rightarrow> True | Some a \<Rightarrow> blob_ok a)"

interpretation node_addr: wire_item node_addr_bytes parse_node_addr node_addr_ok
proof (unfold_locales, goal_cases)
  case (1 x pre pos post)
  show ?case
  proof (cases x)
    case None
    with 1 show ?thesis by (simp add: parse_node_addr_def node_addr_bytes_def nth_append)
  next
    case (Some a)
    have "parse_blob ((pre @ [0x01]) @ push_blob a @ post) (pos + 1) = Inr (a, pos + 1 + length (push_blob a))"
      using 1 Some by (intro blob.parse_enc) (auto simp: node_addr_ok_def)
    with 1 Some show ?thesis by (simp add: parse_node_addr_def node_addr_bytes_def nth_append)
  qed
next
  case (2 payload pos x pos')
  show ?case
  proof (cases x)
    case None
    with 2 have "pos < length payload" "payload ! pos = 0x00" "pos' = pos + 1"
      by (auto simp: parse_node_addr_def result_simps split: if_splits)
    with None show ?thesis by (simp add: node_addr_ok_def node_addr_bytes_def slice_Suc)
  next
    case (Some a)
    with 2 have first: "pos < length payload" "payload ! pos = 0x01" and blob: "parse_blob payload (pos + 1) = Inr (a, pos')"
      by (auto simp: parse_node_addr_def result_simps split: if_splits)
    from blob.parse_sound [OF blob] Some first show ?thesis
      by (simp add: node_addr_ok_def node_addr_bytes_def slice_Suc)
  qed
qed

fun message_valid :: "message \<Rightarrow> bool" where
  "message_valid (CapabilityMessage p) \<longleftrightarrow> blob_ok (cp_wrapped p)"
| "message_valid (TransitionMessage t) \<longleftrightarrow> blob_ok t"
| "message_valid (KeyRotationMessage _) \<longleftrightarrow> True"
| "message_valid (AnnouncementMessage a) \<longleftrightarrow> node_addr_ok (ann_node_addr a)"
| "message_valid (ReconciliationMessage r) \<longleftrightarrow> blob_ok (rq_evidence r)"

lemma decode_encode_payload: "message_valid m \<Longrightarrow> decode_payload (message_kind m) (encode_payload m) = Inr m"
proof (cases m)
  case (CapabilityMessage p)
  assume "message_valid m"
  with CapabilityMessage blob.parse_enc [of "cp_wrapped p" "as_bytes (cp_device p) @ u64_bytes (cp_epoch p)" 40 "[]"]
  show ?thesis by (simp add: decode_payload_def decode_body_def encode_payload_def Let_def wire_simps)
next
  case (TransitionMessage t)
  assume "message_valid m"
  with TransitionMessage blob.parse_enc [of t "[]" 0 "[]"]
  show ?thesis by (simp add: decode_payload_def decode_body_def encode_payload_def Let_def)
next
  case (KeyRotationMessage i)
  then show ?thesis by (simp add: decode_payload_def decode_body_def encode_payload_def Let_def wire_simps)
next
  case (AnnouncementMessage a)
  let ?pre = "as_bytes (ann_snapshot a) @ as_bytes (ann_author a) @ u64_bytes (ann_epoch a) @ as_bytes (ann_membership a)
    @ as_bytes (ann_body_root a) @ as_bytes (ann_root_manifest a) @ as_bytes (ann_root_manifest_transport a)"
  assume "message_valid m"
  with AnnouncementMessage node_addr.parse_enc [of "ann_node_addr a" ?pre 200 "array64_bytes (ann_signature a)"]
  show ?thesis by (simp add: decode_payload_def decode_body_def encode_payload_def Let_def wire_simps)
next
  case (ReconciliationMessage r)
  assume "message_valid m"
  with ReconciliationMessage blob.parse_enc [of "rq_evidence r" "as_bytes (rq_requester r)" 32 "[]"]
  show ?thesis by (simp add: decode_payload_def decode_body_def encode_payload_def Let_def wire_simps)
qed

lemma slice_rest:
  assumes "pos \<le> length bs"
  shows "subslice bs 0 pos @ subslice bs pos (length bs - pos) = bs"
  using assms slice_split [of bs 0 pos "length bs - pos"] by (simp add: slice_all)

lemma decode_payload_sound:
  assumes "decode_payload kind bs = Inr m"
  shows "message_kind m = kind \<and> message_valid m \<and> encode_payload m = bs"
proof (cases kind)
  case KCapability
  with assms obtain w where len: "40 \<le> length bs" and blob: "parse_blob bs 40 = Inr (w, length bs)"
    and m: "m = CapabilityMessage \<lparr>cp_device = from_bytes (subslice bs 0 32), cp_epoch = u64_of (subslice bs 32 8), cp_wrapped = w\<rparr>"
    by (auto simp: decode_payload_def decode_body_def Let_def result_simps split: if_splits)
  from blob.parse_sound [OF blob] slice_rest [of 40 bs] slice_split [of bs 0 32 8] len
  show ?thesis by (simp add: m KCapability encode_payload_def as_from_bytes bytes_of_field length_slice)
next
  case KMembershipTransition
  with assms obtain t where blob: "parse_blob bs 0 = Inr (t, length bs)" and m: "m = TransitionMessage t"
    by (auto simp: decode_payload_def decode_body_def Let_def result_simps split: if_splits)
  from blob.parse_sound [OF blob] show ?thesis
    by (simp add: m KMembershipTransition encode_payload_def) (metis slice_all)
next
  case KKeyRotation
  with assms have len: "length bs = 32" and m: "m = KeyRotationMessage (from_bytes (subslice bs 0 32))"
    by (auto simp: decode_payload_def decode_body_def Let_def result_simps split: if_splits)
  show ?thesis using slice_all [of bs] len by (simp add: m KKeyRotation encode_payload_def as_from_bytes)
next
  case KSnapshotAnnouncement
  with assms obtain addr pos where len: "200 \<le> length bs" "pos + 64 = length bs"
    and addr: "parse_node_addr bs 200 = Inr (addr, pos)"
    and m: "m = AnnouncementMessage
           \<lparr>ann_snapshot = from_bytes (subslice bs 0 32), ann_author = from_bytes (subslice bs 32 32),
            ann_epoch = u64_of (subslice bs 64 8), ann_membership = from_bytes (subslice bs 72 32),
            ann_body_root = from_bytes (subslice bs 104 32), ann_root_manifest = from_bytes (subslice bs 136 32),
            ann_root_manifest_transport = from_bytes (subslice bs 168 32), ann_node_addr = addr,
            ann_signature = array64_of (subslice bs pos 64)\<rparr>"
    by (auto simp: decode_payload_def decode_body_def Let_def result_simps split: if_splits)
  obtain n where a: "node_addr_ok addr" "pos = 200 + n" "node_addr_bytes addr = subslice bs 200 n"
    using node_addr.parse_sound [OF addr] by metis
  have "encode_payload m = subslice bs 0 (pos + 64)"
    unfolding m encode_payload_def using len a
    by (simp add: as_from_bytes bytes_of_field length_slice slice_join)
  with a len show ?thesis by (simp add: m KSnapshotAnnouncement slice_all)
next
  case KReconciliationRequest
  with assms obtain e where len: "32 \<le> length bs" and blob: "parse_blob bs 32 = Inr (e, length bs)"
    and m: "m = ReconciliationMessage \<lparr>rq_requester = from_bytes (subslice bs 0 32), rq_evidence = e\<rparr>"
    by (auto simp: decode_payload_def decode_body_def Let_def result_simps split: if_splits)
  from blob.parse_sound [OF blob] slice_rest [of 32 bs] len
  show ?thesis by (simp add: m KReconciliationRequest encode_payload_def as_from_bytes length_slice)
qed

lemma message_canonical_iff:
  "decode_payload kind bs = Inr m \<longleftrightarrow> message_kind m = kind \<and> message_valid m \<and> bs = encode_payload m"
  using decode_payload_sound decode_encode_payload by blast

text \<open>The signature covers everything else in an announcement.\<close>

lemma announcement_encode_covered:
  "encode_payload (AnnouncementMessage a) = covered_payload a @ array64_bytes (ann_signature a)"
  by (simp add: encode_payload_def covered_payload_def)

lemma covered_payload_inj:
  assumes "covered_payload a = covered_payload b" "node_addr_ok (ann_node_addr a)" "node_addr_ok (ann_node_addr b)"
  shows "a\<lparr>ann_signature := x\<rparr> = b\<lparr>ann_signature := x\<rparr>"
proof -
  let ?m = "\<lambda>a. AnnouncementMessage (a\<lparr>ann_signature := x\<rparr>)"
  have "encode_payload (?m a) = encode_payload (?m b)"
    using assms(1) unfolding announcement_encode_covered by (simp add: covered_payload_def)
  with decode_encode_payload [of "?m a"] decode_encode_payload [of "?m b"] assms(2,3)
  show ?thesis by simp
qed

end
