(* ===== verification/Wyrd_Sealed.thy ===== *)
theory Wyrd_Sealed
  imports Wyrd_Control Wyrd_Members
begin

text \<open>
  Sealed deliveries (\<open>crates/wyrd-sync/src/control/{mod,rotation,bootstrap,nip46}.rs\<close> and
  \<open>keys/owner_proof.rs\<close>): the epoch-sealed control envelope, the rotation delivery, the bootstrap invitation,
  the signer messages, the owner proof, and the inbox that opens and deduplicates what arrives.  A message id
  is a plain 32-byte array.
\<close>

section \<open>Epoch-sealed control messages\<close>

definition CONTROL_VERSION :: u8 where
  "CONTROL_VERSION = 0x00"

definition CONTROL_HEADER_LEN :: nat where
  "CONTROL_HEADER_LEN = 66"

record sealed_control =
  sc_version :: u8
  sc_drive :: drive_id
  sc_kind :: control_kind
  sc_epoch :: u64
  sc_nonce :: bytes
  sc_ciphertext :: bytes

definition sealed_control_encode :: "sealed_control \<Rightarrow> bytes" where
  "sealed_control_encode s =
    sc_version s # as_bytes (sc_drive s) @ control_kind_byte (sc_kind s) # u64_bytes (sc_epoch s) @ sc_nonce s
    @ sc_ciphertext s"

definition sealed_control_decode :: "bytes \<Rightarrow> control_error + sealed_control" where
  "sealed_control_decode bs =
    (if length bs < CONTROL_HEADER_LEN + 16 then Inl CtTruncated
     else (case control_kind_from_byte (bs ! 33) of
         None \<Rightarrow> Inl (CtUnknownKind (bs ! 33))
       | Some kind \<Rightarrow>
           Inr \<lparr>sc_version = bs ! 0, sc_drive = from_bytes (subslice bs 1 32), sc_kind = kind,
             sc_epoch = u64_of (subslice bs 34 8), sc_nonce = subslice bs 42 24, sc_ciphertext = drop 66 bs\<rparr>))"

definition MESSAGE_ID_CONTEXT :: string where
  "MESSAGE_ID_CONTEXT = ''wyrd control message id v1''"

definition sealed_control_message_id :: "kdf \<Rightarrow> sealed_control \<Rightarrow> array32" where
  "sealed_control_message_id dk s = dk MESSAGE_ID_CONTEXT (sealed_control_encode s)"

definition control_aad :: "u8 \<Rightarrow> drive_id \<Rightarrow> control_kind \<Rightarrow> u64 \<Rightarrow> bytes" where
  "control_aad version drive kind epoch = version # as_bytes drive @ control_kind_byte kind # u64_bytes epoch"

definition control_plaintext :: "drive_id \<Rightarrow> u64 \<Rightarrow> message \<Rightarrow> bytes" where
  "control_plaintext drive epoch m =
    as_bytes drive @ control_kind_byte (message_kind m) # u64_bytes epoch @ encode_payload m"

definition control_seal ::
  "sealing \<Rightarrow> crypto_error + bytes \<Rightarrow> array32 \<Rightarrow> drive_id \<Rightarrow> u64 \<Rightarrow> message \<Rightarrow> crypto_error + sealed_control" where
  "control_seal se draw_nonce key drive epoch m =
    (case draw_nonce of
       Inl e \<Rightarrow> Inl e
     | Inr nonce \<Rightarrow>
         (case aead_seal se key nonce (control_plaintext drive epoch m)
                 (control_aad CONTROL_VERSION drive (message_kind m) epoch) of
            Inl e \<Rightarrow> Inl e
          | Inr ct \<Rightarrow>
              Inr \<lparr>sc_version = CONTROL_VERSION, sc_drive = drive, sc_kind = message_kind m, sc_epoch = epoch,
                sc_nonce = nonce, sc_ciphertext = ct\<rparr>))"

fun payload_epoch :: "message \<Rightarrow> u64 option" where
  "payload_epoch (CapabilityMessage p) = Some (cp_epoch p)"
| "payload_epoch (TransitionMessage _) = None"
| "payload_epoch (KeyRotationMessage _) = None"
| "payload_epoch (AnnouncementMessage a) = Some (ann_epoch a)"
| "payload_epoch (ReconciliationMessage _) = None"

definition control_open ::
  "sealing \<Rightarrow> array32 \<Rightarrow> sealed_control \<Rightarrow> control_error + drive_id \<times> u64 \<times> message" where
  "control_open se key s =
    (if sc_version s \<noteq> CONTROL_VERSION then Inl (CtUnknownVersion (sc_version s))
     else (case aead_open se key (sc_nonce s) (sc_ciphertext s)
                  (control_aad (sc_version s) (sc_drive s) (sc_kind s) (sc_epoch s)) of
         Inl e \<Rightarrow> Inl (CtCrypto e)
       | Inr pt \<Rightarrow>
           if length pt < 41 then Inl (CtCrypto CryptoMalformed)
           else if from_bytes (subslice pt 0 32) \<noteq> sc_drive s \<or> pt ! 32 \<noteq> control_kind_byte (sc_kind s)
             \<or> u64_of (subslice pt 33 8) \<noteq> sc_epoch s
           then Inl (CtCrypto HeaderMismatch)
           else (case decode_payload (sc_kind s) (drop 41 pt) of
               Inl e \<Rightarrow> Inl e
             | Inr m \<Rightarrow>
                 (case payload_epoch m of
                    Some epoch \<Rightarrow> if epoch \<noteq> sc_epoch s then Inl (CtCrypto HeaderMismatch)
                      else Inr (sc_drive s, sc_epoch s, m)
                  | None \<Rightarrow> Inr (sc_drive s, sc_epoch s, m)))))"

section \<open>Announcement signatures\<close>

definition ANNOUNCEMENT_CHALLENGE_CONTEXT :: string where
  "ANNOUNCEMENT_CHALLENGE_CONTEXT = ''wyrd announcement challenge v1''"

definition announcement_challenge :: "kdf \<Rightarrow> announcement \<Rightarrow> drive_id \<Rightarrow> array32" where
  "announcement_challenge dk a drive = dk ANNOUNCEMENT_CHALLENGE_CONTEXT (announcement_signing_message a drive)"

definition sign_announcement :: "crypto \<Rightarrow> announcement \<Rightarrow> array32 \<Rightarrow> drive_id \<Rightarrow> announcement" where
  "sign_announcement cr a secret drive =
    a\<lparr>ann_signature := cr_sign_schnorr cr secret (announcement_challenge (cr_derive_key cr) a drive)\<rparr>"

definition verify_announcement :: "crypto \<Rightarrow> drive_id \<Rightarrow> announcement \<Rightarrow> control_error + unit" where
  "verify_announcement cr drive a =
    (if \<not> cr_xonly_from_slice cr (raw (ann_author a)) then Inl CtInvalidAuthorKey
     else if \<not> cr_signature_from_slice cr (ann_signature a) then Inl CtBadSignature
     else if \<not> cr_verify_schnorr cr (ann_signature a) (announcement_challenge (cr_derive_key cr) a drive) (raw (ann_author a))
     then Inl CtBadSignature else Inr ())"

section \<open>Rotation deliveries\<close>

definition ROTATION_VERSION :: u8 where
  "ROTATION_VERSION = 0x02"

definition ROTATION_VERSION_SUPERSEDED :: u8 where
  "ROTATION_VERSION_SUPERSEDED = 0x01"

definition is_superseded_rotation :: "bytes \<Rightarrow> bool" where
  "is_superseded_rotation bs \<longleftrightarrow> bs \<noteq> [] \<and> bs ! 0 = ROTATION_VERSION_SUPERSEDED"

definition ROTATION_HEADER_LEN :: nat where
  "ROTATION_HEADER_LEN = 161"

definition ROTATION_AAD_DOMAIN :: bytes where
  "ROTATION_AAD_DOMAIN = ascii ''wyrd rotation delivery v1''"

definition ROTATION_KEY_CONTEXT :: bytes where
  "ROTATION_KEY_CONTEXT = ascii ''wyrd rotation delivery key v1''"

record rotation_delivery =
  rd_drive :: drive_id
  rd_device :: device_id
  rd_epoch :: u64
  rd_transition :: bytes
  rd_wrapped :: bytes
  rd_owner_proof :: bytes

record sealed_rotation =
  sr_version :: u8
  sr_drive :: drive_id
  sr_ephemeral :: array32
  sr_recipient :: device_id
  sr_encryption_key :: device_encryption_key
  sr_epoch :: u64
  sr_nonce :: bytes
  sr_ciphertext :: bytes

definition sealed_rotation_encode :: "sealed_rotation \<Rightarrow> bytes" where
  "sealed_rotation_encode s =
    sr_version s # as_bytes (sr_drive s) @ array32_bytes (sr_ephemeral s) @ as_bytes (sr_recipient s)
    @ as_bytes (sr_encryption_key s) @ u64_bytes (sr_epoch s) @ sr_nonce s @ sr_ciphertext s"

definition sealed_rotation_decode :: "crypto \<Rightarrow> bytes \<Rightarrow> crypto_error + sealed_rotation" where
  "sealed_rotation_decode cr bs =
    (if length bs < ROTATION_HEADER_LEN + 16 then Inl CryptoMalformed
     else if \<not> cr_xonly_from_slice cr (array32_of (subslice bs 33 32)) then Inl CryptoMalformed
     else Inr \<lparr>sr_version = bs ! 0, sr_drive = from_bytes (subslice bs 1 32), sr_ephemeral = array32_of (subslice bs 33 32),
       sr_recipient = from_bytes (subslice bs 65 32), sr_encryption_key = from_bytes (subslice bs 97 32),
       sr_epoch = u64_of (subslice bs 129 8), sr_nonce = subslice bs 137 24, sr_ciphertext = drop 161 bs\<rparr>)"

definition sealed_rotation_message_id :: "kdf \<Rightarrow> sealed_rotation \<Rightarrow> array32" where
  "sealed_rotation_message_id dk s = dk MESSAGE_ID_CONTEXT (sealed_rotation_encode s)"

definition hkdf_rotation_key :: "sealing \<Rightarrow> array32 \<Rightarrow> array32" where
  "hkdf_rotation_key se shared = se_hkdf se (array32_bytes shared) ROTATION_KEY_CONTEXT"

definition rotation_aad :: "u8 \<Rightarrow> drive_id \<Rightarrow> device_id \<Rightarrow> device_encryption_key \<Rightarrow> u64 \<Rightarrow> bytes" where
  "rotation_aad version drive recipient encryption_key epoch =
    ROTATION_AAD_DOMAIN @ version # as_bytes drive @ as_bytes recipient @ as_bytes encryption_key @ u64_bytes epoch"

definition rotation_plaintext :: "drive_id \<Rightarrow> device_id \<Rightarrow> u64 \<Rightarrow> bytes \<Rightarrow> bytes \<Rightarrow> bytes \<Rightarrow> bytes" where
  "rotation_plaintext drive recipient epoch transition wrapped proof =
    as_bytes drive @ as_bytes recipient @ u64_bytes epoch @ push_blob transition @ push_blob wrapped @ push_blob proof"

definition seal_rotation ::
  "crypto \<Rightarrow> sealing \<Rightarrow> crypto_error + array32 \<Rightarrow> crypto_error + bytes \<Rightarrow> drive_id \<Rightarrow> device_id \<Rightarrow> device_encryption_key
    \<Rightarrow> u64 \<Rightarrow> bytes \<Rightarrow> bytes \<Rightarrow> bytes \<Rightarrow> crypto_error + sealed_rotation" where
  "seal_rotation cr se ephemeral draw_nonce drive recipient encryption_key epoch transition wrapped proof =
    (if \<not> cr_xonly_from_slice cr (raw encryption_key) then Inl CryptoMalformed
     else (case ephemeral of
         Inl e \<Rightarrow> Inl e
       | Inr sk \<Rightarrow>
           (case draw_nonce of
              Inl e \<Rightarrow> Inl e
            | Inr nonce \<Rightarrow>
                (case aead_seal se (hkdf_rotation_key se (se_ecdh se sk (raw encryption_key))) nonce
                        (rotation_plaintext drive recipient epoch transition wrapped proof)
                        (rotation_aad ROTATION_VERSION drive recipient encryption_key epoch) of
                   Inl e \<Rightarrow> Inl e
                 | Inr ct \<Rightarrow>
                     Inr \<lparr>sr_version = ROTATION_VERSION, sr_drive = drive, sr_ephemeral = se_public se sk,
                       sr_recipient = recipient, sr_encryption_key = encryption_key, sr_epoch = epoch,
                       sr_nonce = nonce, sr_ciphertext = ct\<rparr>))))"

text \<open>The blob closure of the two opens, \<open>reserved\<close> bytes having to follow behind the blob.\<close>

definition take_blob :: "nat \<Rightarrow> bytes \<Rightarrow> nat \<Rightarrow> control_error + bytes \<times> nat" where
  "take_blob reserved pt pos =
    (if length pt < pos + 4 then Inl (CtCrypto CryptoMalformed)
     else let n = read_count pt pos; pos = pos + 4 in
       if length pt < pos + n + reserved then Inl (CtCrypto CryptoMalformed)
       else Inr (subslice pt pos n, pos + n))"

definition open_rotation ::
  "crypto \<Rightarrow> sealing \<Rightarrow> array32 \<Rightarrow> sealed_rotation \<Rightarrow> control_error + rotation_delivery" where
  "open_rotation cr se secret s =
    (if sr_version s \<noteq> ROTATION_VERSION then Inl (CtUnknownVersion (sr_version s))
     else if \<not> cr_xonly_from_slice cr (sr_ephemeral s) then Inl (CtCrypto CryptoMalformed)
     else (case aead_open se (hkdf_rotation_key se (se_ecdh se secret (sr_ephemeral s))) (sr_nonce s) (sr_ciphertext s)
                  (rotation_aad (sr_version s) (sr_drive s) (sr_recipient s) (sr_encryption_key s) (sr_epoch s)) of
         Inl e \<Rightarrow> Inl (CtCrypto e)
       | Inr pt \<Rightarrow>
           if length pt < 72 + 8 then Inl (CtCrypto CryptoMalformed)
           else let drive = from_bytes (subslice pt 0 32); device = from_bytes (subslice pt 32 32);
                    epoch = u64_of (subslice pt 64 8) in
             if drive \<noteq> sr_drive s \<or> device \<noteq> sr_recipient s \<or> epoch \<noteq> sr_epoch s
             then Inl (CtCrypto HeaderMismatch)
             else
               result_bind (take_blob 0 pt 72) (\<lambda>(transition, pos).
               result_bind (take_blob 0 pt pos) (\<lambda>(wrapped, pos).
               result_bind (take_blob 0 pt pos) (\<lambda>(proof, pos).
               if length pt \<noteq> pos then Inl (CtCrypto CryptoMalformed)
               else if se_public se secret \<noteq> raw (sr_encryption_key s) then Inl (CtCrypto HeaderMismatch)
               else Inr \<lparr>rd_drive = drive, rd_device = device, rd_epoch = epoch, rd_transition = transition,
                 rd_wrapped = wrapped, rd_owner_proof = proof\<rparr>)))))"

section \<open>Bootstrap invitations\<close>

definition BOOTSTRAP_VERSION :: u8 where
  "BOOTSTRAP_VERSION = 0x00"

definition BOOTSTRAP_HEADER_LEN :: nat where
  "BOOTSTRAP_HEADER_LEN = 185"

definition UNSIGNED_HEADER_LEN :: nat where
  "UNSIGNED_HEADER_LEN = 161"

definition BOOTSTRAP_AAD_DOMAIN :: bytes where
  "BOOTSTRAP_AAD_DOMAIN = ascii ''wyrd bootstrap v1''"

definition BOOTSTRAP_KEY_CONTEXT :: bytes where
  "BOOTSTRAP_KEY_CONTEXT = ascii ''wyrd bootstrap key v1''"

definition BOOTSTRAP_CHALLENGE_CONTEXT :: string where
  "BOOTSTRAP_CHALLENGE_CONTEXT = ''wyrd bootstrap challenge v1''"

record bootstrap_invitation =
  bi_drive :: drive_id
  bi_inviter :: device_id
  bi_invitee :: device_id
  bi_encryption_key :: device_encryption_key
  bi_genesis :: bytes
  bi_capability :: bytes

record sealed_bootstrap =
  sb_version :: u8
  sb_drive :: drive_id
  sb_ephemeral :: array32
  sb_recipient :: device_id
  sb_encryption_key :: device_encryption_key
  sb_inviter :: device_id
  sb_nonce :: bytes
  sb_ciphertext :: bytes

definition sealed_bootstrap_encode :: "sealed_bootstrap \<Rightarrow> bytes" where
  "sealed_bootstrap_encode s =
    sb_version s # as_bytes (sb_drive s) @ array32_bytes (sb_ephemeral s) @ as_bytes (sb_recipient s)
    @ as_bytes (sb_encryption_key s) @ as_bytes (sb_inviter s) @ sb_nonce s @ sb_ciphertext s"

definition sealed_bootstrap_decode :: "crypto \<Rightarrow> bytes \<Rightarrow> crypto_error + sealed_bootstrap" where
  "sealed_bootstrap_decode cr bs =
    (if length bs < BOOTSTRAP_HEADER_LEN + 16 then Inl CryptoMalformed
     else if \<not> cr_xonly_from_slice cr (array32_of (subslice bs 33 32)) then Inl CryptoMalformed
     else Inr \<lparr>sb_version = bs ! 0, sb_drive = from_bytes (subslice bs 1 32), sb_ephemeral = array32_of (subslice bs 33 32),
       sb_recipient = from_bytes (subslice bs 65 32), sb_encryption_key = from_bytes (subslice bs 97 32),
       sb_inviter = from_bytes (subslice bs 129 32), sb_nonce = subslice bs 161 24, sb_ciphertext = drop 185 bs\<rparr>)"

definition hkdf_bootstrap_key :: "sealing \<Rightarrow> array32 \<Rightarrow> array32" where
  "hkdf_bootstrap_key se shared = se_hkdf se (array32_bytes shared) BOOTSTRAP_KEY_CONTEXT"

definition bootstrap_aad ::
  "u8 \<Rightarrow> drive_id \<Rightarrow> device_id \<Rightarrow> device_encryption_key \<Rightarrow> device_id \<Rightarrow> array32 \<Rightarrow> bytes" where
  "bootstrap_aad version drive recipient encryption_key inviter ephemeral =
    BOOTSTRAP_AAD_DOMAIN @ version # as_bytes drive @ as_bytes recipient @ as_bytes encryption_key @ as_bytes inviter
    @ array32_bytes ephemeral"

definition unsigned_bytes ::
  "u8 \<Rightarrow> drive_id \<Rightarrow> array32 \<Rightarrow> device_id \<Rightarrow> device_encryption_key \<Rightarrow> device_id \<Rightarrow> bytes \<Rightarrow> bytes \<Rightarrow> bytes" where
  "unsigned_bytes version drive ephemeral invitee encryption_key inviter genesis capability =
    version # as_bytes drive @ array32_bytes ephemeral @ as_bytes invitee @ as_bytes encryption_key @ as_bytes inviter
    @ push_blob genesis @ push_blob capability"

definition bootstrap_challenge :: "kdf \<Rightarrow> bytes \<Rightarrow> array32" where
  "bootstrap_challenge dk covered = dk BOOTSTRAP_CHALLENGE_CONTEXT covered"

definition seal_bootstrap ::
  "crypto \<Rightarrow> sealing \<Rightarrow> crypto_error + array32 \<Rightarrow> crypto_error + bytes \<Rightarrow> array32 \<Rightarrow> drive_id \<Rightarrow> device_id
    \<Rightarrow> device_encryption_key \<Rightarrow> bytes \<Rightarrow> bytes \<Rightarrow> crypto_error + sealed_bootstrap" where
  "seal_bootstrap cr se draw_ephemeral draw_nonce owner drive invitee encryption_key genesis capability =
    (let inviter = Ident (se_public se owner) in
     if \<not> cr_xonly_from_slice cr (raw encryption_key) then Inl CryptoMalformed
     else (case draw_ephemeral of
         Inl e \<Rightarrow> Inl e
       | Inr sk \<Rightarrow>
           let ephemeral = se_public se sk;
               covered = unsigned_bytes BOOTSTRAP_VERSION drive ephemeral invitee encryption_key inviter genesis capability;
               sig = cr_sign_schnorr cr owner (bootstrap_challenge (cr_derive_key cr) covered) in
           (case draw_nonce of
              Inl e \<Rightarrow> Inl e
            | Inr nonce \<Rightarrow>
                (case aead_seal se (hkdf_bootstrap_key se (se_ecdh se sk (raw encryption_key))) nonce
                        (covered @ array64_bytes sig)
                        (bootstrap_aad BOOTSTRAP_VERSION drive invitee encryption_key inviter ephemeral) of
                   Inl e \<Rightarrow> Inl e
                 | Inr ct \<Rightarrow>
                     Inr \<lparr>sb_version = BOOTSTRAP_VERSION, sb_drive = drive, sb_ephemeral = ephemeral,
                       sb_recipient = invitee, sb_encryption_key = encryption_key, sb_inviter = inviter,
                       sb_nonce = nonce, sb_ciphertext = ct\<rparr>))))"

definition open_bootstrap ::
  "crypto \<Rightarrow> sealing \<Rightarrow> array32 \<Rightarrow> sealed_bootstrap \<Rightarrow> control_error + bootstrap_invitation" where
  "open_bootstrap cr se secret s =
    (if sb_version s \<noteq> BOOTSTRAP_VERSION then Inl (CtUnknownVersion (sb_version s))
     else if \<not> cr_xonly_from_slice cr (sb_ephemeral s) then Inl (CtCrypto CryptoMalformed)
     else (case aead_open se (hkdf_bootstrap_key se (se_ecdh se secret (sb_ephemeral s))) (sb_nonce s) (sb_ciphertext s)
                  (bootstrap_aad (sb_version s) (sb_drive s) (sb_recipient s) (sb_encryption_key s) (sb_inviter s)
                    (sb_ephemeral s)) of
         Inl e \<Rightarrow> Inl (CtCrypto e)
       | Inr pt \<Rightarrow>
           if length pt < UNSIGNED_HEADER_LEN + 8 + 64 then Inl (CtCrypto CryptoMalformed)
           else let version = pt ! 0; drive = from_bytes (subslice pt 1 32); ephemeral = array32_of (subslice pt 33 32);
                    invitee = from_bytes (subslice pt 65 32); key = from_bytes (subslice pt 97 32);
                    inviter = from_bytes (subslice pt 129 32) in
             if version \<noteq> sb_version s \<or> drive \<noteq> sb_drive s \<or> ephemeral \<noteq> sb_ephemeral s \<or> inviter \<noteq> sb_inviter s
               \<or> invitee \<noteq> sb_recipient s \<or> key \<noteq> sb_encryption_key s
             then Inl (CtCrypto HeaderMismatch)
             else
               result_bind (take_blob 64 pt UNSIGNED_HEADER_LEN) (\<lambda>(genesis, pos).
               result_bind (take_blob 64 pt pos) (\<lambda>(capability, pos).
               if length pt \<noteq> pos + 64 then Inl (CtCrypto CryptoMalformed)
               else let sig = array64_of (subslice pt pos 64) in
                 if se_public se secret \<noteq> raw (sb_encryption_key s) then Inl (CtCrypto HeaderMismatch)
                 else if \<not> cr_xonly_from_slice cr (raw inviter) then Inl (CtCrypto CryptoMalformed)
                 else if \<not> cr_signature_from_slice cr sig then Inl (CtCrypto CryptoMalformed)
                 else if \<not> cr_verify_schnorr cr sig (bootstrap_challenge (cr_derive_key cr)
                     (unsigned_bytes version drive ephemeral invitee key inviter genesis capability)) (raw inviter)
                 then Inl CtBadSignature
                 else Inr \<lparr>bi_drive = drive, bi_inviter = inviter, bi_invitee = invitee, bi_encryption_key = key,
                   bi_genesis = genesis, bi_capability = capability\<rparr>))))"

section \<open>Signer messages and owner proofs\<close>

record sign_message_request =
  sm_domain :: sign_domain
  sm_drive :: drive_id
  sm_digest :: array32

definition sign_request_encode :: "sign_message_request \<Rightarrow> bytes" where
  "sign_request_encode r = domain_byte (sm_domain r) # as_bytes (sm_drive r) @ array32_bytes (sm_digest r)"

definition sign_request_decode :: "bytes \<Rightarrow> control_error + sign_message_request" where
  "sign_request_decode bs =
    (if length bs < 65 then Inl CtTruncated
     else if length bs \<noteq> 65 then Inl CtTrailingBytes
     else (case domain_from_byte (bs ! 0) of
         None \<Rightarrow> Inl (CtUnknownSignDomain (bs ! 0))
       | Some domain \<Rightarrow>
           Inr \<lparr>sm_domain = domain, sm_drive = from_bytes (subslice bs 1 32), sm_digest = array32_of (subslice bs 33 32)\<rparr>))"

definition sign_response_encode :: "array64 \<Rightarrow> bytes" where
  "sign_response_encode sig = array64_bytes sig"

definition sign_response_decode :: "bytes \<Rightarrow> control_error + array64" where
  "sign_response_decode bs =
    (if length bs < 64 then Inl CtTruncated
     else if length bs \<noteq> 64 then Inl CtTrailingBytes
     else Inr (array64_of (subslice bs 0 64)))"

definition SECRET_VECTOR_CONTEXT :: string where
  "SECRET_VECTOR_CONTEXT = ''wyrd epoch secret vector v1''"

definition PROOF_DOMAIN :: bytes where
  "PROOF_DOMAIN = ascii ''wyrd owner proof v1''"

record owner_proof =
  op_signer :: device_id
  op_signature :: array64

definition secret_vector_bytes :: "epoch_secret list \<Rightarrow> bytes" where
  "secret_vector_bytes secrets = u32_bytes (of_nat (length secrets)) @ ids_bytes secrets"

definition secret_vector_digest :: "kdf \<Rightarrow> epoch_secret list \<Rightarrow> array32" where
  "secret_vector_digest dk secrets = dk SECRET_VECTOR_CONTEXT (secret_vector_bytes secrets)"

definition owner_proof_preimage :: "drive_id \<Rightarrow> device_id \<Rightarrow> transition_id \<Rightarrow> u64 \<Rightarrow> array32 \<Rightarrow> bytes" where
  "owner_proof_preimage drive recipient transition epoch digest =
    PROOF_DOMAIN @ as_bytes drive @ as_bytes recipient @ as_bytes transition @ u64_bytes epoch @ array32_bytes digest"

definition owner_proof_encode :: "owner_proof \<Rightarrow> bytes" where
  "owner_proof_encode p = as_bytes (op_signer p) @ array64_bytes (op_signature p)"

definition owner_proof_decode :: "bytes \<Rightarrow> owner_proof option" where
  "owner_proof_decode bs =
    (if length bs \<noteq> 96 then None
     else Some \<lparr>op_signer = from_bytes (subslice bs 0 32), op_signature = array64_of (drop 32 bs)\<rparr>)"

definition owner_proof_verify ::
  "crypto \<Rightarrow> owner_proof \<Rightarrow> drive_id \<Rightarrow> device_id \<Rightarrow> transition_id \<Rightarrow> u64 \<Rightarrow> epoch_secret list \<Rightarrow> crypto_error + unit" where
  "owner_proof_verify cr p drive recipient transition epoch secrets =
    (if \<not> cr_xonly_from_slice cr (raw (op_signer p)) then Inl CryptoMalformed
     else let digest = secret_vector_digest (cr_derive_key cr) secrets;
              challenge = owner_proof_challenge (cr_derive_key cr)
                (owner_proof_preimage drive recipient transition epoch digest) in
       if \<not> cr_signature_from_slice cr (op_signature p) then Inl CryptoMalformed
       else if \<not> cr_verify_schnorr cr (op_signature p) challenge (raw (op_signer p)) then Inl CryptoMalformed
       else Inr ())"

section \<open>The inbox\<close>

definition MAX_SUPPRESSED_IDS :: nat where
  "MAX_SUPPRESSED_IDS = 4096"

record control_inbox =
  in_drive :: drive_id
  in_keys :: "(u64, array32) fmap"
  in_seen :: "array32 fset"
  in_suppressed :: "array32 fset"
  in_suppressed_order :: "array32 list"

datatype ingest_report = IngestDuplicate | IngestAccepted array32 message

datatype rotation_ingest = RotationDuplicate | RotationAccepted array32 rotation_delivery

definition inbox_new :: "drive_id \<Rightarrow> control_inbox" where
  "inbox_new drive =
    \<lparr>in_drive = drive, in_keys = fmempty, in_seen = {||}, in_suppressed = {||}, in_suppressed_order = []\<rparr>"

definition add_epoch_key :: "u64 \<Rightarrow> array32 \<Rightarrow> control_inbox \<Rightarrow> control_inbox" where
  "add_epoch_key epoch key inbox = inbox\<lparr>in_keys := fmupd epoch key (in_keys inbox)\<rparr>"

definition inbox_ingest ::
  "kdf \<Rightarrow> sealing \<Rightarrow> bytes \<Rightarrow> control_inbox \<Rightarrow> (control_error + ingest_report) \<times> control_inbox" where
  "inbox_ingest dk se bs inbox =
    (case sealed_control_decode bs of
       Inl e \<Rightarrow> (Inl e, inbox)
     | Inr sealed \<Rightarrow>
         if sc_version sealed \<noteq> CONTROL_VERSION then (Inl (CtUnknownVersion (sc_version sealed)), inbox)
         else if sc_drive sealed \<noteq> in_drive inbox then (Inl CtWrongDrive, inbox)
         else (case fmlookup (in_keys inbox) (sc_epoch sealed) of
             None \<Rightarrow> (Inl (CtUnknownEpoch (sc_epoch sealed)), inbox)
           | Some key \<Rightarrow>
               (let i = sealed_control_message_id dk sealed in
                if i |\<in>| in_suppressed inbox then (Inr IngestDuplicate, inbox)
                else (case control_open se key sealed of
                    Inl e \<Rightarrow> (Inl e, inbox)
                  | Inr (_, _, m) \<Rightarrow>
                      if i |\<in>| in_seen inbox then (Inr IngestDuplicate, inbox)
                      else (Inr (IngestAccepted i m), inbox\<lparr>in_seen := finsert i (in_seen inbox)\<rparr>)))))"

definition has_seen :: "control_inbox \<Rightarrow> array32 \<Rightarrow> bool" where
  "has_seen inbox i \<longleftrightarrow> i |\<in>| in_seen inbox"

definition inbox_remember :: "array32 \<Rightarrow> control_inbox \<Rightarrow> bool \<times> control_inbox" where
  "inbox_remember i inbox = (i |\<notin>| in_seen inbox, inbox\<lparr>in_seen := finsert i (in_seen inbox)\<rparr>)"

text \<open>The eviction loop of \<open>suppress\<close>: the oldest verdict leaves while the queue is over its bound.\<close>

fun evict :: "array32 list \<Rightarrow> array32 fset \<Rightarrow> array32 list \<times> array32 fset" where
  "evict [] suppressed = ([], suppressed)"
| "evict (oldest # order) suppressed =
    (if length (oldest # order) > MAX_SUPPRESSED_IDS then evict order (suppressed |-| {|oldest|})
     else (oldest # order, suppressed))"

definition inbox_suppress :: "array32 \<Rightarrow> control_inbox \<Rightarrow> control_inbox" where
  "inbox_suppress i inbox =
    (let inbox = inbox\<lparr>in_seen := in_seen inbox |-| {|i|}\<rparr> in
     if i |\<in>| in_suppressed inbox then inbox
     else let (order, suppressed) = evict (in_suppressed_order inbox @ [i]) (finsert i (in_suppressed inbox)) in
       inbox\<lparr>in_suppressed := suppressed, in_suppressed_order := order\<rparr>)"

definition inbox_forget :: "array32 \<Rightarrow> control_inbox \<Rightarrow> control_inbox" where
  "inbox_forget i inbox = inbox\<lparr>in_seen := in_seen inbox |-| {|i|}\<rparr>"

definition inbox_ingest_rotation ::
  "crypto \<Rightarrow> sealing \<Rightarrow> bytes \<Rightarrow> array32 \<Rightarrow> control_inbox \<Rightarrow> (control_error + rotation_ingest) \<times> control_inbox" where
  "inbox_ingest_rotation cr se bs secret inbox =
    (case sealed_rotation_decode cr bs of
       Inl e \<Rightarrow> (Inl (CtCrypto e), inbox)
     | Inr sealed \<Rightarrow>
         if sr_version sealed \<noteq> ROTATION_VERSION then (Inl (CtUnknownVersion (sr_version sealed)), inbox)
         else if sr_drive sealed \<noteq> in_drive inbox then (Inl CtWrongDrive, inbox)
         else (case open_rotation cr se secret sealed of
             Inl e \<Rightarrow> (Inl e, inbox)
           | Inr delivery \<Rightarrow>
               (let i = sealed_rotation_message_id (cr_derive_key cr) sealed in
                if i |\<in>| in_suppressed inbox then (Inr RotationDuplicate, inbox)
                else if i |\<in>| in_seen inbox then (Inr RotationDuplicate, inbox)
                else (Inr (RotationAccepted i delivery), inbox\<lparr>in_seen := finsert i (in_seen inbox)\<rparr>))))"

end
