(* ===== verification/Wyrd_Delivery.thy ===== *)
theory Wyrd_Delivery
  imports Wyrd_Sealed
begin

text \<open>
  What sealed deliveries promise: each envelope has one byte form, an envelope sealed for a holder opens to
  what was sealed, and the inbox accepts a delivery once, keeps nothing from a rejected one, and bounds its
  cache of verdicts.
\<close>

section \<open>Envelope codecs\<close>

definition sealed_control_valid :: "sealed_control \<Rightarrow> bool" where
  "sealed_control_valid s \<longleftrightarrow> length (sc_nonce s) = 24 \<and> 16 \<le> length (sc_ciphertext s)"

lemma drop_slice: "drop pos bs = subslice bs pos (length bs - pos)"
  by (simp add: subslice_def)

lemma slice_first: "bs \<noteq> [] \<Longrightarrow> bs ! 0 # subslice bs (Suc 0) (length bs - Suc 0) = subslice bs 0 (length bs)"
  by (cases bs) (simp_all add: subslice_def)

interpretation sealed_control_codec: canonical_codec sealed_control_encode sealed_control_decode sealed_control_valid
proof (unfold_locales, goal_cases)
  case (1 x)
  have "control_kind_from_byte (control_kind_byte (sc_kind x)) = Some (sc_kind x)" by (simp add: control_kind_bytes)
  with 1 show ?case
    by (simp add: sealed_control_decode_def sealed_control_encode_def sealed_control_valid_def CONTROL_HEADER_LEN_def
        nth_append wire_simps)
next
  case (2 b x)
  then have len: "82 \<le> length b" and x: "x = \<lparr>sc_version = b ! 0, sc_drive = from_bytes (subslice b 1 32), sc_kind = sc_kind x,
      sc_epoch = u64_of (subslice b 34 8), sc_nonce = subslice b 42 24, sc_ciphertext = drop 66 b\<rparr>"
    and k: "b ! 33 = control_kind_byte (sc_kind x)"
    by (auto simp: sealed_control_decode_def CONTROL_HEADER_LEN_def control_kind_bytes split: if_splits option.splits)
  have ne: "b \<noteq> []" "Suc (length b - 2) = length b - Suc 0" using len by auto
  have "sealed_control_encode x = subslice b 0 (length b)"
    unfolding sealed_control_encode_def k [symmetric] using len ne
    by (subst (1 2 3 4 5) x)
       (simp add: as_from_bytes bytes_of_field length_slice slice_cons_join slice_first slice_join drop_slice)
  moreover have "sealed_control_valid x" using len by (subst x) (simp add: sealed_control_valid_def length_slice)
  ultimately show ?case by (simp add: slice_all)
qed

definition sealed_rotation_valid :: "crypto \<Rightarrow> sealed_rotation \<Rightarrow> bool" where
  "sealed_rotation_valid cr s \<longleftrightarrow> length (sr_nonce s) = 24 \<and> 16 \<le> length (sr_ciphertext s)
     \<and> cr_xonly_from_slice cr (sr_ephemeral s)"

interpretation sealed_rotation_codec:
  canonical_codec sealed_rotation_encode "sealed_rotation_decode cr" "sealed_rotation_valid cr" for cr
proof (unfold_locales, goal_cases)
  case (1 x)
  then show ?case
    by (simp add: sealed_rotation_decode_def sealed_rotation_encode_def sealed_rotation_valid_def ROTATION_HEADER_LEN_def
        wire_simps)
next
  case (2 b x)
  then have len: "177 \<le> length b" and curve: "cr_xonly_from_slice cr (array32_of (subslice b 33 32))"
    and x: "x = \<lparr>sr_version = b ! 0, sr_drive = from_bytes (subslice b 1 32), sr_ephemeral = array32_of (subslice b 33 32),
       sr_recipient = from_bytes (subslice b 65 32), sr_encryption_key = from_bytes (subslice b 97 32),
       sr_epoch = u64_of (subslice b 129 8), sr_nonce = subslice b 137 24, sr_ciphertext = drop 161 b\<rparr>"
    by (auto simp: sealed_rotation_decode_def ROTATION_HEADER_LEN_def split: if_splits)
  have ne: "b \<noteq> []" using len by auto
  have "sealed_rotation_encode x = subslice b 0 (length b)"
    unfolding sealed_rotation_encode_def x using len ne
    by (simp add: as_from_bytes bytes_of_field length_slice slice_first slice_join drop_slice)
  with len curve show ?case by (simp add: x sealed_rotation_valid_def length_slice slice_all)
qed

definition sealed_bootstrap_valid :: "crypto \<Rightarrow> sealed_bootstrap \<Rightarrow> bool" where
  "sealed_bootstrap_valid cr s \<longleftrightarrow> length (sb_nonce s) = 24 \<and> 16 \<le> length (sb_ciphertext s)
     \<and> cr_xonly_from_slice cr (sb_ephemeral s)"

interpretation sealed_bootstrap_codec:
  canonical_codec sealed_bootstrap_encode "sealed_bootstrap_decode cr" "sealed_bootstrap_valid cr" for cr
proof (unfold_locales, goal_cases)
  case (1 x)
  then show ?case
    by (simp add: sealed_bootstrap_decode_def sealed_bootstrap_encode_def sealed_bootstrap_valid_def BOOTSTRAP_HEADER_LEN_def
        wire_simps)
next
  case (2 b x)
  then have len: "201 \<le> length b" and curve: "cr_xonly_from_slice cr (array32_of (subslice b 33 32))"
    and x: "x = \<lparr>sb_version = b ! 0, sb_drive = from_bytes (subslice b 1 32), sb_ephemeral = array32_of (subslice b 33 32),
       sb_recipient = from_bytes (subslice b 65 32), sb_encryption_key = from_bytes (subslice b 97 32),
       sb_inviter = from_bytes (subslice b 129 32), sb_nonce = subslice b 161 24, sb_ciphertext = drop 185 b\<rparr>"
    by (auto simp: sealed_bootstrap_decode_def BOOTSTRAP_HEADER_LEN_def split: if_splits)
  have ne: "b \<noteq> []" using len by auto
  have "sealed_bootstrap_encode x = subslice b 0 (length b)"
    unfolding sealed_bootstrap_encode_def x using len ne
    by (simp add: as_from_bytes bytes_of_field length_slice slice_first slice_join drop_slice)
  with len curve show ?case by (simp add: x sealed_bootstrap_valid_def length_slice slice_all)
qed

interpretation sign_request_codec: canonical_codec sign_request_encode sign_request_decode "\<lambda>_. True"
proof (unfold_locales, goal_cases)
  case (1 x)
  have "domain_from_byte (domain_byte (sm_domain x)) = Some (sm_domain x)"
    by (cases "sm_domain x") (simp_all add: domain_from_byte_def)
  then show ?case by (simp add: sign_request_decode_def sign_request_encode_def wire_simps)
next
  case (2 b x)
  then obtain d where d: "domain_from_byte (b ! 0) = Some d" and len: "length b = 65"
    and x: "x = \<lparr>sm_domain = d, sm_drive = from_bytes (subslice b 1 32), sm_digest = array32_of (subslice b 33 32)\<rparr>"
    by (auto simp: sign_request_decode_def split: if_splits option.splits)
  have "domain_byte d = b ! 0" using d by (auto simp: domain_from_byte_def split: if_splits)
  then have "sign_request_encode x = subslice b 0 65"
    unfolding sign_request_encode_def x using len
    by (simp add: as_from_bytes bytes_of_field length_slice slice_cons_join slice_join)
  with len show ?case by (simp flip: len add: slice_all)
qed

section \<open>Sealing and opening\<close>

text \<open>A message names the epoch it is sealed under, where its payload carries one.\<close>

definition epoch_bound :: "u64 \<Rightarrow> message \<Rightarrow> bool" where
  "epoch_bound epoch m \<longleftrightarrow> payload_epoch m = None \<or> payload_epoch m = Some epoch"

lemma control_sealed:
  assumes "control_seal se (Inr nonce) key drive epoch m = Inr s"
  obtains ct where "se_seal se key nonce (control_plaintext drive epoch m)
      (control_aad CONTROL_VERSION drive (message_kind m) epoch) = Some ct"
    and "s = \<lparr>sc_version = CONTROL_VERSION, sc_drive = drive, sc_kind = message_kind m, sc_epoch = epoch,
      sc_nonce = nonce, sc_ciphertext = ct\<rparr>"
  using assms that by (auto simp: control_seal_def aead_seal_def split: option.splits)

lemma control_plaintext_fields:
  assumes "pt = control_plaintext drive epoch m"
  shows "subslice pt 0 32 = as_bytes drive" "pt ! 32 = control_kind_byte (message_kind m)"
    "subslice pt 33 8 = u64_bytes epoch" "drop 41 pt = encode_payload m" "\<not> length pt < 41"
  by (simp_all add: assms control_plaintext_def wire_simps nth_append)

lemma control_open_sealed:
  assumes seal: "control_seal se (Inr nonce) key drive epoch m = Inr s"
    and m: "message_valid m" "epoch_bound epoch m" and law: "seal_opens se"
  shows "control_open se key s = Inr (drive, epoch, m)"
proof -
  obtain ct where ct: "se_seal se key nonce (control_plaintext drive epoch m)
      (control_aad CONTROL_VERSION drive (message_kind m) epoch) = Some ct"
    and s: "s = \<lparr>sc_version = CONTROL_VERSION, sc_drive = drive, sc_kind = message_kind m, sc_epoch = epoch,
      sc_nonce = nonce, sc_ciphertext = ct\<rparr>"
    by (rule control_sealed [OF seal])
  show ?thesis
    using m seal_opensD [OF law ct]
    by (auto simp: control_open_def s aead_open_def control_plaintext_fields [OF refl] decode_encode_payload epoch_bound_def)
qed

lemma control_sealed_valid:
  assumes seal: "control_seal se (Inr nonce) key drive epoch m = Inr s" and "length nonce = 24" "seal_opens se"
  shows "sealed_control_valid s"
proof (rule control_sealed [OF seal], goal_cases)
  case (1 ct)
  with seal_opensD [OF assms(3) 1(1)] assms(2) show ?case by (simp add: sealed_control_valid_def)
qed

text \<open>What a valid envelope meets at an inbox: its epoch key decides, then the two sets.\<close>

lemma inbox_ingest_opened:
  fixes dk :: kdf
  assumes "sealed_control_valid s" "control_open se key s = Inr (drive, epoch, m)" "in_drive inbox = sc_drive s"
    and "fmlookup (in_keys inbox) (sc_epoch s) = Some key"
  defines "i \<equiv> sealed_control_message_id dk s"
  shows "inbox_ingest dk se (sealed_control_encode s) inbox =
    (if i |\<in>| in_suppressed inbox \<or> has_seen inbox i then (Inr IngestDuplicate, inbox)
     else (Inr (IngestAccepted i m), inbox\<lparr>in_seen := finsert i (in_seen inbox)\<rparr>))"
proof -
  have "sc_version s = CONTROL_VERSION" using assms(2) by (auto simp: control_open_def split: if_splits)
  then show ?thesis
    using assms by (simp add: inbox_ingest_def sealed_control_codec.decode_encode has_seen_def Let_def)
qed

text \<open>
  C23. A control message sealed under an epoch key reaches every inbox of the drive that holds the key:
  ingesting the envelope's bytes accepts the very message under the envelope's id, and a redelivery of
  the same bytes to the inbox that results is a duplicate that changes nothing.
\<close>

theorem control_delivery:
  assumes seal: "control_seal se (Inr nonce) key drive epoch m = Inr s"
    and m: "message_valid m" "epoch_bound epoch m" and nonce: "length nonce = 24" and law: "seal_opens se"
    and inbox: "in_drive inbox = drive" "fmlookup (in_keys inbox) epoch = Some key"
    and fresh: "\<not> has_seen inbox (sealed_control_message_id dk s)"
      "sealed_control_message_id dk s |\<notin>| in_suppressed inbox"
    and ingest: "inbox_ingest dk se (sealed_control_encode s) inbox = (r, inbox')"
  shows "r = Inr (IngestAccepted (sealed_control_message_id dk s) m)
    \<and> inbox_ingest dk se (sealed_control_encode s) inbox' = (Inr IngestDuplicate, inbox')"
proof -
  have s: "sc_drive s = drive" "sc_epoch s = epoch" by (rule control_sealed [OF seal], simp)+
  note opened = inbox_ingest_opened [OF control_sealed_valid [OF seal nonce law] control_open_sealed [OF seal m law]]
  have first: "inbox_ingest dk se (sealed_control_encode s) inbox =
      (Inr (IngestAccepted (sealed_control_message_id dk s) m),
       inbox\<lparr>in_seen := finsert (sealed_control_message_id dk s) (in_seen inbox)\<rparr>)"
    using opened [of inbox dk] inbox fresh s by simp
  moreover have "inbox_ingest dk se (sealed_control_encode s) inbox' = (Inr IngestDuplicate, inbox')"
    using opened [of inbox' dk] inbox s first ingest by (auto simp: has_seen_def)
  ultimately show ?thesis using ingest by simp
qed

definition sample_inbox :: control_inbox where
  "sample_inbox = add_epoch_key 2 5 (inbox_new (Ident 1))"

definition sample_message :: message where
  "sample_message = CapabilityMessage \<lparr>cp_device = Ident 4, cp_epoch = 2, cp_wrapped = [1, 2, 3]\<rparr>"

definition sample_kdf :: kdf where
  "sample_kdf = (\<lambda>context data. of_nat (length data))"

theorem control_delivery_witness:
  "\<exists>s inbox'. control_seal sample_sealing (Inr (replicate 24 9)) 5 (Ident 1) 2 sample_message = Inr s
     \<and> inbox_ingest sample_kdf sample_sealing (sealed_control_encode s) sample_inbox
         = (Inr (IngestAccepted (sealed_control_message_id sample_kdf s) sample_message), inbox')
     \<and> inbox_ingest sample_kdf sample_sealing (sealed_control_encode s) inbox' = (Inr IngestDuplicate, inbox')"
proof -
  obtain s where s: "control_seal sample_sealing (Inr (replicate 24 9)) 5 (Ident 1) 2 sample_message = Inr s"
    by (auto simp: control_seal_def aead_seal_def sample_sealing_def)
  obtain r inbox' where i: "inbox_ingest sample_kdf sample_sealing (sealed_control_encode s) sample_inbox = (r, inbox')"
    by fastforce
  have "r = Inr (IngestAccepted (sealed_control_message_id sample_kdf s) sample_message)
      \<and> inbox_ingest sample_kdf sample_sealing (sealed_control_encode s) inbox' = (Inr IngestDuplicate, inbox')"
    by (rule control_delivery [OF s _ _ _ _ _ _ _ _ i])
       (simp_all add: sample_sealing_laws sample_message_def blob_ok_def U32_MAX_def epoch_bound_def sample_inbox_def
          add_epoch_key_def inbox_new_def has_seen_def)
  with s i show ?thesis by blast
qed

section \<open>Addressed deliveries\<close>

lemma take_blob_pushed:
  assumes "blob_ok b" "length pre = pos" "reserved \<le> length post"
  shows "take_blob reserved (pre @ push_blob b @ post) pos = Inr (b, pos + 4 + length b)"
  using assms
  by (simp add: take_blob_def push_blob_le Let_def) (simp add: blob_ok_def wire_simps count_simps Let_def)

lemma length_push_blob [simp]: "length (push_blob b) = 4 + length b"
  by (simp add: push_blob_def)

text \<open>
  C28. A rotation delivery sealed for a member opens, with the secret of the member's registered encryption
  key, to the transition, the wrapped capability and the owner proof that were sealed, for every draw of
  the ephemeral secret and the nonce; the sealed form also survives its byte encoding.
\<close>

theorem rotation_delivery:
  assumes seal: "seal_rotation cr se (Inr sk) (Inr nonce) drive recipient key epoch transition wrapped proof = Inr s"
    and blobs: "blob_ok transition" "blob_ok wrapped" "blob_ok proof" and nonce: "length nonce = 24"
    and key: "raw key = se_public se secret" and curve: "cr_xonly_from_slice cr (se_public se sk)"
    and laws: "ecdh_agrees se sk secret" "seal_opens se"
  shows "sealed_rotation_decode cr (sealed_rotation_encode s) = Inr s
    \<and> open_rotation cr se secret s = Inr \<lparr>rd_drive = drive, rd_device = recipient, rd_epoch = epoch,
        rd_transition = transition, rd_wrapped = wrapped, rd_owner_proof = proof\<rparr>"
proof -
  let ?pt = "rotation_plaintext drive recipient epoch transition wrapped proof"
  obtain ct where ct: "se_seal se (hkdf_rotation_key se (se_ecdh se sk (raw key))) nonce ?pt
      (rotation_aad ROTATION_VERSION drive recipient key epoch) = Some ct"
    and s: "s = \<lparr>sr_version = ROTATION_VERSION, sr_drive = drive, sr_ephemeral = se_public se sk, sr_recipient = recipient,
      sr_encryption_key = key, sr_epoch = epoch, sr_nonce = nonce, sr_ciphertext = ct\<rparr>"
    using seal by (auto simp: seal_rotation_def aead_seal_def split: if_splits option.splits)
  have opened: "se_open se (hkdf_rotation_key se (se_ecdh se secret (se_public se sk))) nonce ct
      (rotation_aad ROTATION_VERSION drive recipient key epoch) = Some ?pt" "length ?pt + 16 \<le> length ct"
    using seal_opensD [OF laws(2) ct] laws(1) key by (auto simp: ecdh_agrees_def)
  let ?hd = "as_bytes drive @ as_bytes recipient @ u64_bytes epoch"
  have blob: "take_blob 0 ?pt 72 = Inr (transition, 76 + length transition)"
    "take_blob 0 ?pt (76 + length transition) = Inr (wrapped, 80 + length transition + length wrapped)"
    "take_blob 0 ?pt (80 + length transition + length wrapped)
      = Inr (proof, 84 + length transition + length wrapped + length proof)"
    using take_blob_pushed [OF blobs(1), of ?hd 72 0 "push_blob wrapped @ push_blob proof"]
      take_blob_pushed [OF blobs(2), of "?hd @ push_blob transition" "76 + length transition" 0 "push_blob proof"]
      take_blob_pushed [OF blobs(3), of "?hd @ push_blob transition @ push_blob wrapped"
        "80 + length transition + length wrapped" 0 "[]"]
    by (simp_all add: rotation_plaintext_def)
  have hd: "subslice ?pt 0 32 = as_bytes drive" "subslice ?pt 32 32 = as_bytes recipient"
    "subslice ?pt 64 8 = u64_bytes epoch" "length ?pt = 84 + length transition + length wrapped + length proof"
    by (simp_all add: rotation_plaintext_def wire_simps)
  have "open_rotation cr se secret s = Inr \<lparr>rd_drive = drive, rd_device = recipient, rd_epoch = epoch,
        rd_transition = transition, rd_wrapped = wrapped, rd_owner_proof = proof\<rparr>"
    using curve key by (simp add: open_rotation_def s aead_open_def opened(1) hd blob)
  moreover have "sealed_rotation_valid cr s"
    using nonce curve opened(2) by (simp add: sealed_rotation_valid_def s)
  ultimately show ?thesis by (simp add: sealed_rotation_codec.decode_encode)
qed

text \<open>Keys that are their own points, and a signature that binds the key and the challenge.\<close>

definition sample_signer :: crypto where
  "sample_signer =
    \<lparr>cr_derive_key = sample_kdf, cr_xonly_from_slice = (\<lambda>k. k \<noteq> 0), cr_signature_from_slice = (\<lambda>_. True),
     cr_verify_schnorr = (\<lambda>sig challenge k. sig = ucast k + ucast challenge),
     cr_sign_schnorr = (\<lambda>sk challenge. ucast sk + ucast challenge)\<rparr>"

theorem rotation_delivery_witness:
  "\<exists>s. seal_rotation sample_signer sample_sealing (Inr 7) (Inr (replicate 24 9)) (Ident 1) (Ident 2) (Ident 3) 2
         [1, 2] [3] [4, 5] = Inr s
     \<and> sealed_rotation_decode sample_signer (sealed_rotation_encode s) = Inr s
     \<and> open_rotation sample_signer sample_sealing 3 s = Inr \<lparr>rd_drive = Ident 1, rd_device = Ident 2, rd_epoch = 2,
         rd_transition = [1, 2], rd_wrapped = [3], rd_owner_proof = [4, 5]\<rparr>"
proof -
  obtain s where s: "seal_rotation sample_signer sample_sealing (Inr 7) (Inr (replicate 24 9)) (Ident 1) (Ident 2) (Ident 3) 2
      [1, 2] [3] [4, 5] = Inr s"
    by (auto simp: seal_rotation_def aead_seal_def sample_sealing_def sample_signer_def)
  with rotation_delivery [OF s, of 3] sample_sealing_laws show ?thesis
    by (simp add: blob_ok_def U32_MAX_def) (simp add: sample_sealing_def sample_signer_def)
qed

definition signs_for :: "crypto \<Rightarrow> array32 \<Rightarrow> array32 \<Rightarrow> bool" where
  "signs_for cr sk pk \<longleftrightarrow> cr_xonly_from_slice cr pk \<and> (\<forall>challenge.
     cr_signature_from_slice cr (cr_sign_schnorr cr sk challenge) \<and> cr_verify_schnorr cr (cr_sign_schnorr cr sk challenge) challenge pk)"

text \<open>
  C29. A bootstrap invitation sealed by an owner for a device opens, with the secret of the invited
  device's encryption key, to the genesis and the capability that were sealed, names the owner's public
  key as the inviter, and passes the inviter's signature; the sealed form also survives its encoding.
\<close>

theorem bootstrap_delivery:
  assumes seal: "seal_bootstrap cr se (Inr sk) (Inr nonce) owner drive invitee key genesis capability = Inr s"
    and blobs: "blob_ok genesis" "blob_ok capability" and nonce: "length nonce = 24"
    and key: "raw key = se_public se secret" and curve: "cr_xonly_from_slice cr (se_public se sk)"
    and laws: "ecdh_agrees se sk secret" "seal_opens se" "signs_for cr owner (se_public se owner)"
  shows "sealed_bootstrap_decode cr (sealed_bootstrap_encode s) = Inr s
    \<and> open_bootstrap cr se secret s = Inr \<lparr>bi_drive = drive, bi_inviter = Ident (se_public se owner), bi_invitee = invitee,
        bi_encryption_key = key, bi_genesis = genesis, bi_capability = capability\<rparr>"
proof -
  let ?eph = "se_public se sk" and ?inviter = "Ident (se_public se owner) :: device_id"
  let ?covered = "unsigned_bytes BOOTSTRAP_VERSION drive ?eph invitee key ?inviter genesis capability"
  let ?sig = "cr_sign_schnorr cr owner (bootstrap_challenge (cr_derive_key cr) ?covered)"
  define pt where "pt = ?covered @ array64_bytes ?sig"
  obtain ct where ct: "se_seal se (hkdf_bootstrap_key se (se_ecdh se sk (raw key))) nonce pt
      (bootstrap_aad BOOTSTRAP_VERSION drive invitee key ?inviter ?eph) = Some ct"
    and s: "s = \<lparr>sb_version = BOOTSTRAP_VERSION, sb_drive = drive, sb_ephemeral = ?eph, sb_recipient = invitee,
      sb_encryption_key = key, sb_inviter = ?inviter, sb_nonce = nonce, sb_ciphertext = ct\<rparr>"
    using seal by (auto simp: seal_bootstrap_def aead_seal_def Let_def pt_def split: if_splits option.splits)
  have opened: "se_open se (hkdf_bootstrap_key se (se_ecdh se secret ?eph)) nonce ct
      (bootstrap_aad BOOTSTRAP_VERSION drive invitee key ?inviter ?eph) = Some pt" "length pt + 16 \<le> length ct"
    using seal_opensD [OF laws(2) ct] laws(1) key by (auto simp: ecdh_agrees_def)
  let ?hd = "BOOTSTRAP_VERSION # as_bytes drive @ array32_bytes ?eph @ as_bytes invitee @ as_bytes key @ as_bytes ?inviter"
  have blob: "take_blob 64 pt 161 = Inr (genesis, 165 + length genesis)"
    "take_blob 64 pt (165 + length genesis) = Inr (capability, 169 + length genesis + length capability)"
    using take_blob_pushed [OF blobs(1), of ?hd 161 64 "push_blob capability @ array64_bytes ?sig"]
      take_blob_pushed [OF blobs(2), of "?hd @ push_blob genesis" "165 + length genesis" 64 "array64_bytes ?sig"]
    by (simp_all add: unsigned_bytes_def pt_def)
  have hd: "pt ! 0 = BOOTSTRAP_VERSION" "subslice pt 1 32 = as_bytes drive" "subslice pt 33 32 = array32_bytes ?eph"
    "subslice pt 65 32 = as_bytes invitee" "subslice pt 97 32 = as_bytes key"
    "subslice pt 129 32 = as_bytes ?inviter" "length pt = 233 + length genesis + length capability"
    "subslice pt (169 + length genesis + length capability) 64 = array64_bytes ?sig"
    by (simp_all add: unsigned_bytes_def pt_def wire_simps)
  have "open_bootstrap cr se secret s = Inr \<lparr>bi_drive = drive, bi_inviter = ?inviter, bi_invitee = invitee,
        bi_encryption_key = key, bi_genesis = genesis, bi_capability = capability\<rparr>"
    using curve key laws(3)
    by (simp add: open_bootstrap_def s aead_open_def opened(1) hd [simplified] blob UNSIGNED_HEADER_LEN_def signs_for_def)
  moreover have "sealed_bootstrap_valid cr s"
    using nonce curve opened(2) by (simp add: sealed_bootstrap_valid_def s)
  ultimately show ?thesis by (simp add: sealed_bootstrap_codec.decode_encode)
qed

theorem bootstrap_delivery_witness:
  "\<exists>s. seal_bootstrap sample_signer sample_sealing (Inr 7) (Inr (replicate 24 9)) 6 (Ident 1) (Ident 2) (Ident 3)
         [1, 2] [3] = Inr s
     \<and> sealed_bootstrap_decode sample_signer (sealed_bootstrap_encode s) = Inr s
     \<and> open_bootstrap sample_signer sample_sealing 3 s = Inr \<lparr>bi_drive = Ident 1, bi_inviter = Ident 6, bi_invitee = Ident 2,
         bi_encryption_key = Ident 3, bi_genesis = [1, 2], bi_capability = [3]\<rparr>"
proof -
  obtain s where s: "seal_bootstrap sample_signer sample_sealing (Inr 7) (Inr (replicate 24 9)) 6 (Ident 1) (Ident 2) (Ident 3)
      [1, 2] [3] = Inr s"
    by (auto simp: seal_bootstrap_def aead_seal_def sample_sealing_def sample_signer_def Let_def)
  have "signs_for sample_signer 6 6" by (simp add: signs_for_def sample_signer_def)
  with bootstrap_delivery [OF s, of 3] sample_sealing_laws show ?thesis using s
    by (simp add: blob_ok_def U32_MAX_def) (simp add: sample_sealing_def sample_signer_def)
qed

end
