(* ===== verification/Wyrd_Inbox.thy ===== *)
theory Wyrd_Inbox
  imports Wyrd_Delivery
begin

text \<open>
  The life of a control inbox (\<open>crates/wyrd-sync/src/control/mod.rs\<close>): the step relation of its
  operations, the invariant of its verdict cache, and at-most-once processing along every run.
\<close>

section \<open>Steps and runs\<close>

datatype inbox_event =
    Opened array32
  | Refused
  | Remembered array32
  | Suppressed array32
  | Forgot array32
  | Keyed u64

inductive inbox_step :: "crypto \<Rightarrow> sealing \<Rightarrow> control_inbox \<Rightarrow> inbox_event \<Rightarrow> control_inbox \<Rightarrow> bool" for cr se where
  ingest: "inbox_ingest (cr_derive_key cr) se bs inbox = (Inr (IngestAccepted i m), inbox') \<Longrightarrow>
    inbox_step cr se inbox (Opened i) inbox'"
| ingest_refused: "inbox_ingest (cr_derive_key cr) se bs inbox = (r, inbox') \<Longrightarrow>
    (\<And>i m. r \<noteq> Inr (IngestAccepted i m)) \<Longrightarrow> inbox_step cr se inbox Refused inbox'"
| ingest_rotation: "inbox_ingest_rotation cr se bs secret inbox = (Inr (RotationAccepted i d), inbox') \<Longrightarrow>
    inbox_step cr se inbox (Opened i) inbox'"
| rotation_refused: "inbox_ingest_rotation cr se bs secret inbox = (r, inbox') \<Longrightarrow>
    (\<And>i d. r \<noteq> Inr (RotationAccepted i d)) \<Longrightarrow> inbox_step cr se inbox Refused inbox'"
| remember: "inbox_step cr se inbox (Remembered i) (snd (inbox_remember i inbox))"
| suppress: "inbox_step cr se inbox (Suppressed i) (inbox_suppress i inbox)"
| forget: "inbox_step cr se inbox (Forgot i) (inbox_forget i inbox)"
| add_key: "inbox_step cr se inbox (Keyed epoch) (add_epoch_key epoch key inbox)"

inductive inbox_run :: "crypto \<Rightarrow> sealing \<Rightarrow> control_inbox \<Rightarrow> inbox_event list \<Rightarrow> control_inbox \<Rightarrow> bool" for cr se where
  start: "inbox_run cr se inbox [] inbox"
| next_step: "inbox_step cr se inbox e inbox1 \<Longrightarrow> inbox_run cr se inbox1 es inbox2 \<Longrightarrow>
    inbox_run cr se inbox (e # es) inbox2"

inductive_simps inbox_step_simps:
  "inbox_step cr se inbox (Opened i) inbox'" "inbox_step cr se inbox Refused inbox'"
  "inbox_step cr se inbox (Remembered i) inbox'" "inbox_step cr se inbox (Suppressed i) inbox'"
  "inbox_step cr se inbox (Forgot i) inbox'" "inbox_step cr se inbox (Keyed epoch) inbox'"

inductive_simps inbox_run_simps [simp]:
  "inbox_run cr se inbox [] inbox'" "inbox_run cr se inbox (e # es) inbox'"

text \<open>An acceptance takes an id that neither set holds and adds it to the seen ones; a refusal changes nothing.\<close>

lemma inbox_ingest_cases:
  assumes "inbox_ingest dk se bs inbox = (r, inbox')"
  shows "inbox' = inbox \<and> (\<forall>i m. r \<noteq> Inr (IngestAccepted i m))
    \<or> (\<exists>i m. r = Inr (IngestAccepted i m) \<and> i |\<notin>| in_seen inbox \<and> i |\<notin>| in_suppressed inbox
        \<and> inbox' = inbox\<lparr>in_seen := finsert i (in_seen inbox)\<rparr>)"
  using assms by (auto simp: inbox_ingest_def Let_def split: sum.splits if_splits option.splits)

lemma inbox_ingest_rotation_cases:
  assumes "inbox_ingest_rotation cr se bs secret inbox = (r, inbox')"
  shows "inbox' = inbox \<and> (\<forall>i d. r \<noteq> Inr (RotationAccepted i d))
    \<or> (\<exists>i d. r = Inr (RotationAccepted i d) \<and> i |\<notin>| in_seen inbox \<and> i |\<notin>| in_suppressed inbox
        \<and> inbox' = inbox\<lparr>in_seen := finsert i (in_seen inbox)\<rparr>)"
  using assms by (auto simp: inbox_ingest_rotation_def Let_def split: sum.splits if_splits)

lemma accepted_step:
  assumes "inbox_step cr se inbox (Opened i) inbox'"
  shows "i |\<notin>| in_seen inbox \<and> i |\<notin>| in_suppressed inbox \<and> inbox' = inbox\<lparr>in_seen := finsert i (in_seen inbox)\<rparr>"
  using assms unfolding inbox_step_simps by (auto dest!: inbox_ingest_cases inbox_ingest_rotation_cases)

lemma refused_step: "inbox_step cr se inbox Refused inbox' \<Longrightarrow> inbox' = inbox"
  unfolding inbox_step_simps by (auto dest!: inbox_ingest_cases inbox_ingest_rotation_cases)

section \<open>The verdict cache\<close>

definition inbox_ok :: "control_inbox \<Rightarrow> bool" where
  "inbox_ok inbox \<longleftrightarrow> distinct (in_suppressed_order inbox) \<and> length (in_suppressed_order inbox) \<le> MAX_SUPPRESSED_IDS
     \<and> fset_of_list (in_suppressed_order inbox) = in_suppressed inbox"

lemma evict_one:
  assumes "distinct order" "length order \<le> Suc MAX_SUPPRESSED_IDS" "fset_of_list order = suppressed"
    and "evict order suppressed = (order', suppressed')"
  shows "distinct order' \<and> length order' \<le> MAX_SUPPRESSED_IDS \<and> fset_of_list order' = suppressed'
    \<and> order' = drop (length order - MAX_SUPPRESSED_IDS) order"
proof (cases "length order \<le> MAX_SUPPRESSED_IDS")
  case True
  then have "evict order suppressed = (order, suppressed)" by (cases order) auto
  with True assms show ?thesis by simp
next
  case False
  then obtain oldest rest where o: "order = oldest # rest" by (cases order) auto
  with False assms(2) have len: "length rest = MAX_SUPPRESSED_IDS" by simp
  then have "evict rest (suppressed |-| {|oldest|}) = (rest, suppressed |-| {|oldest|})" by (cases rest) auto
  with assms o len show ?thesis by (auto simp: fset_of_list_elem)
qed

lemma inbox_suppress_ok:
  assumes "inbox_ok inbox"
  shows "inbox_ok (inbox_suppress i inbox) \<and> i |\<in>| in_suppressed (inbox_suppress i inbox)
    \<and> in_suppressed_order (inbox_suppress i inbox) =
        (if i |\<in>| in_suppressed inbox then in_suppressed_order inbox
         else drop (Suc (length (in_suppressed_order inbox)) - MAX_SUPPRESSED_IDS) (in_suppressed_order inbox @ [i]))"
proof (cases "i |\<in>| in_suppressed inbox")
  case False
  let ?order = "in_suppressed_order inbox @ [i]"
  obtain order suppressed where e: "evict ?order (finsert i (in_suppressed inbox)) = (order, suppressed)" by fastforce
  have order: "set (in_suppressed_order inbox) = fset (in_suppressed inbox)"
    using assms by (metis inbox_ok_def fset_of_list.rep_eq)
  have r: "(distinct order \<and> length order \<le> MAX_SUPPRESSED_IDS \<and> fset_of_list order = suppressed)
      \<and> order = drop (length ?order - MAX_SUPPRESSED_IDS) ?order"
  proof (rule conjI)
    have "distinct ?order" "length ?order \<le> Suc MAX_SUPPRESSED_IDS" "fset_of_list ?order = finsert i (in_suppressed inbox)"
      using assms False order by (auto simp: inbox_ok_def)
    from evict_one [OF this e] show "distinct order \<and> length order \<le> MAX_SUPPRESSED_IDS \<and> fset_of_list order = suppressed"
      "order = drop (length ?order - MAX_SUPPRESSED_IDS) ?order" by blast+
  qed
  have "MAX_SUPPRESSED_IDS > 0" by (simp add: MAX_SUPPRESSED_IDS_def)
  then have "i |\<in>| suppressed" using r by (auto simp: fset_of_list_elem)
  moreover have "inbox_suppress i inbox =
      inbox\<lparr>in_seen := in_seen inbox |-| {|i|}, in_suppressed := suppressed, in_suppressed_order := order\<rparr>"
    using e False by (simp add: inbox_suppress_def)
  moreover have "inbox_ok (inbox\<lparr>in_seen := in_seen inbox |-| {|i|}, in_suppressed := suppressed, in_suppressed_order := order\<rparr>)"
    using conjunct1 [OF r] by (simp add: inbox_ok_def)
  ultimately show ?thesis using r False by simp
qed (use assms in \<open>simp add: inbox_suppress_def inbox_ok_def Let_def\<close>)

lemma inbox_step_ok: "inbox_step cr se inbox e inbox' \<Longrightarrow> inbox_ok inbox \<Longrightarrow> inbox_ok inbox'"
proof (cases e)
  case (Opened i)
  assume "inbox_step cr se inbox e inbox'" "inbox_ok inbox"
  with Opened accepted_step [of cr se inbox i inbox'] show ?thesis by (simp add: inbox_ok_def)
next
  case Refused
  assume "inbox_step cr se inbox e inbox'" "inbox_ok inbox"
  with Refused refused_step [of cr se inbox inbox'] show ?thesis by simp
next
  case (Suppressed i)
  assume "inbox_step cr se inbox e inbox'" "inbox_ok inbox"
  with Suppressed inbox_suppress_ok [of inbox i] show ?thesis by (simp add: inbox_step_simps)
qed (auto simp: inbox_step_simps inbox_ok_def inbox_remember_def inbox_forget_def add_epoch_key_def)

lemma inbox_run_ok: "inbox_run cr se inbox es inbox' \<Longrightarrow> inbox_ok inbox \<Longrightarrow> inbox_ok inbox'"
  by (induction rule: inbox_run.induct) (auto dest: inbox_step_ok)

lemma inbox_new_ok: "inbox_ok (inbox_new drive)"
  by (simp add: inbox_ok_def inbox_new_def)

text \<open>An id is never in both sets, as long as no rehydrated id is one with a verdict.\<close>

definition inbox_disjoint :: "control_inbox \<Rightarrow> bool" where
  "inbox_disjoint inbox \<longleftrightarrow> fBall (in_seen inbox) (\<lambda>i. i |\<notin>| in_suppressed inbox)"

lemma evict_subset: "evict order suppressed = (order', suppressed') \<Longrightarrow> suppressed' |\<subseteq>| suppressed"
  by (induction order suppressed rule: evict.induct) (auto split: if_splits)

lemma inbox_step_disjoint:
  assumes "inbox_step cr se inbox e inbox'" "inbox_disjoint inbox" "\<And>i. e \<noteq> Remembered i"
  shows "inbox_disjoint inbox'"
proof (cases e)
  case (Opened i)
  with assms accepted_step [of cr se inbox i inbox'] show ?thesis by (auto simp: inbox_disjoint_def)
next
  case Refused
  with assms refused_step [of cr se inbox inbox'] show ?thesis by simp
next
  case (Suppressed i)
  obtain order suppressed where e: "evict (in_suppressed_order inbox @ [i]) (finsert i (in_suppressed inbox)) = (order, suppressed)"
    by fastforce
  from evict_subset [OF e] assms Suppressed show ?thesis
    by (auto simp: inbox_step_simps inbox_suppress_def inbox_disjoint_def e Let_def)
qed (use assms in \<open>auto simp: inbox_step_simps inbox_disjoint_def inbox_forget_def add_epoch_key_def\<close>)

text \<open>
  C30. Along every run of a fresh inbox the cache of suppression verdicts lists each suppressed id once, in
  the order of the verdicts, and never holds more than 4096 of them; a fresh verdict is always held, and
  the delivery that carries its id is refused without touching the inbox.
\<close>

theorem verdict_cache_bounded:
  assumes "inbox_run cr se (inbox_new drive) es inbox"
  shows "fcard (in_suppressed inbox) \<le> 4096 \<and> distinct (in_suppressed_order inbox)
    \<and> fset_of_list (in_suppressed_order inbox) = in_suppressed inbox
    \<and> i |\<in>| in_suppressed (inbox_suppress i inbox)
    \<and> \<not> inbox_step cr se (inbox_suppress i inbox) (Opened i) inbox'"
proof -
  have ok: "inbox_ok inbox" using inbox_run_ok [OF assms inbox_new_ok] .
  then have "fcard (in_suppressed inbox) = length (in_suppressed_order inbox)"
    by (metis inbox_ok_def distinct_card fcard.rep_eq fset_of_list.rep_eq)
  moreover have "i |\<in>| in_suppressed (inbox_suppress i inbox)" using inbox_suppress_ok [OF ok] by blast
  ultimately show ?thesis using ok accepted_step [of cr se "inbox_suppress i inbox" i inbox']
    by (auto simp: inbox_ok_def MAX_SUPPRESSED_IDS_def)
qed

theorem verdict_cache_bounded_witness:
  "inbox_run sample_signer sample_sealing (inbox_new (Ident 1)) [Suppressed 3] (inbox_suppress 3 (inbox_new (Ident 1)))
   \<and> fcard (in_suppressed (inbox_suppress 3 (inbox_new (Ident 1)))) \<le> 4096
   \<and> \<not> inbox_step sample_signer sample_sealing (inbox_suppress 3 (inbox_suppress 3 (inbox_new (Ident 1)))) (Opened 3) (inbox_new (Ident 1))"
proof -
  have run: "inbox_run sample_signer sample_sealing (inbox_new (Ident 1)) [Suppressed 3] (inbox_suppress 3 (inbox_new (Ident 1)))"
    by (simp add: inbox_step_simps)
  then show ?thesis using verdict_cache_bounded [OF run] by blast
qed

section \<open>At most once\<close>

lemma step_keeps_seen:
  assumes "inbox_step cr se inbox e inbox'" "has_seen inbox i" "e \<noteq> Suppressed i" "e \<noteq> Forgot i"
  shows "has_seen inbox' i \<and> e \<noteq> Opened i"
proof (cases e)
  case (Opened j)
  with assms accepted_step [of cr se inbox j inbox'] show ?thesis by (auto simp: has_seen_def)
next
  case Refused
  with assms refused_step [of cr se inbox inbox'] show ?thesis by simp
qed (use assms in \<open>auto simp: inbox_step_simps has_seen_def inbox_remember_def inbox_suppress_def inbox_forget_def
      add_epoch_key_def Let_def split: prod.splits\<close>)

lemma seen_never_opened:
  "inbox_run cr se inbox es inbox' \<Longrightarrow> has_seen inbox i \<Longrightarrow> Suppressed i \<notin> set es \<Longrightarrow> Forgot i \<notin> set es \<Longrightarrow>
   has_seen inbox' i \<and> Opened i \<notin> set es"
  by (induction rule: inbox_run.induct) (auto dest: step_keeps_seen)

text \<open>
  C10. A control message or rotation delivery is processed at most once: along every run of an inbox in
  which an id is neither suppressed nor forgotten, it is accepted at most one time however often its bytes
  arrive, and never again once it was accepted or rehydrated from the durable facts.
\<close>

theorem accepted_at_most_once:
  assumes "inbox_run cr se inbox es inbox'" "Suppressed i \<notin> set es" "Forgot i \<notin> set es"
  shows "count_list es (Opened i) \<le> 1 \<and> (has_seen inbox i \<longrightarrow> Opened i \<notin> set es)
    \<and> (Opened i \<in> set es \<or> Remembered i \<in> set es \<or> has_seen inbox i \<longrightarrow> has_seen inbox' i)"
  using assms
proof (induction rule: inbox_run.induct)
  case (next_step inbox e inbox1 es inbox2)
  show ?case
  proof (cases "has_seen inbox1 i")
    case True
    with next_step seen_never_opened [of cr se inbox1 es inbox2 i] have "has_seen inbox2 i" "Opened i \<notin> set es" by auto
    with next_step step_keeps_seen [of cr se inbox e inbox1 i] show ?thesis by auto
  next
    case False
    have "e \<noteq> Opened i" "e \<noteq> Remembered i"
      using False next_step(1) accepted_step [of cr se inbox i inbox1]
      by (auto simp: has_seen_def inbox_step_simps inbox_remember_def)
    with False next_step step_keeps_seen [of cr se inbox e inbox1 i] show ?thesis by auto
  qed
qed simp

lemma sample_run:
  "\<exists>i inbox'. inbox_run sample_signer sample_sealing sample_inbox [Opened i, Refused] inbox'"
proof -
  obtain s where s: "control_seal sample_sealing (Inr (replicate 24 9)) 5 (Ident 1) 2 sample_message = Inr s"
    by (auto simp: control_seal_def aead_seal_def sample_sealing_def)
  have v: "sealed_control_valid s" using control_sealed_valid [OF s _ sample_sealing_laws(2)] by simp
  have o: "control_open sample_sealing 5 s = Inr (Ident 1, 2, sample_message)"
    by (rule control_open_sealed [OF s _ _ sample_sealing_laws(2)]) (simp_all add: sample_message_def blob_ok_def U32_MAX_def epoch_bound_def)
  have d: "sc_drive s = Ident 1" "sc_epoch s = 2" by (rule control_sealed [OF s], simp)+
  let ?i = "sealed_control_message_id sample_kdf s" and ?bs = "sealed_control_encode s"
  let ?seen = "sample_inbox\<lparr>in_seen := finsert ?i (in_seen sample_inbox)\<rparr>"
  have first: "inbox_ingest sample_kdf sample_sealing ?bs sample_inbox = (Inr (IngestAccepted ?i sample_message), ?seen)"
    using inbox_ingest_opened [OF v o, of sample_inbox sample_kdf] d
    by (simp add: sample_inbox_def add_epoch_key_def inbox_new_def has_seen_def)
  have again: "inbox_ingest sample_kdf sample_sealing ?bs ?seen = (Inr IngestDuplicate, ?seen)"
    using inbox_ingest_opened [OF v o, of ?seen sample_kdf] d
    by (simp add: sample_inbox_def add_epoch_key_def inbox_new_def has_seen_def)
  have "cr_derive_key sample_signer = sample_kdf" by (simp add: sample_signer_def)
  with first again have "inbox_run sample_signer sample_sealing sample_inbox [Opened ?i, Refused] ?seen"
    by (auto simp: inbox_step_simps)
  then show ?thesis by blast
qed

theorem accepted_at_most_once_witness:
  "\<exists>i inbox'. inbox_run sample_signer sample_sealing sample_inbox [Opened i, Refused] inbox'
     \<and> count_list [Opened i, Refused] (Opened i) \<le> 1 \<and> has_seen inbox' i"
proof -
  obtain i inbox' where run: "inbox_run sample_signer sample_sealing sample_inbox [Opened i, Refused] inbox'"
    using sample_run by blast
  with accepted_at_most_once [OF run, of i] show ?thesis by auto
qed

end
