(* ===== verification/Wyrd_Manifest.thy ===== *)
theory Wyrd_Manifest
  imports Wyrd_Identity "HOL-Library.Product_Lexorder" "HOL-Library.Multiset"
begin

text \<open>
  Manifests (\<open>crates/wyrd-format/src/manifest.rs\<close>): content-to-storage entries and
  child references, the two constructors, the sortedness check, and the
  canonical encoding with its decoder.  A \<open>BTreeMap\<close> is a finite map iterated in
  ascending key order.
\<close>

section \<open>Data\<close>

definition ENTRY_LEN :: nat where
  "ENTRY_LEN = 114"

definition CHILD_LEN :: nat where
  "CHILD_LEN = 128"

record manifest_entry =
  me_content_id :: content_id
  me_kind :: object_kind
  me_version :: u8
  me_storage_id :: storage_id
  me_encryption_epoch :: u64
  me_size :: u64
  me_transport :: bao_root

record child_manifest =
  cm_tree :: content_id
  cm_manifest :: content_id
  cm_storage :: storage_id
  cm_transport :: bao_root

record manifest =
  mf_snapshot :: snapshot_id
  mf_entries :: "manifest_entry list"
  mf_children :: "child_manifest list"

datatype manifest_error =
    MfTruncated
  | MfTrailingBytes
  | MfUnknownKind u8
  | UnsortedEntries
  | UnsortedChildren
  | MfCountOverflow nat

section \<open>Entries\<close>

definition entry_sort_key :: "manifest_entry \<Rightarrow> bytes \<times> u8 \<times> u8" where
  "entry_sort_key e = (as_bytes (me_content_id e), kind_byte (me_kind e), me_version e)"

definition manifest_entry_encode :: "manifest_entry \<Rightarrow> bytes" where
  "manifest_entry_encode e =
     as_bytes (me_content_id e) @ [kind_byte (me_kind e)] @ [me_version e]
     @ as_bytes (me_storage_id e) @ u64_bytes (me_encryption_epoch e) @ u64_bytes (me_size e)
     @ as_bytes (me_transport e)"

definition manifest_entry_decode :: "bytes \<Rightarrow> manifest_error + manifest_entry" where
  "manifest_entry_decode bs =
    (if length bs < ENTRY_LEN then Inl MfTruncated
     else result_bind (ok_or (kind_from_byte (bs ! 32)) (MfUnknownKind (bs ! 32))) (\<lambda>kind.
       Inr \<lparr>me_content_id = from_bytes (subslice bs 0 32),
            me_kind = kind,
            me_version = bs ! 33,
            me_storage_id = from_bytes (subslice bs 34 32),
            me_encryption_epoch = u64_of (subslice bs 66 8),
            me_size = u64_of (subslice bs 74 8),
            me_transport = from_bytes (subslice bs 82 32)\<rparr>))"

section \<open>Construction\<close>

definition entries_ascending :: "manifest_entry list \<Rightarrow> bool" where
  "entries_ascending = successively (\<lambda>a b. entry_sort_key a < entry_sort_key b)"

definition children_ascending :: "child_manifest list \<Rightarrow> bool" where
  "children_ascending = successively (\<lambda>a b. as_bytes (cm_tree a) < as_bytes (cm_tree b))"

definition check_sorted :: "manifest \<Rightarrow> manifest_error + unit" where
  "check_sorted m =
    (if length (mf_entries m) > 1 \<and> \<not> entries_ascending (mf_entries m) then Inl UnsortedEntries
     else if length (mf_children m) > 1 \<and> \<not> children_ascending (mf_children m)
       then Inl UnsortedChildren
     else Inr ())"

definition manifest_new ::
  "snapshot_id \<Rightarrow> manifest_entry list \<Rightarrow> child_manifest list \<Rightarrow> manifest_error + manifest" where
  "manifest_new snap entries children =
    (if length entries > U32_MAX then Inl (MfCountOverflow (length entries))
     else if length children > U32_MAX then Inl (MfCountOverflow (length children))
     else
       let m = \<lparr>mf_snapshot = snap,
                mf_entries = sort_key entry_sort_key entries,
                mf_children = sort_key (\<lambda>c. as_bytes (cm_tree c)) children\<rparr> in
       result_bind (check_sorted m) (\<lambda>_. Inr m))"

definition manifest_from_sorted ::
  "snapshot_id \<Rightarrow> (content_id, manifest_entry) fmap \<Rightarrow> (content_id, child_manifest) fmap
    \<Rightarrow> manifest_error + manifest" where
  "manifest_from_sorted snap entries children =
    (let es = sorted_list_of_fmap entries; cs = sorted_list_of_fmap children in
     if length es > U32_MAX then Inl (MfCountOverflow (length es))
     else if length cs > U32_MAX then Inl (MfCountOverflow (length cs))
     else if \<not> list_all (\<lambda>(key, e). key = me_content_id e) es then Inl UnsortedEntries
     else if \<not> list_all (\<lambda>(key, link). key = cm_tree link) cs then Inl UnsortedChildren
     else Inr \<lparr>mf_snapshot = snap, mf_entries = map snd es, mf_children = map snd cs\<rparr>)"

section \<open>Encoding and decoding\<close>

definition child_bytes :: "child_manifest \<Rightarrow> bytes" where
  "child_bytes c =
     as_bytes (cm_tree c) @ as_bytes (cm_manifest c) @ as_bytes (cm_storage c)
     @ as_bytes (cm_transport c)"

definition manifest_canonical_bytes :: "manifest \<Rightarrow> bytes" where
  "manifest_canonical_bytes m =
     as_bytes (mf_snapshot m)
     @ u32_le (length (mf_entries m)) @ concat (map manifest_entry_encode (mf_entries m))
     @ u32_le (length (mf_children m)) @ concat (map child_bytes (mf_children m))"

definition parse_manifest_entry :: "bytes \<Rightarrow> nat \<Rightarrow> manifest_error + manifest_entry \<times> nat" where
  "parse_manifest_entry bs pos =
    result_bind (need MfTruncated (length bs) pos ENTRY_LEN) (\<lambda>_.
    result_bind (manifest_entry_decode (subslice bs pos ENTRY_LEN)) (\<lambda>e.
      Inr (e, pos + ENTRY_LEN)))"

definition child_of :: "bytes \<Rightarrow> child_manifest" where
  "child_of chunk =
    \<lparr>cm_tree = from_bytes (subslice chunk 0 32), cm_manifest = from_bytes (subslice chunk 32 32),
     cm_storage = from_bytes (subslice chunk 64 32), cm_transport = from_bytes (subslice chunk 96 32)\<rparr>"

definition manifest_from_canonical_bytes :: "bytes \<Rightarrow> manifest_error + manifest" where
  "manifest_from_canonical_bytes bs =
    (let len = length bs; pos = 0 in
     result_bind (need MfTruncated len pos 32) (\<lambda>_.
     let snap = from_bytes (subslice bs pos 32); pos = pos + 32 in
     result_bind (need MfTruncated len pos 4) (\<lambda>_.
     let entry_count = read_count bs pos; pos = pos + 4 in
     result_bind (parse_many parse_manifest_entry bs entry_count pos) (\<lambda>(entries, pos).
     if \<not> entries_ascending entries \<and> length entries > 1 then Inl UnsortedEntries
     else
     result_bind (need MfTruncated len pos 4) (\<lambda>_.
     let child_count = read_count bs pos;
         pos = pos + 4;
         child_bytes = child_count * CHILD_LEN in
     result_bind (need MfTruncated len pos child_bytes) (\<lambda>_.
     let children = map child_of (chunks_exact CHILD_LEN (subslice bs pos child_bytes));
         pos = pos + child_bytes in
     if \<not> children_ascending children \<and> length children > 1 then Inl UnsortedChildren
     else if pos \<noteq> len then Inl MfTrailingBytes
     else Inr \<lparr>mf_snapshot = snap, mf_entries = entries, mf_children = children\<rparr>))))))"

section \<open>The codec laws\<close>

definition manifest_valid :: "manifest \<Rightarrow> bool" where
  "manifest_valid m \<longleftrightarrow>
     length (mf_entries m) \<le> U32_MAX \<and> length (mf_children m) \<le> U32_MAX
     \<and> entries_ascending (mf_entries m) \<and> children_ascending (mf_children m)"

lemma ascending_short:
  "\<not> 1 < length es \<Longrightarrow> entries_ascending es"
  "\<not> 1 < length cs \<Longrightarrow> children_ascending cs"
  by (cases es; cases "tl es"; simp add: entries_ascending_def)
    (cases cs; cases "tl cs"; simp add: children_ascending_def)

lemma check_sorted_iff:
  "check_sorted m = Inr u \<longleftrightarrow> entries_ascending (mf_entries m) \<and> children_ascending (mf_children m)"
  using ascending_short by (auto simp: check_sorted_def)

lemma length_manifest_entry_encode [simp]: "length (manifest_entry_encode e) = 114"
  by (simp add: manifest_entry_encode_def)

lemma manifest_entry_decode_encode [simp]:
  "manifest_entry_decode (manifest_entry_encode e) = Inr e"
  by (simp add: manifest_entry_decode_def manifest_entry_encode_def ENTRY_LEN_def nth_append
      wire_simps)

lemma manifest_entry_decode_sound:
  assumes "length bs = 114" "manifest_entry_decode bs = Inr e"
  shows "manifest_entry_encode e = bs"
proof -
  from assms(2) have kind: "kind_byte (me_kind e) = bs ! 32"
    and fields: "me_content_id e = from_bytes (subslice bs 0 32)" "me_version e = bs ! 33"
      "me_storage_id e = from_bytes (subslice bs 34 32)"
      "me_encryption_epoch e = u64_of (subslice bs 66 8)" "me_size e = u64_of (subslice bs 74 8)"
      "me_transport e = from_bytes (subslice bs 82 32)"
    by (auto simp: manifest_entry_decode_def result_simps kind_from_byte_Some split: if_splits)
  show ?thesis
    using assms(1)
    by (simp add: manifest_entry_encode_def kind fields as_from_bytes bytes_of_field length_slice
        slice_join slice_cons_join slice_whole)
qed

interpretation manifest_entry_item:
  wire_item manifest_entry_encode parse_manifest_entry "\<lambda>_. True"
proof (unfold_locales, goal_cases)
  case (1 x pre pos post)
  then show ?case
    by (simp add: parse_manifest_entry_def ENTRY_LEN_def need_def wire_simps)
next
  case (2 payload pos x pos')
  then have len: "pos + 114 \<le> length payload" and pos': "pos' = pos + 114"
    and dec: "manifest_entry_decode (subslice payload pos 114) = Inr x"
    by (auto simp: parse_manifest_entry_def ENTRY_LEN_def result_simps)
  from len have "length (subslice payload pos 114) = 114" by (rule length_slice)
  with dec have "manifest_entry_encode x = subslice payload pos 114"
    by (rule manifest_entry_decode_sound [rotated])
  with len pos' show ?case by (simp add: length_slice)
qed

lemma length_child_bytes [simp]: "length (child_bytes c) = 128"
  by (simp add: child_bytes_def)

lemma child_of_child_bytes [simp]: "child_of (child_bytes c) = c"
  by (simp add: child_of_def child_bytes_def wire_simps)

lemma child_bytes_child_of: "length bs = 128 \<Longrightarrow> child_bytes (child_of bs) = bs"
  by (simp add: child_of_def child_bytes_def as_from_bytes length_slice slice_join slice_whole)

lemma length_children_bytes [simp]: "length (concat (map child_bytes cs)) = length cs * 128"
  by (induction cs) simp_all

lemma children_of_bytes:
  "map child_of (chunks_exact 128 (concat (map child_bytes cs))) = cs"
proof -
  have "chunks_exact 128 (concat (map child_bytes cs)) = map child_bytes cs"
    by (rule chunks_exact_concat) auto
  then show ?thesis by (simp add: comp_def)
qed

lemma children_bytes_of:
  assumes "length bs = n * 128"
  shows "concat (map child_bytes (map child_of (chunks_exact 128 bs))) = bs"
proof -
  have "map (child_bytes \<circ> child_of) (chunks_exact 128 bs) = chunks_exact 128 bs"
    by (rule map_idI) (simp add: child_bytes_child_of chunks_exact_lengths)
  then show ?thesis using concat_chunks_exact [OF assms] by simp
qed

lemma manifest_decode_encode:
  assumes "manifest_valid m"
  shows "manifest_from_canonical_bytes (manifest_canonical_bytes m) = Inr m"
proof -
  let ?es = "concat (map manifest_entry_encode (mf_entries m))"
  let ?cs = "concat (map child_bytes (mf_children m))"
  let ?en = "u32_le (length (mf_entries m))" and ?cn = "u32_le (length (mf_children m))"
  define bs where "bs = as_bytes (mf_snapshot m) @ ?en @ ?es @ ?cn @ ?cs"
  define p where "p = 36 + length ?es"
  have valid: "length (mf_entries m) \<le> U32_MAX" "length (mf_children m) \<le> U32_MAX"
    "entries_ascending (mf_entries m)" "children_ascending (mf_children m)"
    using assms by (auto simp: manifest_valid_def)
  have counts: "read_count bs 32 = length (mf_entries m)" "read_count bs p = length (mf_children m)"
    using valid by (simp_all add: bs_def p_def wire_simps count_simps)
  have entries: "parse_many parse_manifest_entry bs (length (mf_entries m)) 36 = Inr (mf_entries m, p)"
    using manifest_entry_item.parse_many_enc
      [where xs = "mf_entries m" and pre = "as_bytes (mf_snapshot m) @ ?en" and pos = 36
        and post = "?cn @ ?cs"] valid
    by (simp add: bs_def p_def length_u32_le)
  have len: "length bs = p + 4 + length (mf_children m) * 128"
    using valid by (simp add: bs_def p_def length_u32_le)
  have kids: "subslice bs (p + 4) (length (mf_children m) * 128) = ?cs"
    "from_bytes (subslice bs 0 32) = mf_snapshot m"
    using valid by (simp_all add: bs_def p_def wire_simps length_u32_le)
  have "36 \<le> p" by (simp add: p_def)
  moreover have "manifest_canonical_bytes m = bs"
    by (simp add: manifest_canonical_bytes_def bs_def)
  ultimately show ?thesis
    using counts entries kids valid
    by (simp add: manifest_from_canonical_bytes_def Let_def need_def len CHILD_LEN_def
        children_of_bytes)
qed

lemma manifest_decode_sound:
  assumes "manifest_from_canonical_bytes bs = Inr m"
  shows "manifest_valid m \<and> manifest_canonical_bytes m = bs"
proof -
  from assms obtain p where
    len36: "36 \<le> length bs" and
    entries: "parse_many parse_manifest_entry bs (read_count bs 32) 36 = Inr (mf_entries m, p)" and
    asc: "entries_ascending (mf_entries m)" "children_ascending (mf_children m)" and
    len: "4 + (p + read_count bs p * 128) = length bs" and
    snap: "mf_snapshot m = from_bytes (subslice bs 0 32)" and
    kids: "mf_children m = map child_of (chunks_exact 128 (subslice bs (p + 4) (read_count bs p * 128)))"
    using ascending_short
    by (auto simp: manifest_from_canonical_bytes_def Let_def result_simps CHILD_LEN_def
        split: if_splits)
  let ?es = "concat (map manifest_entry_encode (mf_entries m))"
  have es: "length (mf_entries m) = read_count bs 32" "p = 36 + length ?es"
    "subslice bs 36 (length ?es) = ?es"
    using manifest_entry_item.parse_many_sound [OF entries len36] by blast+
  have blk: "length (subslice bs (p + 4) (read_count bs p * 128)) = read_count bs p * 128"
    using len by (intro length_slice) simp
  have cs: "length (mf_children m) = read_count bs p"
    "concat (map child_bytes (mf_children m)) = subslice bs (p + 4) (read_count bs p * 128)"
    using length_chunks_exact [OF _ blk] children_bytes_of [OF blk] by (simp_all add: kids)
  have "manifest_canonical_bytes m = subslice bs 0 32 @ subslice bs 32 4 @ subslice bs 36 (p - 36)
      @ subslice bs p 4 @ subslice bs (p + 4) (read_count bs p * 128)"
    using len len36 es cs
    by (simp add: manifest_canonical_bytes_def snap as_from_bytes length_slice u32_le_read_count)
  also have "\<dots> = subslice bs 0 (length bs)"
    using es(2) by (simp add: slice_join flip: len)
  finally show ?thesis
    using asc es cs read_count_bound [of bs 32] read_count_bound [of bs p]
    by (simp add: slice_all manifest_valid_def)
qed

interpretation manifest_codec:
  canonical_codec manifest_canonical_bytes manifest_from_canonical_bytes manifest_valid
  by unfold_locales (simp_all add: manifest_decode_encode manifest_decode_sound)

section \<open>The constructors establish the canonical form\<close>

lemma manifest_new_Inr:
  "manifest_new snap es cs = Inr m \<Longrightarrow>
   manifest_valid m \<and> mf_snapshot m = snap \<and> mset (mf_entries m) = mset es
   \<and> mset (mf_children m) = mset cs"
  by (auto simp: manifest_new_def Let_def result_simps check_sorted_iff manifest_valid_def
      split: if_splits)

lemma strict_sorted_keys:
  "distinct (map f xs) \<Longrightarrow> successively (\<lambda>a b. f a < f b) (sort_key f xs)"
proof -
  assume "distinct (map f xs)"
  then have "distinct (map f (sort_key f xs))"
    by (simp add: distinct_map inj_on_def)
  with sorted_sort_key [of f xs] have "sorted_wrt (<) (map f (sort_key f xs))"
    by (simp add: strict_sorted_iff)
  then show ?thesis
    by (simp add: sorted_wrt_map successively_if_sorted_wrt)
qed

lemma manifest_new_complete:
  assumes "length es \<le> U32_MAX" "length cs \<le> U32_MAX"
    "distinct (map entry_sort_key es)" "distinct (map cm_tree cs)"
  shows "manifest_new snap es cs = Inr \<lparr>mf_snapshot = snap, mf_entries = sort_key entry_sort_key es,
    mf_children = sort_key (\<lambda>c. as_bytes (cm_tree c)) cs\<rparr>"
proof -
  have "distinct (map (\<lambda>c. as_bytes (cm_tree c)) cs)"
    using assms(4) by (auto simp: distinct_map inj_on_def)
  with assms show ?thesis
    by (auto simp: manifest_new_def Let_def check_sorted_def entries_ascending_def
        children_ascending_def strict_sorted_keys)
qed

lemma sorted_map_values:
  assumes "\<And>k v. fmlookup m k = Some v \<Longrightarrow> k = f v"
  shows "successively (\<lambda>a b. f a < f b) (map snd (sorted_list_of_fmap m))"
proof -
  let ?ks = "sorted_list_of_fset (fmdom m)"
  have keys: "set ?ks = fset (fmdom m)" and "sorted ?ks" "distinct ?ks"
    by (simp_all add: sorted_list_of_fset.rep_eq)
  then have "sorted_wrt (<) ?ks" by (simp add: strict_sorted_iff)
  moreover have "f (the (fmlookup m k)) = k" if "k \<in> set ?ks" for k
    using that assms by (auto simp: keys fmlookup_dom_iff)
  ultimately have "sorted_wrt (\<lambda>a b. f (the (fmlookup m a)) < f (the (fmlookup m b))) ?ks"
    by (auto elim!: sorted_wrt_mono_rel [rotated])
  then show ?thesis
    by (simp add: sorted_list_of_fmap_def successively_if_sorted_wrt sorted_wrt_map comp_def)
qed

lemma entry_sort_key_less: "me_content_id a < me_content_id b \<Longrightarrow> entry_sort_key a < entry_sort_key b"
  by (simp add: entry_sort_key_def as_bytes_less)

lemma manifest_from_sorted_valid:
  assumes "manifest_from_sorted snap es cs = Inr m"
  shows "manifest_valid m"
proof -
  from assms have keys: "fmlookup es k = Some e \<Longrightarrow> k = me_content_id e"
      "fmlookup cs k = Some c \<Longrightarrow> k = cm_tree c" for k e c
    by (auto simp: manifest_from_sorted_def Let_def fmpred_iff split: if_splits)
  have "entries_ascending (map snd (sorted_list_of_fmap es))"
    using sorted_map_values [of es me_content_id, OF keys(1)] unfolding entries_ascending_def
    by (rule successively_mono) (simp_all add: entry_sort_key_less)
  moreover have "children_ascending (map snd (sorted_list_of_fmap cs))"
    using sorted_map_values [of cs cm_tree, OF keys(2)] unfolding children_ascending_def
    by (rule successively_mono) (simp_all add: as_bytes_less)
  ultimately show ?thesis
    using assms by (auto simp: manifest_from_sorted_def Let_def manifest_valid_def split: if_splits)
qed

section \<open>Properties\<close>

text \<open>
  C40. Manifests have one byte form: bytes decode to a manifest exactly when its
  counts fit the wire, its entries and children are strictly ascending, and the
  bytes are its canonical encoding.
\<close>

theorem manifest_canonical:
  "manifest_from_canonical_bytes bs = Inr m \<longleftrightarrow> manifest_valid m \<and> bs = manifest_canonical_bytes m"
  by (rule manifest_codec.decode_iff)

end
