(* ===== verification/Wyrd_Runtime.thy ===== *)
theory Wyrd_Runtime
  imports Wyrd_Control Wyrd_Manifest Wyrd_Drive
begin

text \<open>
  The runtime state of a device (\<open>crates/wyrd-sync/src/runtime/mod.rs\<close>, \<open>state.rs\<close> and
  \<open>state/{records,announcements,transitions,capabilities,carries,materialization}.rs\<close>): what has been
  announced and recorded, what is held locally, and the three delivery outboxes.  A \<open>BTreeSet\<close> is a
  finite set and a \<open>BTreeMap\<close> a finite map, both iterated in ascending order.
\<close>

section \<open>State\<close>

datatype materialization_state = MRemoteOnly | MCached | MPinned

record manifest_record =
  mr_is_root :: bool
  mr_manifest_id :: content_id
  mr_representations :: "(storage_id, bao_root) fmap"
  mr_transport :: bao_root
  mr_manifest :: manifest

definition transport_is_represented :: "manifest_record \<Rightarrow> bool" where
  "transport_is_represented r \<longleftrightarrow>
    mr_representations r = fmempty \<or> mr_transport r |\<in>| fmran (mr_representations r)"

definition WITHDRAWN_ROUTE :: array32 where
  "WITHDRAWN_ROUTE = 0"

record runtime_state =
  rt_drive :: drive_id
  rt_seen_control_messages :: "array32 fset"
  rt_announcements :: "(snapshot_id, announcement) fmap"
  rt_snapshot_bodies :: "(snapshot_id, snapshot) fmap"
  rt_manifests :: "(content_id, manifest_record) fmap"
  rt_root_manifests_by_snapshot :: "(snapshot_id, content_id fset) fmap"
  rt_child_parent_by_manifest :: "(content_id, snapshot_id) fmap"
  rt_local_objects :: "content_id fset"
  rt_materialization :: "(content_id, materialization_state) fmap"
  rt_announcement_queued :: "(snapshot_id \<times> device_id) fset"
  rt_announcement_sealed :: "(snapshot_id, bytes) fmap"
  rt_announcement_delivered :: "(snapshot_id \<times> device_id) fset"
  rt_announcement_delivered_route :: "(snapshot_id \<times> device_id, array32) fmap"
  rt_announcement_reconciled :: "(snapshot_id \<times> device_id \<times> array32) fset"
  rt_announcement_reconciled_pairs :: "(snapshot_id \<times> device_id) fset"
  rt_announcement_route_sealed :: "(snapshot_id \<times> bytes, bytes) fmap"
  rt_transition_queued :: "(transition_id \<times> device_id) fset"
  rt_transition_sealed :: "(transition_id, bytes) fmap"
  rt_transition_delivered :: "(transition_id \<times> device_id) fset"
  rt_transition_reconciled :: "(transition_id \<times> device_id \<times> array32) fset"
  rt_transition_reconciled_pairs :: "(transition_id \<times> device_id) fset"
  rt_capability_queued :: "(u64 \<times> device_id) fset"
  rt_capability_sealed :: "(u64 \<times> device_id, bytes) fmap"
  rt_capability_delivered :: "(u64 \<times> device_id) fset"
  rt_capability_reconciled :: "(u64 \<times> device_id \<times> array32) fset"
  rt_capability_reconciled_pairs :: "(u64 \<times> device_id) fset"
  rt_carry_queued :: "snapshot_id fset"
  rt_carry_done :: "snapshot_id fset"

datatype runtime_error =
    ConflictingAnnouncement snapshot_id
  | AnnouncementBodyMismatch snapshot_id
  | ConflictingManifest content_id
  | ConflictingChildParent content_id
  | ManifestIdentityMismatch content_id content_id
  | TransportNotRepresented content_id

definition runtime_new :: "drive_id \<Rightarrow> runtime_state" where
  "runtime_new drive =
    \<lparr>rt_drive = drive, rt_seen_control_messages = {||}, rt_announcements = fmempty, rt_snapshot_bodies = fmempty,
     rt_manifests = fmempty, rt_root_manifests_by_snapshot = fmempty, rt_child_parent_by_manifest = fmempty,
     rt_local_objects = {||}, rt_materialization = fmempty, rt_announcement_queued = {||},
     rt_announcement_sealed = fmempty, rt_announcement_delivered = {||}, rt_announcement_delivered_route = fmempty,
     rt_announcement_reconciled = {||}, rt_announcement_reconciled_pairs = {||}, rt_announcement_route_sealed = fmempty,
     rt_transition_queued = {||}, rt_transition_sealed = fmempty, rt_transition_delivered = {||},
     rt_transition_reconciled = {||}, rt_transition_reconciled_pairs = {||}, rt_capability_queued = {||},
     rt_capability_sealed = fmempty, rt_capability_delivered = {||}, rt_capability_reconciled = {||},
     rt_capability_reconciled_pairs = {||}, rt_carry_queued = {||}, rt_carry_done = {||}\<rparr>"

section \<open>Records\<close>

text \<open>An operation that returns a flag and updates the state, and one that may also fail.\<close>

type_synonym 'a update = "runtime_state \<Rightarrow> 'a \<times> runtime_state"

definition remember_control_message :: "array32 \<Rightarrow> bool update" where
  "remember_control_message i st =
    (i |\<notin>| rt_seen_control_messages st, st\<lparr>rt_seen_control_messages := finsert i (rt_seen_control_messages st)\<rparr>)"

definition body_agrees :: "announcement \<Rightarrow> snapshot \<Rightarrow> bool" where
  "body_agrees a body \<longleftrightarrow>
    ann_author a = sn_author body \<and> ann_epoch a = sn_epoch body \<and> ann_membership a = sn_membership body"

definition insert_announcement :: "announcement \<Rightarrow> (runtime_error + bool) update" where
  "insert_announcement a st =
    (let i = ann_snapshot a; inserted = st\<lparr>rt_announcements := fmupd i a (rt_announcements st)\<rparr> in
     case fmlookup (rt_announcements st) i of
       None \<Rightarrow> (Inr True, inserted)
     | Some existing \<Rightarrow>
         (case check_update existing a of
            Same \<Rightarrow> (Inr False, st)
          | RouteUpdate \<Rightarrow> (Inr True, inserted)
          | Fork \<Rightarrow> (Inl (ConflictingAnnouncement i), st)))"

definition record_announcement :: "announcement \<Rightarrow> (runtime_error + bool) update" where
  "record_announcement a st =
    (case fmlookup (rt_snapshot_bodies st) (ann_snapshot a) of
       Some body \<Rightarrow>
         if \<not> body_agrees a body then (Inl (AnnouncementBodyMismatch (ann_snapshot a)), st)
         else insert_announcement a st
     | None \<Rightarrow> insert_announcement a st)"

definition merge_manifest :: "manifest_record \<Rightarrow> manifest_record \<Rightarrow> (runtime_error + bool) update" where
  "merge_manifest existing r st =
    (let i = mr_manifest_id r;
         completes_empty = (mr_representations existing = fmempty \<and> mr_representations r \<noteq> fmempty) in
     if mr_manifest existing \<noteq> mr_manifest r \<or> mr_is_root existing \<noteq> mr_is_root r
     then (Inl (ConflictingManifest i), st)
     else if \<not> fmpred (\<lambda>storage transport. case fmlookup (mr_representations existing) storage of
         Some held \<Rightarrow> held = transport | None \<Rightarrow> True) (mr_representations r)
     then (Inl (ConflictingManifest i), st)
     else if completes_empty \<and> \<not> transport_is_represented r then (Inl (TransportNotRepresented i), st)
     else
       let existing = existing\<lparr>mr_representations := fmadd (mr_representations existing) (mr_representations r)\<rparr>;
           existing = (if completes_empty then existing\<lparr>mr_transport := mr_transport r\<rparr> else existing) in
       (Inr False, st\<lparr>rt_manifests := fmupd i existing (rt_manifests st)\<rparr>))"

definition insert_manifest :: "manifest_record \<Rightarrow> (runtime_error + bool) update" where
  "insert_manifest r st =
    (let i = mr_manifest_id r; snap = mf_snapshot (mr_manifest r); children = mf_children (mr_manifest r) in
     if \<not> transport_is_represented r then (Inl (TransportNotRepresented i), st)
     else (case List.find (\<lambda>child. case fmlookup (rt_child_parent_by_manifest st) (cm_manifest child) of
                 Some existing \<Rightarrow> existing \<noteq> snap | None \<Rightarrow> False) children of
         Some child \<Rightarrow> (Inl (ConflictingChildParent (cm_manifest child)), st)
       | None \<Rightarrow>
           (let roots = rt_root_manifests_by_snapshot st;
                held = (case fmlookup roots snap of Some ids \<Rightarrow> ids | None \<Rightarrow> {||}) in
            (Inr True, st\<lparr>rt_manifests := fmupd i r (rt_manifests st),
               rt_root_manifests_by_snapshot := (if mr_is_root r then fmupd snap (finsert i held) roots else roots),
               rt_child_parent_by_manifest :=
                 fold (\<lambda>child. fmupd (cm_manifest child) snap) children (rt_child_parent_by_manifest st)\<rparr>))))"

definition record_manifest :: "kdf \<Rightarrow> manifest_record \<Rightarrow> (runtime_error + bool) update" where
  "record_manifest dk r st =
    (let i = mr_manifest_id r; derived = content_derive dk Manifest (manifest_canonical_bytes (mr_manifest r)) in
     if i \<noteq> derived then (Inl (ManifestIdentityMismatch i derived), st)
     else (case fmlookup (rt_manifests st) i of
         Some existing \<Rightarrow> merge_manifest existing r st
       | None \<Rightarrow> insert_manifest r st))"

definition recorded_announcement_epochs :: "runtime_state \<Rightarrow> (snapshot_id \<times> u64) list" where
  "recorded_announcement_epochs st = map (\<lambda>(i, a). (i, ann_epoch a)) (sorted_list_of_fmap (rt_announcements st))"

definition manifest_record_of :: "runtime_state \<Rightarrow> content_id \<Rightarrow> manifest_record option" where
  "manifest_record_of st i = fmlookup (rt_manifests st) i"

definition recorded_snapshots :: "runtime_state \<Rightarrow> snapshot_id list" where
  "recorded_snapshots st =
    sorted_list_of_fset (fmdom (rt_announcements st) |\<union>| fmdom (rt_snapshot_bodies st)
      |\<union>| fmdom (rt_root_manifests_by_snapshot st))"

definition root_manifest_record :: "runtime_state \<Rightarrow> snapshot_id \<Rightarrow> manifest_record option" where
  "root_manifest_record st snap =
    Option.bind (fmlookup (rt_root_manifests_by_snapshot st) snap) (\<lambda>roots.
    let smallest = (case sorted_list_of_fset roots of [] \<Rightarrow> None | i # _ \<Rightarrow> Some i);
        chosen = (case fmlookup (rt_announcements st) snap of
            Some a \<Rightarrow> if ann_root_manifest a |\<in>| roots then Some (ann_root_manifest a) else smallest
          | None \<Rightarrow> smallest) in
    Option.bind chosen (manifest_record_of st))"

definition recorded_mappings :: "runtime_state \<Rightarrow> content_id \<Rightarrow> manifest_entry list" where
  "recorded_mappings st content =
    filter (\<lambda>e. me_content_id e = content)
      (concat (map (\<lambda>(_, r). mf_entries (mr_manifest r)) (sorted_list_of_fmap (rt_manifests st))))"

definition record_snapshot_body :: "kdf \<Rightarrow> snapshot \<Rightarrow> (runtime_error + bool) update" where
  "record_snapshot_body dk s st =
    (let i = snapshot_id_of dk s;
         inserted = (Inr (fmlookup (rt_snapshot_bodies st) i = None),
           st\<lparr>rt_snapshot_bodies := fmupd i s (rt_snapshot_bodies st)\<rparr>) in
     case fmlookup (rt_announcements st) i of
       Some a \<Rightarrow> if \<not> body_agrees a s then (Inl (AnnouncementBodyMismatch i), st) else inserted
     | None \<Rightarrow> inserted)"

definition manifest_parent_snapshot :: "runtime_state \<Rightarrow> content_id \<Rightarrow> snapshot_id option" where
  "manifest_parent_snapshot st child = fmlookup (rt_child_parent_by_manifest st) child"

section \<open>The announcement outbox\<close>

definition record_announcement_queued :: "snapshot_id \<Rightarrow> device_id \<Rightarrow> bool update" where
  "record_announcement_queued snap recipient st =
    ((snap, recipient) |\<notin>| rt_announcement_queued st,
     st\<lparr>rt_announcement_queued := finsert (snap, recipient) (rt_announcement_queued st)\<rparr>)"

definition record_announcement_sealed :: "snapshot_id \<Rightarrow> bytes \<Rightarrow> bool update" where
  "record_announcement_sealed snap sealed st =
    (if fmlookup (rt_announcement_sealed st) snap \<noteq> None then (False, st)
     else (True, st\<lparr>rt_announcement_sealed := fmupd snap sealed (rt_announcement_sealed st)\<rparr>))"

definition record_announcement_route_sealed :: "snapshot_id \<Rightarrow> bytes \<Rightarrow> bytes \<Rightarrow> bool update" where
  "record_announcement_route_sealed snap route sealed st =
    (if fmlookup (rt_announcement_route_sealed st) (snap, route) \<noteq> None then (False, st)
     else (True, st\<lparr>rt_announcement_route_sealed := fmupd (snap, route) sealed (rt_announcement_route_sealed st)\<rparr>))"

definition record_announcement_delivered :: "snapshot_id \<Rightarrow> device_id \<Rightarrow> bool update" where
  "record_announcement_delivered snap recipient st =
    ((snap, recipient) |\<notin>| rt_announcement_delivered st,
     st\<lparr>rt_announcement_delivered := finsert (snap, recipient) (rt_announcement_delivered st)\<rparr>)"

definition record_announcement_delivered_route :: "snapshot_id \<Rightarrow> device_id \<Rightarrow> array32 \<Rightarrow> unit update" where
  "record_announcement_delivered_route snap recipient endpoint st =
    ((), st\<lparr>rt_announcement_delivered_route := fmupd (snap, recipient) endpoint (rt_announcement_delivered_route st)\<rparr>)"

definition record_announcement_reconciled :: "snapshot_id \<Rightarrow> device_id \<Rightarrow> array32 \<Rightarrow> bool update" where
  "record_announcement_reconciled snap recipient statement st =
    (if (snap, recipient) |\<in>| rt_announcement_reconciled_pairs st then (False, st)
     else ((snap, recipient, statement) |\<notin>| rt_announcement_reconciled st,
       st\<lparr>rt_announcement_reconciled_pairs := finsert (snap, recipient) (rt_announcement_reconciled_pairs st),
          rt_announcement_reconciled := finsert (snap, recipient, statement) (rt_announcement_reconciled st)\<rparr>))"

definition pending_announcements :: "runtime_state \<Rightarrow> (snapshot_id \<times> device_id) list" where
  "pending_announcements st =
    filter (\<lambda>pair. pair |\<notin>| rt_announcement_delivered st \<and> pair |\<notin>| rt_announcement_reconciled_pairs st)
      (sorted_list_of_fset (rt_announcement_queued st))"

definition announcement_covered :: "runtime_state \<Rightarrow> snapshot_id \<Rightarrow> device_id \<Rightarrow> bool" where
  "announcement_covered st snap recipient \<longleftrightarrow>
    (snap, recipient) |\<in>| rt_announcement_queued st \<or> (snap, recipient) |\<in>| rt_announcement_delivered st
    \<or> (snap, recipient) |\<in>| rt_announcement_reconciled_pairs st"

definition announce_eligible_for ::
  "runtime_state \<Rightarrow> array32 option \<Rightarrow> snapshot_id fset \<Rightarrow> (snapshot_id \<times> device_id) list" where
  "announce_eligible_for st route scope =
    (let eligible = filter (\<lambda>pair. pair |\<notin>| rt_announcement_delivered st) (sorted_list_of_fset (rt_announcement_queued st));
         delivered = sorted_list_of_fset (rt_announcement_delivered st) in
     case route of
       Some live \<Rightarrow>
         sort (eligible @ filter (\<lambda>pair. fst pair |\<in>| scope
           \<and> fmlookup (rt_announcement_delivered_route st) pair \<noteq> Some live) delivered)
     | None \<Rightarrow>
         sort (eligible @ filter (\<lambda>pair. fst pair |\<in>| scope
           \<and> (case fmlookup (rt_announcement_delivered_route st) pair of
                Some recorded \<Rightarrow> recorded \<noteq> WITHDRAWN_ROUTE | None \<Rightarrow> False)) delivered))"

definition still_routed :: "runtime_state \<Rightarrow> snapshot_id \<Rightarrow> bool" where
  "still_routed st snap \<longleftrightarrow>
    list_ex (\<lambda>(i, recipient). i = snap
      \<and> (case fmlookup (rt_announcement_delivered_route st) (i, recipient) of
           Some recorded \<Rightarrow> recorded \<noteq> WITHDRAWN_ROUTE | None \<Rightarrow> False))
      (sorted_list_of_fset (rt_announcement_queued st))"

definition route_withdrawal_outstanding :: "runtime_state \<Rightarrow> device_id \<Rightarrow> snapshot_id fset \<Rightarrow> nat" where
  "route_withdrawal_outstanding st device scope =
    (let snapshots = remdups_adj (sort (filter (\<lambda>snap. snap |\<in>| scope)
           (map fst (sorted_list_of_fset (rt_announcement_queued st))))) in
     length (filter (\<lambda>snap.
       case fmlookup (rt_snapshot_bodies st) snap of
         None \<Rightarrow> False
       | Some body \<Rightarrow> sn_author body = device \<and> still_routed st snap) snapshots))"

section \<open>The transition and capability outboxes and the carry queue\<close>

definition record_transition_queued :: "transition_id \<Rightarrow> device_id \<Rightarrow> bool update" where
  "record_transition_queued i recipient st =
    ((i, recipient) |\<notin>| rt_transition_queued st,
     st\<lparr>rt_transition_queued := finsert (i, recipient) (rt_transition_queued st)\<rparr>)"

definition record_transition_sealed :: "transition_id \<Rightarrow> bytes \<Rightarrow> bool update" where
  "record_transition_sealed i sealed st =
    (if fmlookup (rt_transition_sealed st) i \<noteq> None then (False, st)
     else (True, st\<lparr>rt_transition_sealed := fmupd i sealed (rt_transition_sealed st)\<rparr>))"

definition record_transition_delivered :: "transition_id \<Rightarrow> device_id \<Rightarrow> bool update" where
  "record_transition_delivered i recipient st =
    ((i, recipient) |\<notin>| rt_transition_delivered st,
     st\<lparr>rt_transition_delivered := finsert (i, recipient) (rt_transition_delivered st)\<rparr>)"

definition record_transition_reconciled :: "transition_id \<Rightarrow> device_id \<Rightarrow> array32 \<Rightarrow> bool update" where
  "record_transition_reconciled i recipient statement st =
    (if (i, recipient) |\<in>| rt_transition_reconciled_pairs st then (False, st)
     else ((i, recipient, statement) |\<notin>| rt_transition_reconciled st,
       st\<lparr>rt_transition_reconciled_pairs := finsert (i, recipient) (rt_transition_reconciled_pairs st),
          rt_transition_reconciled := finsert (i, recipient, statement) (rt_transition_reconciled st)\<rparr>))"

definition pending_transitions :: "runtime_state \<Rightarrow> (transition_id \<times> device_id) list" where
  "pending_transitions st =
    filter (\<lambda>pair. pair |\<notin>| rt_transition_delivered st \<and> pair |\<notin>| rt_transition_reconciled_pairs st)
      (sorted_list_of_fset (rt_transition_queued st))"

definition transition_covered :: "runtime_state \<Rightarrow> transition_id \<Rightarrow> device_id \<Rightarrow> bool" where
  "transition_covered st i recipient \<longleftrightarrow>
    (i, recipient) |\<in>| rt_transition_queued st \<or> (i, recipient) |\<in>| rt_transition_delivered st
    \<or> (i, recipient) |\<in>| rt_transition_reconciled_pairs st"

definition record_capability_queued :: "u64 \<Rightarrow> device_id \<Rightarrow> bool update" where
  "record_capability_queued epoch recipient st =
    ((epoch, recipient) |\<notin>| rt_capability_queued st,
     st\<lparr>rt_capability_queued := finsert (epoch, recipient) (rt_capability_queued st)\<rparr>)"

definition record_capability_sealed :: "u64 \<Rightarrow> device_id \<Rightarrow> bytes \<Rightarrow> bool update" where
  "record_capability_sealed epoch recipient sealed st =
    (if fmlookup (rt_capability_sealed st) (epoch, recipient) \<noteq> None then (False, st)
     else (True, st\<lparr>rt_capability_sealed := fmupd (epoch, recipient) sealed (rt_capability_sealed st)\<rparr>))"

definition SUPERSEDE_ID_CONTEXT :: string where
  "SUPERSEDE_ID_CONTEXT = ''wyrd capability supersede id v1''"

definition sealed_capability_fact_id :: "kdf \<Rightarrow> u64 \<Rightarrow> device_id \<Rightarrow> bytes \<Rightarrow> array32" where
  "sealed_capability_fact_id dk epoch recipient sealed =
    dk SUPERSEDE_ID_CONTEXT (ascii SUPERSEDE_ID_CONTEXT @ u64_bytes epoch @ as_bytes recipient @ sealed)"

definition record_capability_replaced :: "kdf \<Rightarrow> u64 \<Rightarrow> device_id \<Rightarrow> array32 \<Rightarrow> bytes \<Rightarrow> unit update" where
  "record_capability_replaced dk epoch recipient supersedes replacement st =
    (case fmlookup (rt_capability_sealed st) (epoch, recipient) of
       None \<Rightarrow> ((), st)
     | Some current \<Rightarrow>
         if sealed_capability_fact_id dk epoch recipient current \<noteq> supersedes then ((), st)
         else ((), st\<lparr>rt_capability_sealed := fmupd (epoch, recipient) replacement (rt_capability_sealed st)\<rparr>))"

definition record_capability_delivered :: "u64 \<Rightarrow> device_id \<Rightarrow> bool update" where
  "record_capability_delivered epoch recipient st =
    ((epoch, recipient) |\<notin>| rt_capability_delivered st,
     st\<lparr>rt_capability_delivered := finsert (epoch, recipient) (rt_capability_delivered st)\<rparr>)"

definition record_capability_reconciled :: "u64 \<Rightarrow> device_id \<Rightarrow> array32 \<Rightarrow> bool update" where
  "record_capability_reconciled epoch recipient statement st =
    (if (epoch, recipient) |\<in>| rt_capability_reconciled_pairs st then (False, st)
     else ((epoch, recipient, statement) |\<notin>| rt_capability_reconciled st,
       st\<lparr>rt_capability_reconciled_pairs := finsert (epoch, recipient) (rt_capability_reconciled_pairs st),
          rt_capability_reconciled := finsert (epoch, recipient, statement) (rt_capability_reconciled st)\<rparr>))"

definition pending_capabilities :: "runtime_state \<Rightarrow> (u64 \<times> device_id) list" where
  "pending_capabilities st =
    filter (\<lambda>pair. pair |\<notin>| rt_capability_delivered st \<and> pair |\<notin>| rt_capability_reconciled_pairs st)
      (sorted_list_of_fset (rt_capability_queued st))"

definition capability_covered :: "runtime_state \<Rightarrow> u64 \<Rightarrow> device_id \<Rightarrow> bool" where
  "capability_covered st epoch recipient \<longleftrightarrow>
    (epoch, recipient) |\<in>| rt_capability_queued st \<or> (epoch, recipient) |\<in>| rt_capability_delivered st
    \<or> (epoch, recipient) |\<in>| rt_capability_reconciled_pairs st"

definition record_carry_queued :: "snapshot_id \<Rightarrow> bool update" where
  "record_carry_queued head st =
    (head |\<notin>| rt_carry_queued st, st\<lparr>rt_carry_queued := finsert head (rt_carry_queued st)\<rparr>)"

definition record_carry_done :: "snapshot_id \<Rightarrow> bool update" where
  "record_carry_done head st = (head |\<notin>| rt_carry_done st, st\<lparr>rt_carry_done := finsert head (rt_carry_done st)\<rparr>)"

definition pending_carries :: "runtime_state \<Rightarrow> snapshot_id list" where
  "pending_carries st = filter (\<lambda>head. head |\<notin>| rt_carry_done st) (sorted_list_of_fset (rt_carry_queued st))"

definition carry_covered :: "runtime_state \<Rightarrow> snapshot_id \<Rightarrow> bool" where
  "carry_covered st head \<longleftrightarrow> head |\<in>| rt_carry_queued st \<or> head |\<in>| rt_carry_done st"

section \<open>Counts\<close>

record outbox_totals =
  ot_announcements_queued :: nat
  ot_announcements_delivered :: nat
  ot_transitions_queued :: nat
  ot_transitions_delivered :: nat
  ot_capabilities_queued :: nat
  ot_capabilities_delivered :: nat

definition outbox_totals_of :: "runtime_state \<Rightarrow> outbox_totals" where
  "outbox_totals_of st =
    \<lparr>ot_announcements_queued = fcard (rt_announcement_queued st),
     ot_announcements_delivered = fcard (rt_announcement_delivered st),
     ot_transitions_queued = fcard (rt_transition_queued st),
     ot_transitions_delivered = fcard (rt_transition_delivered st),
     ot_capabilities_queued = fcard (rt_capability_queued st),
     ot_capabilities_delivered = fcard (rt_capability_delivered st)\<rparr>"

definition reconciled_counts :: "runtime_state \<Rightarrow> nat \<times> nat \<times> nat" where
  "reconciled_counts st =
    (fcard (rt_transition_reconciled_pairs st), fcard (rt_capability_reconciled_pairs st),
     fcard (rt_announcement_reconciled_pairs st))"

definition has_outstanding_for :: "runtime_state \<Rightarrow> device_id \<Rightarrow> bool" where
  "has_outstanding_for st recipient \<longleftrightarrow>
    list_ex (\<lambda>pair. snd pair = recipient \<and> pair |\<notin>| rt_transition_delivered st
      \<and> pair |\<notin>| rt_transition_reconciled_pairs st) (sorted_list_of_fset (rt_transition_queued st))
    \<or> list_ex (\<lambda>pair. snd pair = recipient \<and> pair |\<notin>| rt_capability_delivered st
      \<and> pair |\<notin>| rt_capability_reconciled_pairs st) (sorted_list_of_fset (rt_capability_queued st))
    \<or> list_ex (\<lambda>pair. snd pair = recipient \<and> pair |\<notin>| rt_announcement_delivered st
      \<and> pair |\<notin>| rt_announcement_reconciled_pairs st) (sorted_list_of_fset (rt_announcement_queued st))"

definition pending_obligation_counts :: "runtime_state \<Rightarrow> nat \<times> nat \<times> nat" where
  "pending_obligation_counts st =
    (fcard (ffilter (\<lambda>pair. pair |\<notin>| rt_announcement_delivered st \<and> pair |\<notin>| rt_announcement_reconciled_pairs st)
       (rt_announcement_queued st)),
     fcard (ffilter (\<lambda>pair. pair |\<notin>| rt_transition_delivered st \<and> pair |\<notin>| rt_transition_reconciled_pairs st)
       (rt_transition_queued st)),
     fcard (ffilter (\<lambda>pair. pair |\<notin>| rt_capability_delivered st \<and> pair |\<notin>| rt_capability_reconciled_pairs st)
       (rt_capability_queued st)))"

datatype durability_level = Working | Committed | Published

definition durability_level_of :: "runtime_state \<Rightarrow> durability_level" where
  "durability_level_of st =
    (if rt_snapshot_bodies st = fmempty then Working
     else if pending_announcements st = [] then Published else Committed)"

section \<open>Locality and the fetch plan\<close>

definition is_local :: "runtime_state \<Rightarrow> content_id \<Rightarrow> bool" where
  "is_local st i \<longleftrightarrow> i |\<in>| rt_local_objects st"

definition materialization_of :: "runtime_state \<Rightarrow> content_id \<Rightarrow> materialization_state" where
  "materialization_of st i = (case fmlookup (rt_materialization st) i of Some m \<Rightarrow> m | None \<Rightarrow> MRemoteOnly)"

record materialization_summary =
  ms_pinned :: nat
  ms_cached :: nat
  ms_local_objects :: nat

definition materialization_summary_of :: "runtime_state \<Rightarrow> materialization_summary" where
  "materialization_summary_of st =
    (let states = map snd (sorted_list_of_fmap (rt_materialization st)) in
     \<lparr>ms_pinned = length (filter (\<lambda>m. m = MPinned) states), ms_cached = length (filter (\<lambda>m. m = MCached) states),
      ms_local_objects = fcard (rt_local_objects st)\<rparr>)"

definition local_claims :: "runtime_state \<Rightarrow> content_id list" where
  "local_claims st = sorted_list_of_fset (rt_local_objects st)"

definition content_kind :: "runtime_state \<Rightarrow> content_id \<Rightarrow> object_kind option" where
  "content_kind st i =
    map_option me_kind (List.find (\<lambda>e. me_content_id e = i)
      (concat (map (\<lambda>(_, r). mf_entries (mr_manifest r)) (sorted_list_of_fmap (rt_manifests st)))))"

definition runtime_status :: "runtime_state \<Rightarrow> content_id \<Rightarrow> fetch_status" where
  "runtime_status st i =
    (if is_local st i then Available
     else (case materialization_of st i of MRemoteOnly \<Rightarrow> RemoteOnly | _ \<Rightarrow> Fetching))"

definition mark_local_object :: "content_id \<Rightarrow> bool update" where
  "mark_local_object i st =
    (i |\<notin>| rt_local_objects st, st\<lparr>rt_local_objects := finsert i (rt_local_objects st)\<rparr>)"

definition remove_local_object :: "content_id \<Rightarrow> bool update" where
  "remove_local_object i st = (i |\<in>| rt_local_objects st, st\<lparr>rt_local_objects := rt_local_objects st |-| {|i|}\<rparr>)"

definition runtime_set_materialization :: "content_id \<Rightarrow> materialization_state \<Rightarrow> materialization_state option update" where
  "runtime_set_materialization i m st =
    (fmlookup (rt_materialization st) i, st\<lparr>rt_materialization := fmupd i m (rt_materialization st)\<rparr>)"

record pending_object_fetch =
  pf_content_id :: content_id
  pf_storage_id :: storage_id
  pf_transport :: bao_root
  pf_kind :: object_kind
  pf_version :: u8
  pf_encryption_epoch :: u64
  pf_size :: u64

record runtime_reconcile =
  rc_pending_snapshots :: "snapshot_id fset"
  rc_pending_snapshot_bodies :: "snapshot_id fset"
  rc_pending_manifests :: "(content_id, child_manifest) fmap"
  rc_pending_objects :: "(content_id, pending_object_fetch list) fmap"

definition plan_child ::
  "runtime_state \<Rightarrow> child_manifest \<Rightarrow> (content_id, child_manifest) fmap \<Rightarrow> (content_id, child_manifest) fmap" where
  "plan_child st child m =
    (if fmlookup (rt_manifests st) (cm_manifest child) \<noteq> None \<or> fmlookup m (cm_manifest child) \<noteq> None then m
     else fmupd (cm_manifest child) child m)"

definition fetch_candidate :: "manifest_entry \<Rightarrow> pending_object_fetch" where
  "fetch_candidate e =
    \<lparr>pf_content_id = me_content_id e, pf_storage_id = me_storage_id e, pf_transport = me_transport e,
     pf_kind = me_kind e, pf_version = me_version e, pf_encryption_epoch = me_encryption_epoch e, pf_size = me_size e\<rparr>"

definition wanted :: "runtime_state \<Rightarrow> manifest_entry \<Rightarrow> bool" where
  "wanted st e \<longleftrightarrow> me_content_id e |\<notin>| rt_local_objects st
     \<and> (me_kind e = Tree \<or> materialization_of st (me_content_id e) \<noteq> MRemoteOnly)"

definition plan_entry ::
  "runtime_state \<Rightarrow> manifest_entry \<Rightarrow> (content_id, pending_object_fetch list) fmap
    \<Rightarrow> (content_id, pending_object_fetch list) fmap" where
  "plan_entry st e m =
    (if \<not> wanted st e then m
     else let i = me_content_id e;
              candidates = (case fmlookup m i of Some cs \<Rightarrow> cs | None \<Rightarrow> []);
              candidate = fetch_candidate e in
       fmupd i (if candidate \<in> set candidates then candidates else candidates @ [candidate]) m)"

definition runtime_reconcile_of :: "runtime_state \<Rightarrow> runtime_reconcile" where
  "runtime_reconcile_of st =
    (let records = map snd (sorted_list_of_fmap (rt_manifests st)) in
     \<lparr>rc_pending_snapshots = ffilter (\<lambda>i. fmlookup (rt_root_manifests_by_snapshot st) i = None) (fmdom (rt_announcements st)),
      rc_pending_snapshot_bodies = ffilter (\<lambda>i. fmlookup (rt_snapshot_bodies st) i = None) (fmdom (rt_announcements st)),
      rc_pending_manifests = fold (\<lambda>r. fold (plan_child st) (mf_children (mr_manifest r))) records fmempty,
      rc_pending_objects = fold (\<lambda>r. fold (plan_entry st) (mf_entries (mr_manifest r))) records fmempty\<rparr>)"

end
