(* ===== verification/Wyrd_Outbox.thy ===== *)
theory Wyrd_Outbox
  imports Wyrd_Runtime
begin

text \<open>
  The three delivery outboxes of the runtime state (announcements, transitions, capabilities) as instances
  of one interface: an obligation is queued, delivered or reconciled, and it is pending while it is queued
  and neither of the other two.
\<close>

section \<open>The interface\<close>

datatype 'p outbox_event = Queue 'p | Deliver 'p | Reconcile 'p array32

fun outbox_apply ::
  "('p \<Rightarrow> bool update) \<Rightarrow> ('p \<Rightarrow> bool update) \<Rightarrow> ('p \<Rightarrow> array32 \<Rightarrow> bool update) \<Rightarrow> 'p outbox_event
    \<Rightarrow> runtime_state \<Rightarrow> runtime_state" where
  "outbox_apply queue deliver reconcile (Queue p) st = snd (queue p st)"
| "outbox_apply queue deliver reconcile (Deliver p) st = snd (deliver p st)"
| "outbox_apply queue deliver reconcile (Reconcile p statement) st = snd (reconcile p statement st)"

locale outbox =
  fixes queued delivered reconciled :: "runtime_state \<Rightarrow> 'p::linorder fset"
    and queue deliver :: "'p \<Rightarrow> bool update"
    and reconcile :: "'p \<Rightarrow> array32 \<Rightarrow> bool update"
    and pending :: "runtime_state \<Rightarrow> 'p list"
  assumes queue_sets: "queued (snd (queue p st)) = finsert p (queued st)"
      "delivered (snd (queue p st)) = delivered st" "reconciled (snd (queue p st)) = reconciled st"
    and deliver_sets: "queued (snd (deliver p st)) = queued st"
      "delivered (snd (deliver p st)) = finsert p (delivered st)" "reconciled (snd (deliver p st)) = reconciled st"
    and reconcile_sets: "queued (snd (reconcile p statement st)) = queued st"
      "delivered (snd (reconcile p statement st)) = delivered st"
      "reconciled (snd (reconcile p statement st)) = finsert p (reconciled st)"
    and fresh: "fst (queue p st) \<longleftrightarrow> p |\<notin>| queued st" "fst (deliver p st) \<longleftrightarrow> p |\<notin>| delivered st"
    and pending_list: "pending st = filter (\<lambda>p. p |\<notin>| delivered st \<and> p |\<notin>| reconciled st) (sorted_list_of_fset (queued st))"
begin

abbreviation apply_event :: "'p outbox_event \<Rightarrow> runtime_state \<Rightarrow> runtime_state" where
  "apply_event \<equiv> outbox_apply queue deliver reconcile"

lemma apply_event_sets:
  "p |\<in>| queued (apply_event e st) \<longleftrightarrow> p |\<in>| queued st \<or> e = Queue p"
  "p |\<in>| delivered (apply_event e st) \<longleftrightarrow> p |\<in>| delivered st \<or> e = Deliver p"
  "p |\<in>| reconciled (apply_event e st) \<longleftrightarrow> p |\<in>| reconciled st \<or> (\<exists>statement. e = Reconcile p statement)"
  by (cases e; auto simp: queue_sets deliver_sets reconcile_sets)+

lemma fold_event_sets:
  "p |\<in>| queued (fold apply_event es st) \<longleftrightarrow> p |\<in>| queued st \<or> Queue p \<in> set es"
  "p |\<in>| delivered (fold apply_event es st) \<longleftrightarrow> p |\<in>| delivered st \<or> Deliver p \<in> set es"
  "p |\<in>| reconciled (fold apply_event es st) \<longleftrightarrow> p |\<in>| reconciled st \<or> (\<exists>statement. Reconcile p statement \<in> set es)"
  by (induction es arbitrary: st) (auto simp: apply_event_sets)

lemma set_pending: "set (pending st) = fset (queued st) - fset (delivered st) - fset (reconciled st)"
  by (auto simp: pending_list)

lemma pending_fold:
  "p \<in> set (pending (fold apply_event es st)) \<longleftrightarrow>
     (p |\<in>| queued st \<or> Queue p \<in> set es) \<and> p |\<notin>| delivered st \<and> Deliver p \<notin> set es
     \<and> p |\<notin>| reconciled st \<and> (\<forall>statement. Reconcile p statement \<notin> set es)"
  by (auto simp: set_pending fold_event_sets)

lemma pending_sorted: "sorted (pending st) \<and> distinct (pending st)"
  by (simp add: pending_list sorted_list_of_fset.rep_eq sorted_wrt_filter)

lemma pending_determined:
  "set (pending st) = set (pending st') \<Longrightarrow> pending st = pending st'"
  using pending_sorted [of st] pending_sorted [of st'] by (blast intro: sorted_distinct_set_unique)

lemma pending_order_irrelevant:
  "set es = set es' \<Longrightarrow> pending (fold apply_event es st) = pending (fold apply_event es' st)"
  by (rule pending_determined) (auto simp: pending_fold)

lemma pending_count:
  "fcard (ffilter (\<lambda>p. p |\<notin>| delivered st \<and> p |\<notin>| reconciled st) (queued st)) = length (pending st)"
proof -
  have "length (pending st) = card (set (pending st))" using pending_sorted by (metis distinct_card)
  moreover have "set (pending st) = fset (ffilter (\<lambda>p. p |\<notin>| delivered st \<and> p |\<notin>| reconciled st) (queued st))"
    by (auto simp: set_pending)
  ultimately show ?thesis by (simp add: fcard.rep_eq)
qed

lemma outstanding:
  "list_ex (\<lambda>p. Q p \<and> p |\<notin>| delivered st \<and> p |\<notin>| reconciled st) (sorted_list_of_fset (queued st))
     \<longleftrightarrow> (\<exists>p \<in> set (pending st). Q p)"
  by (auto simp: list_ex_iff set_pending)

end

section \<open>The three outboxes\<close>

interpretation announcements: outbox rt_announcement_queued rt_announcement_delivered rt_announcement_reconciled_pairs
    "\<lambda>(snap, recipient). record_announcement_queued snap recipient"
    "\<lambda>(snap, recipient). record_announcement_delivered snap recipient"
    "\<lambda>(snap, recipient) statement. record_announcement_reconciled snap recipient statement" pending_announcements
  by unfold_locales
     (auto simp: record_announcement_queued_def record_announcement_delivered_def record_announcement_reconciled_def
        pending_announcements_def split: if_splits)

interpretation transitions: outbox rt_transition_queued rt_transition_delivered rt_transition_reconciled_pairs
    "\<lambda>(i, recipient). record_transition_queued i recipient"
    "\<lambda>(i, recipient). record_transition_delivered i recipient"
    "\<lambda>(i, recipient) statement. record_transition_reconciled i recipient statement" pending_transitions
  by unfold_locales
     (auto simp: record_transition_queued_def record_transition_delivered_def record_transition_reconciled_def
        pending_transitions_def split: if_splits)

interpretation capabilities: outbox rt_capability_queued rt_capability_delivered rt_capability_reconciled_pairs
    "\<lambda>(epoch, recipient). record_capability_queued epoch recipient"
    "\<lambda>(epoch, recipient). record_capability_delivered epoch recipient"
    "\<lambda>(epoch, recipient) statement. record_capability_reconciled epoch recipient statement" pending_capabilities
  by unfold_locales
     (auto simp: record_capability_queued_def record_capability_delivered_def record_capability_reconciled_def
        pending_capabilities_def split: if_splits)

definition announcement_event :: "(snapshot_id \<times> device_id) outbox_event \<Rightarrow> runtime_state \<Rightarrow> runtime_state" where
  "announcement_event = outbox_apply (\<lambda>(snap, recipient). record_announcement_queued snap recipient)
    (\<lambda>(snap, recipient). record_announcement_delivered snap recipient)
    (\<lambda>(snap, recipient) statement. record_announcement_reconciled snap recipient statement)"

definition transition_event :: "(transition_id \<times> device_id) outbox_event \<Rightarrow> runtime_state \<Rightarrow> runtime_state" where
  "transition_event = outbox_apply (\<lambda>(i, recipient). record_transition_queued i recipient)
    (\<lambda>(i, recipient). record_transition_delivered i recipient)
    (\<lambda>(i, recipient) statement. record_transition_reconciled i recipient statement)"

definition capability_event :: "(u64 \<times> device_id) outbox_event \<Rightarrow> runtime_state \<Rightarrow> runtime_state" where
  "capability_event = outbox_apply (\<lambda>(epoch, recipient). record_capability_queued epoch recipient)
    (\<lambda>(epoch, recipient). record_capability_delivered epoch recipient)
    (\<lambda>(epoch, recipient) statement. record_capability_reconciled epoch recipient statement)"

text \<open>
  C26. What is still to be sent is determined by which deliveries were queued, delivered and reconciled and
  not by the order or the repetition of those facts: in each of the three outboxes, replaying the same
  set of facts in another order, or more than once, leaves the same list of pending deliveries.
\<close>

theorem outbox_replay_order_irrelevant:
  assumes "set as = set as'" "set ts = set ts'" "set cs = set cs'"
  shows "pending_announcements (fold announcement_event as st) = pending_announcements (fold announcement_event as' st)
    \<and> pending_transitions (fold transition_event ts st) = pending_transitions (fold transition_event ts' st)
    \<and> pending_capabilities (fold capability_event cs st) = pending_capabilities (fold capability_event cs' st)"
  using announcements.pending_order_irrelevant [OF assms(1)] transitions.pending_order_irrelevant [OF assms(2)]
    capabilities.pending_order_irrelevant [OF assms(3)]
  by (simp add: announcement_event_def transition_event_def capability_event_def)

theorem outbox_replay_order_irrelevant_witness:
  "set [Deliver (Ident 1, Ident 2), Queue (Ident 1, Ident 2)] =
     set [Queue (Ident 1, Ident 2), Deliver (Ident 1 :: snapshot_id, Ident 2 :: device_id), Queue (Ident 1, Ident 2)]
   \<and> pending_announcements (fold announcement_event [Deliver (Ident 1, Ident 2), Queue (Ident 1, Ident 2)] (runtime_new (Ident 0)))
     = pending_announcements (fold announcement_event [Queue (Ident 1, Ident 2), Deliver (Ident 1, Ident 2), Queue (Ident 1, Ident 2)]
         (runtime_new (Ident 0)))"
proof (intro conjI)
  show eq: "set [Deliver (Ident 1, Ident 2), Queue (Ident 1, Ident 2)] =
     set [Queue (Ident 1, Ident 2), Deliver (Ident 1 :: snapshot_id, Ident 2 :: device_id), Queue (Ident 1, Ident 2)]" by auto
  show "pending_announcements (fold announcement_event [Deliver (Ident 1, Ident 2), Queue (Ident 1, Ident 2)] (runtime_new (Ident 0)))
     = pending_announcements (fold announcement_event [Queue (Ident 1, Ident 2), Deliver (Ident 1, Ident 2), Queue (Ident 1, Ident 2)]
         (runtime_new (Ident 0)))"
    using outbox_replay_order_irrelevant [OF eq refl refl] by blast
qed

section \<open>Counting and waiting\<close>





section \<open>Announcing again\<close>

lemma in_announce_eligible_for:
  "p \<in> set (announce_eligible_for st route scope) \<longleftrightarrow>
    p |\<in>| rt_announcement_queued st \<and> p |\<notin>| rt_announcement_delivered st
    \<or> p |\<in>| rt_announcement_delivered st \<and> fst p |\<in>| scope
      \<and> (case route of
           Some live \<Rightarrow> fmlookup (rt_announcement_delivered_route st) p \<noteq> Some live
         | None \<Rightarrow> (case fmlookup (rt_announcement_delivered_route st) p of
             Some recorded \<Rightarrow> recorded \<noteq> WITHDRAWN_ROUTE | None \<Rightarrow> False))"
  by (auto simp: announce_eligible_for_def Let_def split: option.splits)

text \<open>What the announcer sends first is the pending set and what reconciliation retired undelivered.\<close>

lemma announce_eligible_undelivered:
  "{p \<in> set (announce_eligible_for st route scope). p |\<notin>| rt_announcement_delivered st} =
     set (pending_announcements st) \<union> {p. p |\<in>| rt_announcement_queued st \<and> p |\<notin>| rt_announcement_delivered st
       \<and> p |\<in>| rt_announcement_reconciled_pairs st}"
  by (auto simp: in_announce_eligible_for announcements.set_pending)

text \<open>
  C31. An announcement that was queued, not delivered, and whose obligation was then retired by
  reconciliation is no longer pending, and yet it stays in the set the announcer sends, whatever the
  route and the scope of the pass.
\<close>

theorem reconciled_still_announced:
  assumes "(snap, recipient) |\<notin>| rt_announcement_delivered st"
    and "st' = snd (record_announcement_reconciled snap recipient statement (snd (record_announcement_queued snap recipient st)))"
  shows "(snap, recipient) \<notin> set (pending_announcements st')
    \<and> (snap, recipient) \<in> set (announce_eligible_for st' route scope)"
  using assms
  by (auto simp: in_announce_eligible_for announcements.set_pending record_announcement_reconciled_def
      record_announcement_queued_def)

theorem reconciled_still_announced_witness:
  "(Ident 1, Ident 2) |\<notin>| rt_announcement_delivered (runtime_new (Ident 0))
   \<and> (Ident 1, Ident 2) \<notin> set (pending_announcements
       (snd (record_announcement_reconciled (Ident 1) (Ident 2) 9
         (snd (record_announcement_queued (Ident 1) (Ident 2) (runtime_new (Ident 0)))))))
   \<and> (Ident 1, Ident 2) \<in> set (announce_eligible_for
       (snd (record_announcement_reconciled (Ident 1) (Ident 2) 9
         (snd (record_announcement_queued (Ident 1) (Ident 2) (runtime_new (Ident 0)))))) None {||})"
proof -
  have fresh: "(Ident 1, Ident 2) |\<notin>| rt_announcement_delivered (runtime_new (Ident 0))" by (simp add: runtime_new_def)
  from reconciled_still_announced [OF fresh refl] fresh show ?thesis by blast
qed

end
