(* ===== verification/Wyrd_Records.thy ===== *)
theory Wyrd_Records
  imports Wyrd_Outbox
begin

text \<open>
  What the runtime state keeps true: records are filed under their own ids, announcements and snapshot
  bodies agree, the two manifest indexes are exact, and a failed operation changes nothing.  The steps are
  all the operations of \<open>runtime/state.rs\<close> and \<open>runtime/state/*.rs\<close>.
\<close>

section \<open>The invariant\<close>

definition announcements_ok :: "kdf \<Rightarrow> runtime_state \<Rightarrow> bool" where
  "announcements_ok dk st \<longleftrightarrow>
    (\<forall>i a. fmlookup (rt_announcements st) i = Some a \<longrightarrow> ann_snapshot a = i)
    \<and> (\<forall>i s. fmlookup (rt_snapshot_bodies st) i = Some s \<longrightarrow> snapshot_id_of dk s = i)
    \<and> (\<forall>i a s. fmlookup (rt_announcements st) i = Some a \<longrightarrow> fmlookup (rt_snapshot_bodies st) i = Some s \<longrightarrow>
         body_agrees a s)"

definition manifest_record_ok :: "kdf \<Rightarrow> content_id \<Rightarrow> manifest_record \<Rightarrow> bool" where
  "manifest_record_ok dk i r \<longleftrightarrow> mr_manifest_id r = i
     \<and> i = content_derive dk Manifest (manifest_canonical_bytes (mr_manifest r)) \<and> transport_is_represented r"

definition root_of :: "runtime_state \<Rightarrow> snapshot_id \<Rightarrow> content_id \<Rightarrow> bool" where
  "root_of st snap i \<longleftrightarrow> (\<exists>r. fmlookup (rt_manifests st) i = Some r \<and> mr_is_root r \<and> mf_snapshot (mr_manifest r) = snap)"

definition lists_child :: "content_id \<Rightarrow> snapshot_id \<Rightarrow> manifest \<Rightarrow> bool" where
  "lists_child child snap m \<longleftrightarrow> child \<in> cm_manifest ` set (mf_children m) \<and> mf_snapshot m = snap"

definition child_of_snapshot :: "runtime_state \<Rightarrow> content_id \<Rightarrow> snapshot_id \<Rightarrow> bool" where
  "child_of_snapshot st child snap \<longleftrightarrow>
    (\<exists>i r. fmlookup (rt_manifests st) i = Some r \<and> lists_child child snap (mr_manifest r))"

definition manifests_ok :: "kdf \<Rightarrow> runtime_state \<Rightarrow> bool" where
  "manifests_ok dk st \<longleftrightarrow>
    (\<forall>i r. fmlookup (rt_manifests st) i = Some r \<longrightarrow> manifest_record_ok dk i r)
    \<and> (\<forall>snap i. (\<exists>ids. fmlookup (rt_root_manifests_by_snapshot st) snap = Some ids \<and> i |\<in>| ids) \<longleftrightarrow> root_of st snap i)
    \<and> (\<forall>snap. fmlookup (rt_root_manifests_by_snapshot st) snap \<noteq> Some {||})
    \<and> (\<forall>child snap. fmlookup (rt_child_parent_by_manifest st) child = Some snap \<longleftrightarrow> child_of_snapshot st child snap)"

definition pair_of :: "'a \<times> 'b \<times> 'c \<Rightarrow> 'a \<times> 'b" where
  "pair_of t = (fst t, fst (snd t))"

definition reconciled_ok :: "runtime_state \<Rightarrow> bool" where
  "reconciled_ok st \<longleftrightarrow>
    rt_announcement_reconciled_pairs st = pair_of |`| rt_announcement_reconciled st
    \<and> rt_transition_reconciled_pairs st = pair_of |`| rt_transition_reconciled st
    \<and> rt_capability_reconciled_pairs st = pair_of |`| rt_capability_reconciled st
    \<and> inj_on pair_of (fset (rt_announcement_reconciled st)) \<and> inj_on pair_of (fset (rt_transition_reconciled st))
    \<and> inj_on pair_of (fset (rt_capability_reconciled st))"

definition runtime_ok :: "kdf \<Rightarrow> runtime_state \<Rightarrow> bool" where
  "runtime_ok dk st \<longleftrightarrow> announcements_ok dk st \<and> manifests_ok dk st \<and> reconciled_ok st"

lemma runtime_new_ok: "runtime_ok dk (runtime_new drive)"
  by (simp add: runtime_ok_def announcements_ok_def manifests_ok_def reconciled_ok_def runtime_new_def root_of_def
      child_of_snapshot_def)

section \<open>Recording\<close>

lemma insert_announcement_cases:
  assumes "insert_announcement a st = (r, st')"
  shows "st' = st \<or> r = Inr True \<and> st' = st\<lparr>rt_announcements := fmupd (ann_snapshot a) a (rt_announcements st)\<rparr>"
  using assms by (auto simp: insert_announcement_def Let_def split: option.splits announcement_update.splits)

lemma record_announcement_cases:
  assumes "record_announcement a st = (r, st')"
  shows "st' = st \<or> r = Inr True \<and> st' = st\<lparr>rt_announcements := fmupd (ann_snapshot a) a (rt_announcements st)\<rparr>
    \<and> (\<forall>s. fmlookup (rt_snapshot_bodies st) (ann_snapshot a) = Some s \<longrightarrow> body_agrees a s)"
  using assms insert_announcement_cases [of a st r st']
  by (auto simp: record_announcement_def split: option.splits if_splits)

lemma record_announcement_ok:
  assumes "announcements_ok dk st" "record_announcement a st = (r, st')"
  shows "announcements_ok dk st'"
  using assms(1) record_announcement_cases [OF assms(2)] by (auto simp: announcements_ok_def split: if_splits)

lemma record_snapshot_body_ok:
  assumes "announcements_ok dk st" "record_snapshot_body dk s st = (r, st')"
  shows "announcements_ok dk st'"
  using assms by (auto simp: record_snapshot_body_def announcements_ok_def Let_def split: option.splits if_splits)

lemma merge_manifest_cases:
  assumes "merge_manifest existing r st = (res, st')" "fmlookup (rt_manifests st) (mr_manifest_id r) = Some existing"
    and "transport_is_represented existing"
  shows "st' = st \<or> (\<exists>merged. st' = st\<lparr>rt_manifests := fmupd (mr_manifest_id r) merged (rt_manifests st)\<rparr>
    \<and> mr_manifest_id merged = mr_manifest_id existing \<and> mr_manifest merged = mr_manifest existing
    \<and> mr_is_root merged = mr_is_root existing \<and> transport_is_represented merged)"
proof (cases "st' = st")
  case False
  let ?completes = "mr_representations existing = fmempty \<and> mr_representations r \<noteq> fmempty"
  let ?reps = "fmadd (mr_representations existing) (mr_representations r)"
  let ?m = "existing\<lparr>mr_representations := ?reps\<rparr>"
  let ?merged = "if ?completes then ?m\<lparr>mr_transport := mr_transport r\<rparr> else ?m"
  have agree: "fmpred (\<lambda>storage transport. case fmlookup (mr_representations existing) storage of
      Some held \<Rightarrow> held = transport | None \<Rightarrow> True) (mr_representations r)"
    and rep: "?completes \<Longrightarrow> transport_is_represented r"
    and st': "st' = st\<lparr>rt_manifests := fmupd (mr_manifest_id r) ?merged (rt_manifests st)\<rparr>"
    using assms(1) False unfolding merge_manifest_def Let_def by (auto split: if_splits)
  have kept: "fmlookup ?reps storage = Some t" if "fmlookup (mr_representations existing) storage = Some t" for storage t
    using agree that
    by (cases "fmlookup (mr_representations r) storage") (auto simp: fmpred_iff fmlookup_dom_iff split: option.splits)
  have "transport_is_represented ?merged"
  proof (cases ?completes)
    case True
    with rep show ?thesis by (auto simp: transport_is_represented_def)
  next
    case False
    have "mr_transport existing |\<in>| fmran ?reps" if "mr_transport existing |\<in>| fmran (mr_representations existing)"
      using that kept by (metis fmranE fmranI)
    with False assms(3) show ?thesis by (auto simp: transport_is_represented_def)
  qed
  with st' show ?thesis by auto
qed simp

lemma exists_fmupd_new:
  assumes "fmlookup m i = None"
  shows "(\<exists>j s. fmlookup (fmupd i r m) j = Some s \<and> P s) \<longleftrightarrow> P r \<or> (\<exists>j s. fmlookup m j = Some s \<and> P s)"
proof
  assume "P r \<or> (\<exists>j s. fmlookup m j = Some s \<and> P s)"
  then consider "P r" | j s where "fmlookup m j = Some s" "P s" by blast
  then show "\<exists>j s. fmlookup (fmupd i r m) j = Some s \<and> P s"
  proof cases
    case 2
    with assms have "fmlookup (fmupd i r m) j = Some s" by auto
    with 2 show ?thesis by blast
  qed auto
qed (auto split: if_splits)

lemma exists_fmupd_same:
  assumes "fmlookup m i = Some r0" "P r \<longleftrightarrow> P r0"
  shows "(\<exists>j s. fmlookup (fmupd i r m) j = Some s \<and> P s) \<longleftrightarrow> (\<exists>j s. fmlookup m j = Some s \<and> P s)"
  using assms by (metis fmupd_lookup option.inject)

text \<open>The indexes read a record through its manifest and its root flag only.\<close>

lemma replace_record_indexes:
  assumes "fmlookup (rt_manifests st) i = Some r" "mr_manifest r' = mr_manifest r" "mr_is_root r' = mr_is_root r"
    and "st' = st\<lparr>rt_manifests := fmupd i r' (rt_manifests st)\<rparr>"
  shows "root_of st' snap j \<longleftrightarrow> root_of st snap j" "child_of_snapshot st' child snap \<longleftrightarrow> child_of_snapshot st child snap"
proof -
  show "root_of st' snap j \<longleftrightarrow> root_of st snap j" using assms by (auto simp: root_of_def)
  show "child_of_snapshot st' child snap \<longleftrightarrow> child_of_snapshot st child snap"
    using assms(2,4) exists_fmupd_same [OF assms(1), of "\<lambda>s. lists_child child snap (mr_manifest s)" r']
    by (simp add: child_of_snapshot_def del: fmupd_lookup)
qed

lemma insert_manifest_cases:
  assumes "insert_manifest r st = (res, st')"
  shows "st' = st \<or> res = Inr True \<and> transport_is_represented r
    \<and> (\<forall>child \<in> set (mf_children (mr_manifest r)). \<forall>snap.
         fmlookup (rt_child_parent_by_manifest st) (cm_manifest child) = Some snap \<longrightarrow> snap = mf_snapshot (mr_manifest r))
    \<and> st' = (let snap = mf_snapshot (mr_manifest r); roots = rt_root_manifests_by_snapshot st;
               held = (case fmlookup roots snap of Some ids \<Rightarrow> ids | None \<Rightarrow> {||}) in
         st\<lparr>rt_manifests := fmupd (mr_manifest_id r) r (rt_manifests st),
            rt_root_manifests_by_snapshot := (if mr_is_root r then fmupd snap (finsert (mr_manifest_id r) held) roots else roots),
            rt_child_parent_by_manifest :=
              fold (\<lambda>child. fmupd (cm_manifest child) snap) (mf_children (mr_manifest r)) (rt_child_parent_by_manifest st)\<rparr>)"
  using assms
  by (auto simp: insert_manifest_def Let_def find_None_iff split: if_splits option.splits)

lemma fold_parents:
  "fmlookup (fold (\<lambda>child. fmupd (cm_manifest child) snap) children m) c =
    (if c \<in> cm_manifest ` set children then Some snap else fmlookup m c)"
  by (induction children arbitrary: m) auto

lemma insert_manifest_ok:
  assumes ok: "manifests_ok dk st" and new: "fmlookup (rt_manifests st) (mr_manifest_id r) = None"
    and derived: "mr_manifest_id r = content_derive dk Manifest (manifest_canonical_bytes (mr_manifest r))"
    and ins: "insert_manifest r st = (res, st')"
  shows "manifests_ok dk st'"
proof (cases "st' = st")
  case False
  let ?i = "mr_manifest_id r" and ?snap = "mf_snapshot (mr_manifest r)"
  from insert_manifest_cases [OF ins] False have rep: "transport_is_represented r"
    and parents: "\<And>child snap. child \<in> set (mf_children (mr_manifest r)) \<Longrightarrow>
      fmlookup (rt_child_parent_by_manifest st) (cm_manifest child) = Some snap \<Longrightarrow> snap = ?snap"
    and manifests: "rt_manifests st' = fmupd ?i r (rt_manifests st)"
    and roots: "rt_root_manifests_by_snapshot st' = (if mr_is_root r then
        fmupd ?snap (finsert ?i (case fmlookup (rt_root_manifests_by_snapshot st) ?snap of Some ids \<Rightarrow> ids | None \<Rightarrow> {||}))
          (rt_root_manifests_by_snapshot st) else rt_root_manifests_by_snapshot st)"
    and index: "rt_child_parent_by_manifest st' =
      fold (\<lambda>child. fmupd (cm_manifest child) ?snap) (mf_children (mr_manifest r)) (rt_child_parent_by_manifest st)"
    by (auto simp: Let_def)
  have root: "root_of st' snap j \<longleftrightarrow> root_of st snap j \<or> j = ?i \<and> mr_is_root r \<and> snap = ?snap" for snap j
    using new by (auto simp: root_of_def manifests)
  have child: "child_of_snapshot st' c snap \<longleftrightarrow>
      child_of_snapshot st c snap \<or> c \<in> cm_manifest ` set (mf_children (mr_manifest r)) \<and> snap = ?snap" for c snap
    unfolding child_of_snapshot_def manifests exists_fmupd_new [OF new] by (auto simp: lists_child_def)
  have "(\<exists>ids. fmlookup (rt_root_manifests_by_snapshot st') snap = Some ids \<and> j |\<in>| ids) \<longleftrightarrow>
      (\<exists>ids. fmlookup (rt_root_manifests_by_snapshot st) snap = Some ids \<and> j |\<in>| ids) \<or> j = ?i \<and> mr_is_root r \<and> snap = ?snap"
    for snap j by (auto simp: roots split: option.splits)
  moreover have "fmlookup (rt_child_parent_by_manifest st') c = Some snap \<longleftrightarrow>
      fmlookup (rt_child_parent_by_manifest st) c = Some snap \<or> c \<in> cm_manifest ` set (mf_children (mr_manifest r)) \<and> snap = ?snap"
    for c snap using parents by (auto simp: index fold_parents)
  moreover have "fmlookup (rt_root_manifests_by_snapshot st') snap \<noteq> Some {||}" for snap
    using ok by (auto simp: roots manifests_ok_def)
  moreover have "manifest_record_ok dk ?i r" using derived rep by (simp add: manifest_record_ok_def)
  ultimately show ?thesis using ok by (simp add: manifests_ok_def root child) (simp add: manifests)
qed (use ok in simp)

lemma record_manifest_ok:
  assumes ok: "manifests_ok dk st" and rec: "record_manifest dk r st = (res, st')"
  shows "manifests_ok dk st'"
proof (cases "mr_manifest_id r = content_derive dk Manifest (manifest_canonical_bytes (mr_manifest r))")
  case derived: True
  show ?thesis
  proof (cases "fmlookup (rt_manifests st) (mr_manifest_id r)")
    case None
    with rec derived have "insert_manifest r st = (res, st')" by (simp add: record_manifest_def)
    from insert_manifest_ok [OF ok None derived this] show ?thesis .
  next
    case (Some existing)
    then have "merge_manifest existing r st = (res, st')" "manifest_record_ok dk (mr_manifest_id r) existing"
      using rec derived ok by (auto simp: record_manifest_def manifests_ok_def)
    with merge_manifest_cases [OF this(1) Some] consider "st' = st"
      | merged where "st' = st\<lparr>rt_manifests := fmupd (mr_manifest_id r) merged (rt_manifests st)\<rparr>"
        "mr_manifest merged = mr_manifest existing" "mr_is_root merged = mr_is_root existing"
        "manifest_record_ok dk (mr_manifest_id r) merged"
      by (auto simp: manifest_record_ok_def)
    then show ?thesis
    proof cases
      case 2
      have "(\<forall>j s. fmlookup (rt_manifests st') j = Some s \<longrightarrow> manifest_record_ok dk j s)"
        using ok 2 by (auto simp: manifests_ok_def)
      moreover have "rt_root_manifests_by_snapshot st' = rt_root_manifests_by_snapshot st"
        "rt_child_parent_by_manifest st' = rt_child_parent_by_manifest st" using 2 by simp_all
      ultimately show ?thesis using ok by (simp add: manifests_ok_def replace_record_indexes [OF Some 2(2,3,1)])
    qed (use ok in simp)
  qed
qed (use ok rec in \<open>simp add: record_manifest_def\<close>)

section \<open>Every operation\<close>

inductive runtime_step :: "kdf \<Rightarrow> runtime_state \<Rightarrow> runtime_state \<Rightarrow> bool" for dk where
  "runtime_step dk st (snd (remember_control_message i st))"
| "runtime_step dk st (snd (record_announcement a st))"
| "runtime_step dk st (snd (record_manifest dk r st))"
| "runtime_step dk st (snd (record_snapshot_body dk s st))"
| "runtime_step dk st (snd (record_announcement_queued snap recipient st))"
| "runtime_step dk st (snd (record_announcement_sealed snap sealed st))"
| "runtime_step dk st (snd (record_announcement_route_sealed snap route sealed st))"
| "runtime_step dk st (snd (record_announcement_delivered snap recipient st))"
| "runtime_step dk st (snd (record_announcement_delivered_route snap recipient endpoint st))"
| "runtime_step dk st (snd (record_announcement_reconciled snap recipient statement st))"
| "runtime_step dk st (snd (record_transition_queued t recipient st))"
| "runtime_step dk st (snd (record_transition_sealed t sealed st))"
| "runtime_step dk st (snd (record_transition_delivered t recipient st))"
| "runtime_step dk st (snd (record_transition_reconciled t recipient statement st))"
| "runtime_step dk st (snd (record_capability_queued epoch recipient st))"
| "runtime_step dk st (snd (record_capability_sealed epoch recipient sealed st))"
| "runtime_step dk st (snd (record_capability_replaced dk epoch recipient supersedes sealed st))"
| "runtime_step dk st (snd (record_capability_delivered epoch recipient st))"
| "runtime_step dk st (snd (record_capability_reconciled epoch recipient statement st))"
| "runtime_step dk st (snd (record_carry_queued snap st))"
| "runtime_step dk st (snd (record_carry_done snap st))"
| "runtime_step dk st (snd (mark_local_object content st))"
| "runtime_step dk st (snd (remove_local_object content st))"
| "runtime_step dk st (snd (runtime_set_materialization content m st))"

text \<open>What each part of the invariant reads.\<close>

lemma announcements_ok_cong:
  "rt_announcements st' = rt_announcements st \<Longrightarrow> rt_snapshot_bodies st' = rt_snapshot_bodies st \<Longrightarrow>
   announcements_ok dk st' \<longleftrightarrow> announcements_ok dk st"
  by (simp add: announcements_ok_def)

lemma manifests_ok_cong:
  "rt_manifests st' = rt_manifests st \<Longrightarrow> rt_root_manifests_by_snapshot st' = rt_root_manifests_by_snapshot st \<Longrightarrow>
   rt_child_parent_by_manifest st' = rt_child_parent_by_manifest st \<Longrightarrow> manifests_ok dk st' \<longleftrightarrow> manifests_ok dk st"
  by (simp add: manifests_ok_def root_of_def child_of_snapshot_def)

definition reconciled_view :: "runtime_state \<Rightarrow> (snapshot_id \<times> device_id \<times> array32) fset \<times> (snapshot_id \<times> device_id) fset
    \<times> (transition_id \<times> device_id \<times> array32) fset \<times> (transition_id \<times> device_id) fset
    \<times> (u64 \<times> device_id \<times> array32) fset \<times> (u64 \<times> device_id) fset" where
  "reconciled_view st = (rt_announcement_reconciled st, rt_announcement_reconciled_pairs st,
    rt_transition_reconciled st, rt_transition_reconciled_pairs st,
    rt_capability_reconciled st, rt_capability_reconciled_pairs st)"

lemma reconciled_ok_cong: "reconciled_view st' = reconciled_view st \<Longrightarrow> reconciled_ok st' \<longleftrightarrow> reconciled_ok st"
  by (simp add: reconciled_ok_def reconciled_view_def)

lemma pair_of_finsert:
  assumes "pairs = pair_of |`| recs" "inj_on pair_of (fset recs)" "(x, y) |\<notin>| pairs"
  shows "finsert (x, y) pairs = pair_of |`| finsert (x, y, z) recs \<and> inj_on pair_of (fset (finsert (x, y, z) recs))"
proof -
  have "(x, y) \<notin> pair_of ` fset recs" using assms by (metis fimage.rep_eq)
  with assms show ?thesis by (auto simp: pair_of_def inj_on_def)
qed

lemma reconcile_ok:
  assumes "reconciled_ok st"
  shows "reconciled_ok (snd (record_announcement_reconciled snap recipient statement st))"
    and "reconciled_ok (snd (record_transition_reconciled i recipient statement st))"
    and "reconciled_ok (snd (record_capability_reconciled epoch recipient statement st))"
  using assms
    pair_of_finsert [of "rt_announcement_reconciled_pairs st" "rt_announcement_reconciled st" snap recipient statement]
    pair_of_finsert [of "rt_transition_reconciled_pairs st" "rt_transition_reconciled st" i recipient statement]
    pair_of_finsert [of "rt_capability_reconciled_pairs st" "rt_capability_reconciled st" epoch recipient statement]
  unfolding reconciled_ok_def record_announcement_reconciled_def record_transition_reconciled_def record_capability_reconciled_def
  by (simp_all split: if_splits)

definition record_view :: "runtime_state \<Rightarrow> (snapshot_id, announcement) fmap \<times> (snapshot_id, snapshot) fmap
    \<times> (content_id, manifest_record) fmap \<times> (snapshot_id, content_id fset) fmap \<times> (content_id, snapshot_id) fmap" where
  "record_view st = (rt_announcements st, rt_snapshot_bodies st, rt_manifests st, rt_root_manifests_by_snapshot st,
    rt_child_parent_by_manifest st)"

lemma records_ok_cong:
  "record_view st' = record_view st \<Longrightarrow> announcements_ok dk st' \<and> manifests_ok dk st' \<longleftrightarrow> announcements_ok dk st \<and> manifests_ok dk st"
  using announcements_ok_cong [of st' st dk] manifests_ok_cong [of st' st dk] by (simp add: record_view_def)

lemmas outbox_op_defs =
  remember_control_message_def record_announcement_queued_def record_announcement_sealed_def
  record_announcement_route_sealed_def record_announcement_delivered_def record_announcement_delivered_route_def
  record_transition_queued_def record_transition_sealed_def record_transition_delivered_def
  record_capability_queued_def record_capability_sealed_def record_capability_replaced_def record_capability_delivered_def
  record_carry_queued_def record_carry_done_def mark_local_object_def remove_local_object_def runtime_set_materialization_def

lemma merge_manifest_frame:
  "rt_announcements (snd (merge_manifest existing r st)) = rt_announcements st"
  "rt_snapshot_bodies (snd (merge_manifest existing r st)) = rt_snapshot_bodies st"
  "reconciled_view (snd (merge_manifest existing r st)) = reconciled_view st"
  by (simp_all add: merge_manifest_def Let_def reconciled_view_def)

lemma insert_manifest_frame:
  "rt_announcements (snd (insert_manifest r st)) = rt_announcements st"
  "rt_snapshot_bodies (snd (insert_manifest r st)) = rt_snapshot_bodies st"
  "reconciled_view (snd (insert_manifest r st)) = reconciled_view st"
  by (simp_all add: insert_manifest_def Let_def reconciled_view_def split: option.split)

lemma record_manifest_frame:
  "rt_announcements (snd (record_manifest dk r st)) = rt_announcements st"
  "rt_snapshot_bodies (snd (record_manifest dk r st)) = rt_snapshot_bodies st"
  "reconciled_view (snd (record_manifest dk r st)) = reconciled_view st"
  by (simp_all add: record_manifest_def Let_def merge_manifest_frame insert_manifest_frame split: option.split)

lemma reconcile_frame:
  "record_view (snd (record_announcement_reconciled snap recipient statement st)) = record_view st"
  "record_view (snd (record_transition_reconciled t recipient statement st)) = record_view st"
  "record_view (snd (record_capability_reconciled epoch recipient statement st)) = record_view st"
  by (simp_all add: record_announcement_reconciled_def record_transition_reconciled_def record_capability_reconciled_def
      record_view_def)

lemma manifests_ok_upd:
  "manifests_ok dk (st\<lparr>rt_announcements := anns\<rparr>) \<longleftrightarrow> manifests_ok dk st"
  "manifests_ok dk (st\<lparr>rt_snapshot_bodies := bodies\<rparr>) \<longleftrightarrow> manifests_ok dk st"
  by (rule manifests_ok_cong; simp)+

lemma announcement_frame:
  "manifests_ok dk (snd (record_announcement a st)) \<longleftrightarrow> manifests_ok dk st"
  "reconciled_view (snd (record_announcement a st)) = reconciled_view st"
  using record_announcement_cases [of a st "fst (record_announcement a st)" "snd (record_announcement a st)"]
  by (auto simp: reconciled_view_def manifests_ok_upd)

lemma body_frame:
  "manifests_ok dk (snd (record_snapshot_body dk s st)) \<longleftrightarrow> manifests_ok dk st"
  "reconciled_view (snd (record_snapshot_body dk s st)) = reconciled_view st"
  by (simp_all add: reconciled_view_def manifests_ok_upd record_snapshot_body_def Let_def split: option.split)

lemma runtime_ok_frame:
  assumes "runtime_ok dk st" "record_view st' = record_view st" "reconciled_view st' = reconciled_view st"
  shows "runtime_ok dk st'"
  using assms records_ok_cong [of st' st dk] reconciled_ok_cong [of st' st] by (simp add: runtime_ok_def)

lemma outbox_step_ok:
  assumes "runtime_ok dk st"
  shows "runtime_ok dk (snd (remember_control_message i st))"
    "runtime_ok dk (snd (record_announcement_queued snap recipient st))"
    "runtime_ok dk (snd (record_announcement_sealed snap sealed st))"
    "runtime_ok dk (snd (record_announcement_route_sealed snap route sealed st))"
    "runtime_ok dk (snd (record_announcement_delivered snap recipient st))"
    "runtime_ok dk (snd (record_announcement_delivered_route snap recipient endpoint st))"
    "runtime_ok dk (snd (record_transition_queued t recipient st))"
    "runtime_ok dk (snd (record_transition_sealed t sealed st))"
    "runtime_ok dk (snd (record_transition_delivered t recipient st))"
    "runtime_ok dk (snd (record_capability_queued epoch recipient st))"
    "runtime_ok dk (snd (record_capability_sealed epoch recipient sealed st))"
    "runtime_ok dk (snd (record_capability_replaced dk epoch recipient supersedes sealed st))"
    "runtime_ok dk (snd (record_capability_delivered epoch recipient st))"
    "runtime_ok dk (snd (record_carry_queued snap st))"
    "runtime_ok dk (snd (record_carry_done snap st))"
    "runtime_ok dk (snd (mark_local_object content st))"
    "runtime_ok dk (snd (remove_local_object content st))"
    "runtime_ok dk (snd (runtime_set_materialization content m st))"
  by (rule runtime_ok_frame [OF assms]; simp add: outbox_op_defs record_view_def reconciled_view_def split: option.split)+

lemma record_step_ok:
  assumes "runtime_ok dk st"
  shows "runtime_ok dk (snd (record_announcement a st))" "runtime_ok dk (snd (record_snapshot_body dk s st))"
    "runtime_ok dk (snd (record_manifest dk r st))"
  using assms record_announcement_ok [OF _ surjective_pairing, of dk st a]
    record_snapshot_body_ok [OF _ surjective_pairing, of dk st s] record_manifest_ok [OF _ surjective_pairing, of dk st r]
    announcements_ok_cong [of "snd (record_manifest dk r st)" st dk]
    reconciled_ok_cong [of "snd (record_announcement a st)" st] reconciled_ok_cong [of "snd (record_snapshot_body dk s st)" st]
    reconciled_ok_cong [of "snd (record_manifest dk r st)" st]
  by (simp_all add: runtime_ok_def announcement_frame body_frame record_manifest_frame)

lemma reconcile_step_ok:
  assumes "runtime_ok dk st"
  shows "runtime_ok dk (snd (record_announcement_reconciled snap recipient statement st))"
    "runtime_ok dk (snd (record_transition_reconciled t recipient statement st))"
    "runtime_ok dk (snd (record_capability_reconciled epoch recipient statement st))"
  using assms reconcile_ok [of st] records_ok_cong [OF reconcile_frame(1), of dk] records_ok_cong [OF reconcile_frame(2), of dk]
    records_ok_cong [OF reconcile_frame(3), of dk]
  by (simp_all add: runtime_ok_def)

lemma runtime_step_ok: "runtime_step dk st st' \<Longrightarrow> runtime_ok dk st \<Longrightarrow> runtime_ok dk st'"
  by (induction rule: runtime_step.induct)
     (erule record_step_ok reconcile_step_ok outbox_step_ok)+

lemma reachable_ok: "(runtime_step dk)\<^sup>*\<^sup>* (runtime_new drive) st \<Longrightarrow> runtime_ok dk st"
  by (induction rule: rtranclp_induct) (auto intro: runtime_new_ok runtime_step_ok)

text \<open>
  C12. The runtime state is well formed in every state a device can reach: announcements, snapshot bodies
  and manifests are filed under their own ids, a recorded body agrees with the recorded announcement of
  the same snapshot, every recorded transport is one of the manifest's representations, the root and the
  child index list exactly what the recorded manifests say, and each retired obligation has one statement.
\<close>

theorem runtime_well_formed:
  assumes "(runtime_step dk)\<^sup>*\<^sup>* (runtime_new drive) st"
  shows "runtime_ok dk st"
  using assms by (rule reachable_ok)

definition sample_record :: "kdf \<Rightarrow> manifest_record" where
  "sample_record dk = (let m = \<lparr>mf_snapshot = Ident 1, mf_entries = [], mf_children = []\<rparr> in
    \<lparr>mr_is_root = True, mr_manifest_id = content_derive dk Manifest (manifest_canonical_bytes m),
     mr_representations = fmempty, mr_transport = Ident 5, mr_manifest = m\<rparr>)"

theorem runtime_well_formed_witness:
  "(runtime_step (\<lambda>_ _. 7))\<^sup>*\<^sup>* (runtime_new (Ident 0))
     (snd (record_manifest (\<lambda>_ _. 7) (sample_record (\<lambda>_ _. 7)) (runtime_new (Ident 0))))
   \<and> runtime_ok (\<lambda>_ _. 7) (snd (record_manifest (\<lambda>_ _. 7) (sample_record (\<lambda>_ _. 7)) (runtime_new (Ident 0))))"
proof -
  let ?dk = "\<lambda>_ _. 7 :: array32"
  have run: "(runtime_step ?dk)\<^sup>*\<^sup>* (runtime_new (Ident 0))
      (snd (record_manifest ?dk (sample_record ?dk) (runtime_new (Ident 0))))"
    by (intro r_into_rtranclp runtime_step.intros)
  with runtime_well_formed [OF run] show ?thesis by blast
qed

section \<open>Choosing a root manifest\<close>

lemma root_index:
  assumes "manifests_ok dk st"
  shows "(\<exists>ids. fmlookup (rt_root_manifests_by_snapshot st) snap = Some ids \<and> i |\<in>| ids) \<longleftrightarrow> root_of st snap i"
  using assms by (simp add: manifests_ok_def)

definition prefers :: "runtime_state \<Rightarrow> snapshot_id \<Rightarrow> content_id \<Rightarrow> bool" where
  "prefers st snap i \<longleftrightarrow> (\<forall>a. fmlookup (rt_announcements st) snap = Some a \<longrightarrow> root_of st snap (ann_root_manifest a) \<longrightarrow>
     i = ann_root_manifest a)"

lemma root_manifest_record_cases:
  assumes ok: "manifests_ok dk st"
  shows "root_manifest_record st snap = None \<and> (\<forall>i. \<not> root_of st snap i)
    \<or> (\<exists>i r. root_manifest_record st snap = Some r \<and> fmlookup (rt_manifests st) i = Some r \<and> root_of st snap i \<and> prefers st snap i)"
proof (cases "fmlookup (rt_root_manifests_by_snapshot st) snap")
  case None
  with root_index [OF ok, of snap] show ?thesis by (simp add: root_manifest_record_def)
next
  case (Some ids)
  then have ids: "i |\<in>| ids \<longleftrightarrow> root_of st snap i" for i using root_index [OF ok, of snap i] by simp
  show ?thesis
  proof (cases "sorted_list_of_fset ids")
    case Nil
    then have e: "ids = {||}" by (metis fset_of_list_simps(1) sorted_list_of_fset_simps(2))
    then have "root_manifest_record st snap = None"
      by (simp add: root_manifest_record_def Some sorted_list_of_fset.rep_eq split: option.split)
    with e ids show ?thesis by simp
  next
    case (Cons least rest)
    then have least: "least |\<in>| ids" by (metis list.set_intros(1) sorted_list_of_fset_simps(1))
    define chosen where "chosen = (case fmlookup (rt_announcements st) snap of
        Some a \<Rightarrow> if ann_root_manifest a |\<in>| ids then ann_root_manifest a else least | None \<Rightarrow> least)"
    have "chosen |\<in>| ids" using least by (simp add: chosen_def split: option.split)
    then have root: "root_of st snap chosen" by (simp add: ids)
    moreover have "prefers st snap chosen" by (simp add: prefers_def chosen_def ids split: option.split)
    moreover have "root_manifest_record st snap = fmlookup (rt_manifests st) chosen"
      by (simp add: root_manifest_record_def Some Cons manifest_record_of_def chosen_def split: option.split)
    ultimately show ?thesis unfolding root_of_def by auto
  qed
qed

text \<open>
  C27. The root manifest a snapshot is read through is a recorded root of that snapshot: one is found
  exactly when some root of the snapshot is recorded, the record found is filed under its own id, and it is
  the announced root whenever that root is recorded for the snapshot.
\<close>

theorem root_manifest_record_correct:
  assumes "(runtime_step dk)\<^sup>*\<^sup>* (runtime_new drive) st"
  shows "(root_manifest_record st snap = None \<longleftrightarrow> (\<forall>i. \<not> root_of st snap i))
    \<and> (\<forall>r. root_manifest_record st snap = Some r \<longrightarrow> fmlookup (rt_manifests st) (mr_manifest_id r) = Some r
          \<and> mr_is_root r \<and> mf_snapshot (mr_manifest r) = snap \<and> prefers st snap (mr_manifest_id r))"
proof -
  have ok: "manifests_ok dk st" using reachable_ok [OF assms] by (simp add: runtime_ok_def)
  show ?thesis
    using root_manifest_record_cases [OF ok, of snap] ok
    by (auto simp: root_of_def manifests_ok_def manifest_record_ok_def)
qed

theorem root_manifest_record_correct_witness:
  "\<exists>st r. (runtime_step (\<lambda>_ _. 7))\<^sup>*\<^sup>* (runtime_new (Ident 0)) st \<and> root_manifest_record st (Ident 1) = Some r
     \<and> mr_is_root r \<and> mf_snapshot (mr_manifest r) = Ident 1"
proof -
  let ?dk = "\<lambda>_ _. 7 :: array32"
  let ?st = "snd (record_manifest ?dk (sample_record ?dk) (runtime_new (Ident 0)))"
  have run: "(runtime_step ?dk)\<^sup>*\<^sup>* (runtime_new (Ident 0)) ?st"
    by (intro r_into_rtranclp runtime_step.intros)
  have "root_of ?st (Ident 1) (mr_manifest_id (sample_record ?dk))"
    by (simp add: root_of_def record_manifest_def insert_manifest_def sample_record_def Let_def runtime_new_def
        transport_is_represented_def)
  moreover note correct = root_manifest_record_correct [OF run, of "Ident 1"]
  ultimately obtain r where r: "root_manifest_record ?st (Ident 1) = Some r" by blast
  with correct have "mr_is_root r" "mf_snapshot (mr_manifest r) = Ident 1" by blast+
  with r run show ?thesis by blast
qed

end
