(* ===== verification/Wyrd_Plan.thy ===== *)
theory Wyrd_Plan
  imports Wyrd_Records
begin

text \<open>
  The fetch plan (\<open>reconcile\<close> of \<open>crates/wyrd-sync/src/runtime/state/materialization.rs\<close>): what a device still has to
  fetch is exactly what its recorded manifests name and it does not hold, and what arrives leaves the plan.
\<close>

section \<open>What is planned\<close>

definition records :: "runtime_state \<Rightarrow> manifest_record list" where
  "records st = map snd (sorted_list_of_fmap (rt_manifests st))"

definition recorded_entries :: "runtime_state \<Rightarrow> manifest_entry list" where
  "recorded_entries st = concat (map (\<lambda>r. mf_entries (mr_manifest r)) (records st))"

definition recorded_children :: "runtime_state \<Rightarrow> child_manifest list" where
  "recorded_children st = concat (map (\<lambda>r. mf_children (mr_manifest r)) (records st))"

lemma fold_concat_map: "fold f (concat (map g xs)) s = fold (\<lambda>x. fold f (g x)) xs s"
  by (induction xs arbitrary: s) simp_all

lemma reconcile_fields:
  "rc_pending_manifests (runtime_reconcile_of st) = fold (plan_child st) (recorded_children st) fmempty"
  "rc_pending_objects (runtime_reconcile_of st) = fold (plan_entry st) (recorded_entries st) fmempty"
  unfolding recorded_entries_def recorded_children_def fold_concat_map records_def
  by (simp_all add: runtime_reconcile_of_def Let_def)

lemma set_records: "r \<in> set (records st) \<longleftrightarrow> (\<exists>i. fmlookup (rt_manifests st) i = Some r)"
  by (force simp: records_def sorted_list_of_fmap_def fmlookup_dom_iff image_iff)

lemma plan_child_fold:
  "fmlookup (fold (plan_child st) cs m) i = (case fmlookup m i of
     Some c \<Rightarrow> Some c
   | None \<Rightarrow> if fmlookup (rt_manifests st) i \<noteq> None then None else List.find (\<lambda>c. cm_manifest c = i) cs)"
  by (induction cs arbitrary: m) (auto simp: plan_child_def split: option.splits)

text \<open>The candidates of one object, each mapping once, in the order of the manifests.\<close>

definition add_candidate :: "pending_object_fetch \<Rightarrow> pending_object_fetch list \<Rightarrow> pending_object_fetch list" where
  "add_candidate c cs = (if c \<in> set cs then cs else cs @ [c])"

definition wanted_at :: "runtime_state \<Rightarrow> content_id \<Rightarrow> manifest_entry list \<Rightarrow> manifest_entry list" where
  "wanted_at st i es = filter (\<lambda>e. me_content_id e = i \<and> wanted st e) es"

definition candidates :: "(content_id, pending_object_fetch list) fmap \<Rightarrow> content_id \<Rightarrow> pending_object_fetch list" where
  "candidates m i = (case fmlookup m i of Some cs \<Rightarrow> cs | None \<Rightarrow> [])"

lemma plan_entry_fold:
  "fmlookup (fold (plan_entry st) es m) i =
    (if wanted_at st i es = [] then fmlookup m i
     else Some (fold (\<lambda>e. add_candidate (fetch_candidate e)) (wanted_at st i es) (candidates m i)))"
proof (induction es arbitrary: m)
  case (Cons e es)
  show ?case
  proof (cases "me_content_id e = i \<and> wanted st e")
    case True
    then have upd: "plan_entry st e m = fmupd i (add_candidate (fetch_candidate e) (candidates m i)) m"
      by (simp add: plan_entry_def candidates_def add_candidate_def Let_def)
    have w: "wanted_at st i (e # es) = e # wanted_at st i es" using True by (simp add: wanted_at_def)
    show ?thesis using Cons.IH [of "plan_entry st e m"] by (simp add: upd w candidates_def)
  next
    case False
    then have same: "fmlookup (plan_entry st e m) i = fmlookup m i" by (auto simp: plan_entry_def Let_def)
    have w: "wanted_at st i (e # es) = wanted_at st i es" using False by (simp add: wanted_at_def)
    show ?thesis using Cons.IH [of "plan_entry st e m"] by (simp add: same w candidates_def)
  qed
qed (simp add: wanted_at_def)

lemma pending_object_lookup:
  "fmlookup (rc_pending_objects (runtime_reconcile_of st)) i =
    (if wanted_at st i (recorded_entries st) = [] then None
     else Some (fold (\<lambda>e. add_candidate (fetch_candidate e)) (wanted_at st i (recorded_entries st)) []))"
  by (simp add: reconcile_fields plan_entry_fold candidates_def)

lemma planned_candidates:
  "candidates (rc_pending_objects (runtime_reconcile_of st)) i =
    fold (\<lambda>e. add_candidate (fetch_candidate e)) (wanted_at st i (recorded_entries st)) []"
  by (simp add: candidates_def pending_object_lookup)

lemma in_pending_manifests:
  "c |\<in>| fmdom (rc_pending_manifests (runtime_reconcile_of st)) \<longleftrightarrow>
    c \<in> cm_manifest ` set (recorded_children st) \<and> fmlookup (rt_manifests st) c = None"
  by (auto simp: fmlookup_dom_iff reconcile_fields plan_child_fold find_Some_iff find_None_iff image_iff
      simp del: not_None_eq simp flip: not_None_eq)

lemma in_recorded_children:
  "l \<in> set (recorded_children st) \<longleftrightarrow> (\<exists>i r. fmlookup (rt_manifests st) i = Some r \<and> l \<in> set (mf_children (mr_manifest r)))"
proof -
  have "l \<in> set (recorded_children st) \<longleftrightarrow> (\<exists>r \<in> set (records st). l \<in> set (mf_children (mr_manifest r)))"
    by (simp add: recorded_children_def)
  then show ?thesis unfolding Bex_def set_records by blast
qed

lemma in_pending_objects:
  "i |\<in>| fmdom (rc_pending_objects (runtime_reconcile_of st)) \<longleftrightarrow>
    (\<exists>e. e \<in> set (recorded_entries st) \<and> me_content_id e = i \<and> wanted st e)"
  by (auto simp: fmlookup_dom_iff pending_object_lookup wanted_at_def filter_empty_conv)

lemma in_recorded_entries:
  "e \<in> set (recorded_entries st) \<longleftrightarrow> (\<exists>i r. fmlookup (rt_manifests st) i = Some r \<and> e \<in> set (mf_entries (mr_manifest r)))"
proof -
  have "e \<in> set (recorded_entries st) \<longleftrightarrow> (\<exists>r \<in> set (records st). e \<in> set (mf_entries (mr_manifest r)))"
    by (simp add: recorded_entries_def)
  then show ?thesis unfolding Bex_def set_records by blast
qed

text \<open>Adding candidates one by one keeps the first occurrence of each.\<close>

definition first_seen :: "'a list \<Rightarrow> 'a list" where
  "first_seen xs = rev (remdups (rev xs))"

lemma first_seen_snoc: "first_seen (xs @ [x]) = (if x \<in> set xs then first_seen xs else first_seen xs @ [x])"
  by (simp add: first_seen_def)

lemma first_seen_set [simp]: "set (first_seen xs) = set xs" "distinct (first_seen xs)"
  by (simp_all add: first_seen_def)

lemma add_candidate_first_seen: "fold (\<lambda>e. add_candidate (f e)) es [] = first_seen (map f es)"
proof (induction es rule: rev_induct)
  case (snoc e es)
  then show ?case by (auto simp: add_candidate_def first_seen_snoc)
qed (simp add: first_seen_def)

lemma planned_first_seen:
  "candidates (rc_pending_objects (runtime_reconcile_of st)) i =
    first_seen (map fetch_candidate (wanted_at st i (recorded_entries st)))"
  by (simp add: planned_candidates add_candidate_first_seen)

text \<open>When an entry is wanted, in terms of what the device holds and what was asked for.\<close>

lemma wanted_iff:
  "wanted st e \<longleftrightarrow> me_content_id e |\<notin>| rt_local_objects st
     \<and> (me_kind e = Tree \<or> fmlookup (rt_materialization st) (me_content_id e) \<in> {Some MCached, Some MPinned})"
  by (auto simp: wanted_def materialization_of_def split: option.splits intro: materialization_state.exhaust)

lemma candidate_iff:
  "p \<in> set (candidates (rc_pending_objects (runtime_reconcile_of st)) i) \<longleftrightarrow>
    (\<exists>e. e \<in> set (recorded_entries st) \<and> me_content_id e = i \<and> wanted st e \<and> p = fetch_candidate e)"
  by (auto simp: planned_first_seen wanted_at_def)

text \<open>Representations that differ only in their transport root or size are kept apart.\<close>

lemma representations_kept_apart:
  assumes "e \<in> set (recorded_entries st)" "e' \<in> set (recorded_entries st)" "me_content_id e = i" "me_content_id e' = i"
    and "wanted st e" "wanted st e'" "me_transport e \<noteq> me_transport e' \<or> me_size e \<noteq> me_size e'"
  shows "length (candidates (rc_pending_objects (runtime_reconcile_of st)) i) \<ge> 2"
proof -
  let ?cs = "candidates (rc_pending_objects (runtime_reconcile_of st)) i"
  have "fetch_candidate e \<in> set ?cs" "fetch_candidate e' \<in> set ?cs" unfolding candidate_iff using assms by blast+
  then have "{fetch_candidate e, fetch_candidate e'} \<subseteq> set ?cs" by blast
  moreover have "fetch_candidate e \<noteq> fetch_candidate e'" using assms(7) by (auto simp: fetch_candidate_def)
  ultimately have "2 \<le> card (set ?cs)" by (metis List.finite_set card_2_iff card_mono)
  then show ?thesis using card_length [of ?cs] by linarith
qed

text \<open>
  C24. The fetch plan asks for exactly what is missing.  A manifest is planned when some recorded manifest
  lists it as a child and it is not recorded itself.  An object is planned when it is not held and some recorded
  manifest maps it as a tree, or maps it at all while it is to be cached or pinned.  Its candidates are those
  mappings with all their fields, each once and in the order of the manifests, so mappings that differ in the
  transport root or the size alone are two candidates.  A snapshot is planned when it is announced and its root, or
  its body, is not recorded.
\<close>

theorem fetch_plan_exact:
  shows "(c |\<in>| fmdom (rc_pending_manifests (runtime_reconcile_of st)) \<longleftrightarrow>
        (\<exists>j r l. fmlookup (rt_manifests st) j = Some r \<and> l \<in> set (mf_children (mr_manifest r)) \<and> cm_manifest l = c)
        \<and> fmlookup (rt_manifests st) c = None)
    \<and> (i |\<in>| fmdom (rc_pending_objects (runtime_reconcile_of st)) \<longleftrightarrow>
        (\<exists>j r e. fmlookup (rt_manifests st) j = Some r \<and> e \<in> set (mf_entries (mr_manifest r)) \<and> me_content_id e = i
          \<and> i |\<notin>| rt_local_objects st
          \<and> (me_kind e = Tree \<or> fmlookup (rt_materialization st) i \<in> {Some MCached, Some MPinned})))
    \<and> candidates (rc_pending_objects (runtime_reconcile_of st)) i =
        first_seen [\<lparr>pf_content_id = i, pf_storage_id = me_storage_id e, pf_transport = me_transport e, pf_kind = me_kind e,
            pf_version = me_version e, pf_encryption_epoch = me_encryption_epoch e, pf_size = me_size e\<rparr>.
          e \<leftarrow> recorded_entries st, me_content_id e = i \<and> i |\<notin>| rt_local_objects st
            \<and> (me_kind e = Tree \<or> fmlookup (rt_materialization st) i \<in> {Some MCached, Some MPinned})]
    \<and> (snap |\<in>| rc_pending_snapshots (runtime_reconcile_of st) \<longleftrightarrow>
        snap |\<in>| fmdom (rt_announcements st) \<and> fmlookup (rt_root_manifests_by_snapshot st) snap = None)
    \<and> (snap |\<in>| rc_pending_snapshot_bodies (runtime_reconcile_of st) \<longleftrightarrow>
        snap |\<in>| fmdom (rt_announcements st) \<and> fmlookup (rt_snapshot_bodies st) snap = None)"
    (is "?manifests \<and> ?objects \<and> _ = first_seen ?offers \<and> ?roots \<and> ?bodies")
proof (intro conjI)
  show ?manifests unfolding in_pending_manifests image_iff Bex_def in_recorded_children by blast
  show ?objects unfolding in_pending_objects in_recorded_entries wanted_iff by blast
  have "map fetch_candidate (wanted_at st i es) = [\<lparr>pf_content_id = i, pf_storage_id = me_storage_id e,
      pf_transport = me_transport e, pf_kind = me_kind e, pf_version = me_version e,
      pf_encryption_epoch = me_encryption_epoch e, pf_size = me_size e\<rparr>.
      e \<leftarrow> es, me_content_id e = i \<and> i |\<notin>| rt_local_objects st
        \<and> (me_kind e = Tree \<or> fmlookup (rt_materialization st) i \<in> {Some MCached, Some MPinned})]" for es
    by (induction es) (auto simp: wanted_at_def wanted_iff fetch_candidate_def)
  then show "candidates (rc_pending_objects (runtime_reconcile_of st)) i = first_seen ?offers"
    unfolding planned_first_seen by simp
qed (auto simp: runtime_reconcile_of_def Let_def)

section \<open>Fetching the plan\<close>

lemma mark_local_frame:
  "rt_manifests (snd (mark_local_object i st)) = rt_manifests st"
  "wanted (snd (mark_local_object i st)) e \<longleftrightarrow> wanted st e \<and> me_content_id e \<noteq> i"
  by (auto simp: mark_local_object_def wanted_def materialization_of_def)

lemma pending_objects_mark_local:
  "rc_pending_objects (runtime_reconcile_of (snd (mark_local_object i st))) =
    fmdrop i (rc_pending_objects (runtime_reconcile_of st))"
proof (rule fmap_ext)
  fix j
  have e: "recorded_entries (snd (mark_local_object i st)) = recorded_entries st"
    by (simp add: recorded_entries_def records_def mark_local_frame)
  have "wanted_at (snd (mark_local_object i st)) j es = (if j = i then [] else wanted_at st j es)" for es
    by (auto simp: wanted_at_def mark_local_frame intro: filter_cong)
  then show "fmlookup (rc_pending_objects (runtime_reconcile_of (snd (mark_local_object i st)))) j =
      fmlookup (fmdrop i (rc_pending_objects (runtime_reconcile_of st))) j"
    by (simp add: pending_object_lookup e)
qed

definition fetch_all :: "content_id list \<Rightarrow> runtime_state \<Rightarrow> runtime_state" where
  "fetch_all ids = fold (\<lambda>i st. snd (mark_local_object i st)) ids"

lemma pending_objects_fetch_all:
  "rc_pending_objects (runtime_reconcile_of (fetch_all ids st)) =
    fmdrop_set (set ids) (rc_pending_objects (runtime_reconcile_of st))"
proof (induction ids arbitrary: st)
  case (Cons i ids)
  then show ?case
    by (intro fmap_ext) (simp add: fetch_all_def pending_objects_mark_local)
qed (simp add: fetch_all_def)

lemma local_fetch_all: "rt_local_objects (fetch_all ids st) = rt_local_objects st |\<union>| fset_of_list ids"
  by (induction ids arbitrary: st) (auto simp: fetch_all_def mark_local_object_def)

lemma fetch_all_frame:
  "rt_manifests (fetch_all ids st) = rt_manifests st" "rt_announcements (fetch_all ids st) = rt_announcements st"
  "rt_root_manifests_by_snapshot (fetch_all ids st) = rt_root_manifests_by_snapshot st"
  "rt_snapshot_bodies (fetch_all ids st) = rt_snapshot_bodies st" "rt_materialization (fetch_all ids st) = rt_materialization st"
  by (induction ids arbitrary: st) (simp_all add: fetch_all_def mark_local_object_def)

lemma fmfilter_empty_iff: "fmfilter P m = fmempty \<longleftrightarrow> (\<forall>i. i |\<in>| fmdom m \<longrightarrow> \<not> P i)"
proof
  show "\<forall>i. i |\<in>| fmdom m \<longrightarrow> \<not> P i" if "fmfilter P m = fmempty"
    using arg_cong [OF that, of fmdom] by auto
  show "fmfilter P m = fmempty" if "\<forall>i. i |\<in>| fmdom m \<longrightarrow> \<not> P i"
    using that by (intro fmap_ext) (auto simp: fmlookup_dom_iff)
qed

lemma plan_child_frame: "rt_manifests st' = rt_manifests st \<Longrightarrow> plan_child st' = plan_child st"
  by (simp add: fun_eq_iff plan_child_def)

text \<open>
  C25. Fetching makes progress and ends.  When objects arrive, in any order and with repeats, exactly those
  leave the plan: every other planned object stays with the same candidates, the planned manifests, snapshots and
  bodies stay as they are, and an object's status changes, to available, only if it arrived.  So the objects' part of the plan is
  empty exactly when everything in it has arrived.
\<close>

theorem fetching_empties_plan:
  shows "rc_pending_objects (runtime_reconcile_of (fetch_all ids st)) =
      fmfilter (\<lambda>i. i \<notin> set ids) (rc_pending_objects (runtime_reconcile_of st))
    \<and> rc_pending_manifests (runtime_reconcile_of (fetch_all ids st)) = rc_pending_manifests (runtime_reconcile_of st)
    \<and> rc_pending_snapshots (runtime_reconcile_of (fetch_all ids st)) = rc_pending_snapshots (runtime_reconcile_of st)
    \<and> rc_pending_snapshot_bodies (runtime_reconcile_of (fetch_all ids st)) = rc_pending_snapshot_bodies (runtime_reconcile_of st)
    \<and> runtime_status (fetch_all ids st) i = (if i \<in> set ids then Available else runtime_status st i)
    \<and> (rc_pending_objects (runtime_reconcile_of (fetch_all ids st)) = fmempty \<longleftrightarrow>
        fset (fmdom (rc_pending_objects (runtime_reconcile_of st))) \<subseteq> set ids)"
    (is "?left \<and> ?manifests \<and> ?snapshots \<and> ?bodies \<and> ?status \<and> ?ends")
proof (intro conjI)
  show ?left by (intro fmap_ext) (simp add: pending_objects_fetch_all)
  then show ?ends by (auto simp: fmfilter_empty_iff)
  show ?manifests
    by (simp add: reconcile_fields recorded_children_def records_def fetch_all_frame plan_child_frame [OF fetch_all_frame(1)])
  show ?status
    by (simp add: runtime_status_def is_local_def materialization_of_def local_fetch_all fetch_all_frame fset_of_list_elem)
qed (simp_all add: runtime_reconcile_of_def Let_def fetch_all_frame)

end
