(* ===== verification/Wyrd_Ingest.thy ===== *)
theory Wyrd_Ingest
  imports Wyrd_Chunk Wyrd_Tree Wyrd_Transition Wyrd_Manifest
begin

text \<open>
  Ingest limits (\<open>crates/wyrd-sync/src/ingest.rs\<close>): the table of ceilings, the total-length gate before
  an envelope is decoded, and the structural counts checked on decoded objects.
\<close>

section \<open>The table\<close>

record limits =
  lm_max_object_bytes :: nat
  lm_max_chunk_bytes :: nat
  lm_max_snapshot_parents :: nat
  lm_max_tree_entries :: nat
  lm_max_file_name_bytes :: nat
  lm_max_symlink_bytes :: nat
  lm_max_file_chunks :: nat
  lm_max_membership_changes :: nat
  lm_max_resolves :: nat
  lm_max_set_owners :: nat
  lm_max_manifest_entries :: nat
  lm_max_manifest_children :: nat

definition LIMITS_V0 :: limits where
  "LIMITS_V0 = \<lparr>lm_max_object_bytes = 64 * 2 ^ 20, lm_max_chunk_bytes = MAX_CHUNK + HEADER_LEN,
     lm_max_snapshot_parents = 64, lm_max_tree_entries = 1000000, lm_max_file_name_bytes = 1024,
     lm_max_symlink_bytes = 4096, lm_max_file_chunks = 65536, lm_max_membership_changes = 64,
     lm_max_resolves = 64, lm_max_set_owners = 16, lm_max_manifest_entries = 580000,
     lm_max_manifest_children = 1000000\<rparr>"

datatype ingest_error =
    TooLarge string nat nat
  | TooMany string nat nat
  | BadEnvelope envelope_error

section \<open>The checks\<close>

definition check_count :: "nat \<Rightarrow> string \<Rightarrow> nat \<Rightarrow> ingest_error + unit" where
  "check_count max_allowed what n = (if n > max_allowed then Inl (TooMany what n max_allowed) else Inr ())"

definition check_total_len :: "limits \<Rightarrow> string \<Rightarrow> nat \<Rightarrow> ingest_error + unit" where
  "check_total_len limits what len =
    (if len > lm_max_object_bytes limits then Inl (TooLarge what len (lm_max_object_bytes limits)) else Inr ())"

definition accept_envelope :: "limits \<Rightarrow> bytes \<Rightarrow> ingest_error + envelope" where
  "accept_envelope limits bs =
    result_bind (check_total_len limits ''object'' (length bs)) (\<lambda>_.
    result_bind (map_err BadEnvelope (envelope_decode bs)) (\<lambda>e.
    if env_kind e = Chunk \<and> length bs > lm_max_chunk_bytes limits
    then Inl (TooLarge ''chunk'' (length bs) (lm_max_chunk_bytes limits)) else Inr e))"

definition check_snapshot :: "limits \<Rightarrow> snapshot \<Rightarrow> ingest_error + unit" where
  "check_snapshot limits s = check_count (lm_max_snapshot_parents limits) ''snapshot parents'' (length (sn_parents s))"

definition check_entry :: "limits \<Rightarrow> tree_entry \<Rightarrow> ingest_error + unit" where
  "check_entry limits e =
    result_bind (check_count (lm_max_file_name_bytes limits) ''path component bytes'' (length (as_str (en_name e)))) (\<lambda>_.
    case en_content e of
      File _ _ chunks \<Rightarrow> check_count (lm_max_file_chunks limits) ''file chunks'' (length chunks)
    | Symlink target \<Rightarrow> check_count (lm_max_symlink_bytes limits) ''symlink bytes'' (length target)
    | Dir _ \<Rightarrow> Inr ())"

fun check_each :: "('a \<Rightarrow> 'e + unit) \<Rightarrow> 'a list \<Rightarrow> 'e + unit" where
  "check_each f [] = Inr ()"
| "check_each f (x # xs) = result_bind (f x) (\<lambda>_. check_each f xs)"

definition check_tree :: "limits \<Rightarrow> tree_node \<Rightarrow> ingest_error + unit" where
  "check_tree limits t =
    result_bind (check_count (lm_max_tree_entries limits) ''tree entries'' (length (tn_entries t))) (\<lambda>_.
    check_each (check_entry limits) (tn_entries t))"

definition check_chunk_len :: "limits \<Rightarrow> nat \<Rightarrow> ingest_error + unit" where
  "check_chunk_len limits payload_len =
    (let max_len = lm_max_chunk_bytes limits - HEADER_LEN in
     if payload_len > max_len then Inl (TooLarge ''chunk'' payload_len max_len) else Inr ())"

definition check_change :: "limits \<Rightarrow> change \<Rightarrow> ingest_error + unit" where
  "check_change limits c =
    (case c of SetOwners owners \<Rightarrow> check_count (lm_max_set_owners limits) ''set owners'' (length owners) | _ \<Rightarrow> Inr ())"

definition check_transition :: "limits \<Rightarrow> membership_transition \<Rightarrow> ingest_error + unit" where
  "check_transition limits t =
    result_bind (check_count (lm_max_resolves limits) ''resolves'' (length (mt_resolves t))) (\<lambda>_.
    result_bind (check_count (lm_max_membership_changes limits) ''membership changes'' (length (mt_changes t))) (\<lambda>_.
    check_each (check_change limits) (mt_changes t)))"

definition check_manifest :: "limits \<Rightarrow> manifest \<Rightarrow> ingest_error + unit" where
  "check_manifest limits m =
    result_bind (check_count (lm_max_manifest_entries limits) ''manifest entries'' (length (mf_entries m))) (\<lambda>_.
    check_count (lm_max_manifest_children limits) ''manifest children'' (length (mf_children m)))"

section \<open>What an accepted object satisfies\<close>

lemma check_count_Inr [result_simps]: "check_count m what n = Inr u \<longleftrightarrow> n \<le> m"
  by (auto simp: check_count_def)

lemma check_each_Inr [result_simps]: "check_each f xs = Inr u \<longleftrightarrow> (\<forall>x \<in> set xs. f x = Inr ())"
  by (induction xs) (auto simp: result_simps)

lemma check_entry_Inr [result_simps]:
  "check_entry limits e = Inr u \<longleftrightarrow> length (as_str (en_name e)) \<le> lm_max_file_name_bytes limits
    \<and> (case en_content e of
        File _ _ chunks \<Rightarrow> length chunks \<le> lm_max_file_chunks limits
      | Symlink target \<Rightarrow> length target \<le> lm_max_symlink_bytes limits
      | Dir _ \<Rightarrow> True)"
  by (auto simp: check_entry_def result_simps split: entry_content.splits)

text \<open>A chunk envelope that is accepted carries a payload within the payload ceiling.\<close>

lemma accepted_chunk_fits:
  assumes "accept_envelope limits bs = Inr e" "env_kind e = Chunk" "HEADER_LEN \<le> lm_max_chunk_bytes limits"
  shows "check_chunk_len limits (length (env_payload e)) = Inr ()"
proof -
  from assms have "envelope_decode bs = Inr e" and len: "length bs \<le> lm_max_chunk_bytes limits"
    by (auto simp: accept_envelope_def result_simps split: if_splits)
  then have "bs = envelope_encode e" using envelope_decode_sound by metis
  with len assms(3) show ?thesis
    by (simp add: check_chunk_len_def Let_def envelope_encode_def HEADER_LEN_def MAGIC_def ascii_def)
qed

text \<open>
  The ceiling on manifest entries fits the object ceiling; the ceiling on children does not: a manifest
  with that many children is longer than any object that is let in.
\<close>

lemma manifest_length:
  assumes "length (mf_entries m) \<le> U32_MAX" "length (mf_children m) \<le> U32_MAX"
  shows "length (manifest_canonical_bytes m) = 40 + length (mf_entries m) * 114 + length (mf_children m) * 128"
proof -
  have "length (concat (map manifest_entry_encode es)) = length es * 114" for es
    by (induction es) (simp_all add: manifest_entry_encode_def)
  moreover have "length (concat (map child_bytes cs)) = length cs * 128" for cs
    by (induction cs) (simp_all add: child_bytes_def)
  ultimately show ?thesis using assms by (simp add: manifest_canonical_bytes_def length_u32_le)
qed

lemma manifest_entries_encodable:
  "length (mf_entries m) \<le> lm_max_manifest_entries LIMITS_V0 \<Longrightarrow> mf_children m = [] \<Longrightarrow>
    check_total_len LIMITS_V0 what (length (manifest_canonical_bytes m)) = Inr ()"
  by (simp add: manifest_length LIMITS_V0_def check_total_len_def U32_MAX_def)

lemma manifest_children_not_encodable:
  assumes "length (mf_children m) = lm_max_manifest_children LIMITS_V0" "length (mf_entries m) \<le> U32_MAX"
  shows "check_manifest LIMITS_V0 (m\<lparr>mf_entries := []\<rparr>) = Inr ()"
    and "\<exists>e. check_total_len LIMITS_V0 what (length (manifest_canonical_bytes m)) = Inl e"
  using assms by (simp_all add: manifest_length LIMITS_V0_def check_total_len_def U32_MAX_def check_manifest_def result_simps)

end
