(* ===== verification/Wyrd_Closure.thy ===== *)
theory Wyrd_Closure
  imports Wyrd_Plan Wyrd_Ingest Wyrd_Store
begin

text \<open>
  Closure verification (\<open>crates/wyrd-sync/src/closure.rs\<close>): the walk that pairs every tree reachable from a
  snapshot with the one manifest that declares it, and checks that both describe the same content.
\<close>

section \<open>Verdicts\<close>

text \<open>A store failure carries its class and the error whose rendering the source keeps.\<close>

datatype 'e closure_error =
    RootSnapshotMismatch snapshot_id snapshot_id
  | RootManifestMissing snapshot_id
  | RootIdentityMismatch content_id content_id
  | ChildIdentityMismatch content_id content_id
  | NonCanonicalManifest
  | TreeUnavailable content_id
  | TreeIdentityMismatch content_id
  | InvalidTree content_id
  | AmbiguousTreeMapping content_id content_id content_id
  | MissingChildManifest content_id content_id
  | MissingChildManifestRecord content_id content_id
  | ChildSnapshotMismatch content_id
  | UnexpectedChildManifest content_id content_id
  | MissingChunkEntry content_id content_id
  | UnrelatedEntry content_id
  | KindMismatch content_id object_kind object_kind
  | TreeEntrySizeMismatch content_id u64 u64
  | ClosureIngest ingest_error
  | ClosureStore store_failure 'e

datatype rejection_class = Incomplete | IdentityMismatchClass | OtherClass

fun is_pending :: "'e closure_error \<Rightarrow> bool" where
  "is_pending (RootManifestMissing _) = True"
| "is_pending (TreeUnavailable _) = True"
| "is_pending (MissingChildManifestRecord _ _) = True"
| "is_pending _ = False"

fun rejection_class_of :: "'e closure_error \<Rightarrow> rejection_class option" where
  "rejection_class_of (RootIdentityMismatch _ _) = Some IdentityMismatchClass"
| "rejection_class_of (ChildIdentityMismatch _ _) = Some IdentityMismatchClass"
| "rejection_class_of (TreeIdentityMismatch _) = Some IdentityMismatchClass"
| "rejection_class_of (RootManifestMissing _) = Some Incomplete"
| "rejection_class_of (TreeUnavailable _) = Some Incomplete"
| "rejection_class_of (MissingChildManifestRecord _ _) = Some Incomplete"
| "rejection_class_of (ClosureStore _ _) = None"
| "rejection_class_of _ = Some OtherClass"

section \<open>The walk\<close>

text \<open>What the verifier reads: the hash, the object store and the class of its errors, the manifests by id, and the limits.\<close>

record 'e closure_inputs =
  ci_derive :: kdf
  ci_get :: "content_id \<Rightarrow> 'e + bytes option"
  ci_failure :: "'e \<Rightarrow> store_failure"
  ci_manifest :: "content_id \<Rightarrow> manifest option"
  ci_limits :: limits

record closure_walk =
  cw_mapping :: "(content_id, content_id) fmap"
  cw_stack :: "(content_id \<times> manifest) list"
  cw_tree_sizes :: "(content_id, u64) fmap"
  cw_chunks :: "content_id fset"
  cw_visited :: "manifest list"

definition check_canonical :: "manifest \<Rightarrow> 'e closure_error + unit" where
  "check_canonical m =
    (if \<not> entries_ascending (mf_entries m) then Inl NonCanonicalManifest
     else if \<not> children_ascending (mf_children m) then Inl NonCanonicalManifest else Inr ())"

definition manifest_identity :: "kdf \<Rightarrow> manifest \<Rightarrow> content_id" where
  "manifest_identity dk m = content_derive dk Manifest (manifest_canonical_bytes m)"

definition load_closure_tree :: "'e closure_inputs \<Rightarrow> content_id \<Rightarrow> 'e closure_error + bytes \<times> tree_node" where
  "load_closure_tree ci tree_id =
    (case ci_get ci tree_id of
       Inl e \<Rightarrow> Inl (ClosureStore (ci_failure ci e) e)
     | Inr None \<Rightarrow> Inl (TreeUnavailable tree_id)
     | Inr (Some bytes) \<Rightarrow>
         if content_derive (ci_derive ci) Tree bytes \<noteq> tree_id then Inl (TreeIdentityMismatch tree_id)
         else (case tree_decode bytes of
             Inl _ \<Rightarrow> Inl (InvalidTree tree_id)
           | Inr tree \<Rightarrow> result_bind (map_err ClosureIngest (check_tree (ci_limits ci) tree)) (\<lambda>_. Inr (bytes, tree))))"

text \<open>The lookups are \<open>BTreeMap\<close>s collected from the lists: of two items with one key the later stays.\<close>

definition entry_lookup :: "manifest \<Rightarrow> (content_id, manifest_entry) fmap" where
  "entry_lookup m = fmap_of_list (rev (map (\<lambda>e. (me_content_id e, e)) (mf_entries m)))"

definition link_lookup :: "manifest \<Rightarrow> (content_id, child_manifest) fmap" where
  "link_lookup m = fmap_of_list (rev (map (\<lambda>l. (cm_tree l, l)) (mf_children m)))"

definition check_chunk :: "manifest \<Rightarrow> content_id \<Rightarrow> content_id \<Rightarrow> 'e closure_error + unit" where
  "check_chunk m tree_id chunk =
    (case fmlookup (entry_lookup m) chunk of
       None \<Rightarrow> Inl (MissingChunkEntry tree_id chunk)
     | Some declared \<Rightarrow> if me_kind declared \<noteq> Chunk then Inl (KindMismatch chunk Chunk (me_kind declared)) else Inr ())"

fun scan_entries ::
  "manifest \<Rightarrow> content_id \<Rightarrow> tree_entry list \<Rightarrow> content_id fset \<Rightarrow> content_id fset
    \<Rightarrow> 'e closure_error + content_id fset \<times> content_id fset" where
  "scan_entries m tree_id [] chunks directories = Inr (chunks, directories)"
| "scan_entries m tree_id (entry # entries) chunks directories =
    (case en_content entry of
       File _ _ ids \<Rightarrow> result_bind (check_each (check_chunk m tree_id) ids) (\<lambda>_.
         scan_entries m tree_id entries (chunks |\<union>| fset_of_list ids) directories)
     | Dir subtree \<Rightarrow> scan_entries m tree_id entries chunks (finsert subtree directories)
     | Symlink _ \<Rightarrow> scan_entries m tree_id entries chunks directories)"

definition check_link :: "content_id \<Rightarrow> content_id fset \<Rightarrow> child_manifest \<Rightarrow> 'e closure_error + unit" where
  "check_link tree_id directories link =
    (if cm_tree link |\<notin>| directories then Inl (UnexpectedChildManifest tree_id (cm_tree link)) else Inr ())"

definition accept_child ::
  "'e closure_inputs \<Rightarrow> snapshot_id \<Rightarrow> content_id \<Rightarrow> child_manifest \<Rightarrow> 'e closure_error + manifest" where
  "accept_child ci snap subtree link =
    (case ci_manifest ci (cm_manifest link) of
       None \<Rightarrow> Inl (MissingChildManifestRecord subtree (cm_manifest link))
     | Some child \<Rightarrow>
         result_bind (check_canonical child) (\<lambda>_.
         let derived = manifest_identity (ci_derive ci) child in
         if derived \<noteq> cm_manifest link then Inl (ChildIdentityMismatch (cm_manifest link) derived)
         else if mf_snapshot child \<noteq> snap then Inl (ChildSnapshotMismatch (cm_manifest link))
         else result_bind (map_err ClosureIngest (check_manifest (ci_limits ci) child)) (\<lambda>_. Inr child)))"

fun link_directories ::
  "'e closure_inputs \<Rightarrow> snapshot_id \<Rightarrow> content_id \<Rightarrow> manifest \<Rightarrow> content_id list \<Rightarrow> (content_id, content_id) fmap
    \<Rightarrow> (content_id \<times> manifest) list \<Rightarrow> 'e closure_error + (content_id, content_id) fmap \<times> (content_id \<times> manifest) list" where
  "link_directories ci snap tree_id m [] mapping stack = Inr (mapping, stack)"
| "link_directories ci snap tree_id m (subtree # subtrees) mapping stack =
    (case fmlookup (link_lookup m) subtree of
       None \<Rightarrow> Inl (MissingChildManifest tree_id subtree)
     | Some link \<Rightarrow>
         (case fmlookup mapping subtree of
            Some existing \<Rightarrow>
              if existing \<noteq> cm_manifest link then Inl (AmbiguousTreeMapping subtree existing (cm_manifest link))
              else link_directories ci snap tree_id m subtrees mapping stack
          | None \<Rightarrow>
              (case accept_child ci snap subtree link of
                 Inl e \<Rightarrow> Inl e
               | Inr child \<Rightarrow>
                   link_directories ci snap tree_id m subtrees (fmupd subtree (cm_manifest link) mapping)
                     ((subtree, child) # stack))))"

text \<open>One turn of the loop, the popped pair off the stack already; the head of the list is the top.\<close>

definition visit ::
  "'e closure_inputs \<Rightarrow> snapshot_id \<Rightarrow> content_id \<Rightarrow> manifest \<Rightarrow> closure_walk \<Rightarrow> 'e closure_error + closure_walk" where
  "visit ci snap tree_id m w =
    result_bind (load_closure_tree ci tree_id) (\<lambda>(bytes, tree).
    result_bind (scan_entries m tree_id (tn_entries tree) (cw_chunks w) {||}) (\<lambda>(chunks, directories).
    result_bind (check_each (check_link tree_id directories) (mf_children m)) (\<lambda>_.
    result_bind (link_directories ci snap tree_id m (sorted_list_of_fset directories) (cw_mapping w) (cw_stack w)) (\<lambda>(mapping, stack).
    Inr \<lparr>cw_mapping = mapping, cw_stack = stack,
      cw_tree_sizes = fmupd tree_id (word_of_nat (length bytes)) (cw_tree_sizes w), cw_chunks = chunks,
      cw_visited = cw_visited w @ [m]\<rparr>))))"

text \<open>
  The loop ends because every push enters a new tree into the mapping and there are finitely many ids: a
  turn takes one pair off the stack and pushes as many as it adds to the mapping.
\<close>

lemma finite_ids: "finite (UNIV :: 'k ident set)"
proof -
  have "surj (Ident :: array32 \<Rightarrow> 'k ident)" by (metis ident.collapse surjI)
  then show ?thesis by (metis finite finite_surj subset_UNIV)
qed

lemma link_directories_size:
  "link_directories ci snap tree_id m subtrees mapping stack = Inr (mapping', stack') \<Longrightarrow>
   fcard (fmdom mapping') + length stack = fcard (fmdom mapping) + length stack'"
proof (induction ci snap tree_id m subtrees mapping stack rule: link_directories.induct)
  case (2 ci snap tree_id m subtree subtrees mapping stack)
  from "2.prems" obtain link where l: "fmlookup (link_lookup m) subtree = Some link"
    by (auto split: option.splits)
  show ?case
  proof (cases "fmlookup mapping subtree")
    case None
    with "2.prems" l obtain child where c: "accept_child ci snap subtree link = Inr child" by (auto split: sum.splits)
    then have "fcard (fmdom mapping') + length ((subtree, child) # stack) =
        fcard (fmdom (fmupd subtree (cm_manifest link) mapping)) + length stack'"
      using "2.prems" l None by (intro "2.IH"(1) [OF l None c]) simp
    with None show ?thesis by (simp add: fcard_finsert_disjoint fmdom_notI)
  qed (use 2 l in \<open>auto split: if_splits\<close>)
qed simp

definition room :: "closure_walk \<Rightarrow> nat" where
  "room w = card (UNIV :: content_id set) - fcard (fmdom (cw_mapping w)) + length (cw_stack w)"

lemma fcard_le_ids: "fcard (S :: content_id fset) \<le> card (UNIV :: content_id set)"
  by (simp add: fcard.rep_eq card_mono finite_ids)

lemma visit_room:
  assumes "visit ci snap tree_id m (w\<lparr>cw_stack := stack\<rparr>) = Inr w'" "cw_stack w = (tree_id, m) # stack"
  shows "room w' < room w"
proof -
  obtain subtrees where "link_directories ci snap tree_id m subtrees (cw_mapping w) stack = Inr (cw_mapping w', cw_stack w')"
    using assms(1) by (auto simp: visit_def result_simps)
  from link_directories_size [OF this] fcard_le_ids [of "fmdom (cw_mapping w)"] fcard_le_ids [of "fmdom (cw_mapping w')"]
  show ?thesis using assms(2) by (simp add: room_def)
qed

function walk_closure :: "'e closure_inputs \<Rightarrow> snapshot_id \<Rightarrow> closure_walk \<Rightarrow> 'e closure_error + closure_walk" where
  "walk_closure ci snap w =
    (case cw_stack w of
       [] \<Rightarrow> Inr w
     | (tree_id, m) # stack \<Rightarrow>
         (case visit ci snap tree_id m (w\<lparr>cw_stack := stack\<rparr>) of Inl e \<Rightarrow> Inl e | Inr w' \<Rightarrow> walk_closure ci snap w'))"
  by pat_completeness auto
termination
  by (relation "measure (\<lambda>(ci, snap, w). room w)") (auto intro: visit_room)

declare walk_closure.simps [simp del]

definition check_declared :: "closure_walk \<Rightarrow> manifest_entry \<Rightarrow> 'e closure_error + unit" where
  "check_declared w e =
    (let i = me_content_id e; is_chunk = (i |\<in>| cw_chunks w); is_tree = (i |\<in>| fmdom (cw_tree_sizes w)) in
     if \<not> is_chunk \<and> \<not> is_tree then Inl (UnrelatedEntry i)
     else if is_chunk \<and> me_kind e \<noteq> Chunk then Inl (KindMismatch i Chunk (me_kind e))
     else if is_tree then
       (if me_kind e \<noteq> Tree then Inl (KindMismatch i Tree (me_kind e))
        else let actual = (case fmlookup (cw_tree_sizes w) i of Some n \<Rightarrow> n | None \<Rightarrow> 0) in
          if me_size e \<noteq> actual then Inl (TreeEntrySizeMismatch i actual (me_size e)) else Inr ())
     else Inr ())"

definition walk_start :: "content_id \<Rightarrow> content_id \<Rightarrow> manifest \<Rightarrow> closure_walk" where
  "walk_start tree root_id root =
    \<lparr>cw_mapping = fmupd tree root_id fmempty, cw_stack = [(tree, root)], cw_tree_sizes = fmempty, cw_chunks = {||},
     cw_visited = []\<rparr>"

definition verify_snapshot_manifest ::
  "'e closure_inputs \<Rightarrow> snapshot \<Rightarrow> content_id \<Rightarrow> manifest \<Rightarrow> 'e closure_error + unit" where
  "verify_snapshot_manifest ci s root_id root =
    (let snap = snapshot_id_of (ci_derive ci) s; derived = manifest_identity (ci_derive ci) root in
     if mf_snapshot root \<noteq> snap then Inl (RootSnapshotMismatch snap (mf_snapshot root))
     else result_bind (check_canonical root) (\<lambda>_.
       if derived \<noteq> root_id then Inl (RootIdentityMismatch root_id derived)
       else result_bind (map_err ClosureIngest (check_manifest (ci_limits ci) root)) (\<lambda>_.
         result_bind (walk_closure ci snap (walk_start (sn_tree s) root_id root)) (\<lambda>w.
         check_each (\<lambda>m. check_each (check_declared w) (mf_entries m)) (cw_visited w)))))"

definition runtime_inputs ::
  "kdf \<Rightarrow> (content_id \<Rightarrow> 'e + bytes option) \<Rightarrow> ('e \<Rightarrow> store_failure) \<Rightarrow> runtime_state \<Rightarrow> limits \<Rightarrow> 'e closure_inputs" where
  "runtime_inputs dk get failure st limits =
    \<lparr>ci_derive = dk, ci_get = get, ci_failure = failure,
     ci_manifest = (\<lambda>i. map_option mr_manifest (manifest_record_of st i)), ci_limits = limits\<rparr>"

definition verify_head_closure ::
  "kdf \<Rightarrow> (content_id \<Rightarrow> 'e + bytes option) \<Rightarrow> ('e \<Rightarrow> store_failure) \<Rightarrow> runtime_state \<Rightarrow> limits \<Rightarrow> snapshot
    \<Rightarrow> 'e closure_error + unit" where
  "verify_head_closure dk get failure st limits s =
    (case root_manifest_record st (snapshot_id_of dk s) of
       None \<Rightarrow> Inl (RootManifestMissing (snapshot_id_of dk s))
     | Some root \<Rightarrow>
         verify_snapshot_manifest (runtime_inputs dk get failure st limits) s (mr_manifest_id root) (mr_manifest root))"

end
