(* ===== verification/Wyrd_Correspond.thy ===== *)
theory Wyrd_Correspond
  imports Wyrd_Closure
begin

text \<open>
  What a passed closure means: the reference definition of correspondence between the tree closure of a
  snapshot and its manifest closure, and that the verifier accepts exactly the corresponding pairs.
\<close>

section \<open>The reference definition\<close>

definition chunks_of :: "tree_entry list \<Rightarrow> content_id set" where
  "chunks_of es = {c. \<exists>e \<in> set es. \<exists>sz executable ids. en_content e = File sz executable ids \<and> c \<in> set ids}"

definition dirs_of :: "tree_entry list \<Rightarrow> content_id set" where
  "dirs_of es = {d. \<exists>e \<in> set es. en_content e = Dir d}"

text \<open>The tree stored under an id, when its bytes hash back, decode, and keep the limits.\<close>

definition tree_at :: "'e closure_inputs \<Rightarrow> content_id \<Rightarrow> bytes \<Rightarrow> tree_node \<Rightarrow> bool" where
  "tree_at ci i bytes tree \<longleftrightarrow> ci_get ci i = Inr (Some bytes) \<and> content_derive (ci_derive ci) Tree bytes = i
     \<and> tree_decode bytes = Inr tree \<and> check_tree (ci_limits ci) tree = Inr ()"

definition manifest_good :: "'e closure_inputs \<Rightarrow> snapshot_id \<Rightarrow> content_id \<Rightarrow> manifest \<Rightarrow> bool" where
  "manifest_good ci snap i m \<longleftrightarrow> entries_ascending (mf_entries m) \<and> children_ascending (mf_children m)
     \<and> manifest_identity (ci_derive ci) m = i \<and> mf_snapshot m = snap \<and> check_manifest (ci_limits ci) m = Inr ()"

text \<open>
  The joint closure: the root tree with the root manifest, and with a tree every directory of it under
  the manifest its own manifest links for it.  The root tree keeps the root manifest wherever it occurs.
\<close>

definition claimed :: "'e closure_inputs \<Rightarrow> content_id \<Rightarrow> manifest \<Rightarrow> content_id \<Rightarrow> content_id \<Rightarrow> manifest option" where
  "claimed ci t0 m0 t i = (if t = t0 then Some m0 else ci_manifest ci i)"

inductive closure_node ::
  "'e closure_inputs \<Rightarrow> content_id \<Rightarrow> content_id \<Rightarrow> manifest \<Rightarrow> content_id \<Rightarrow> content_id \<Rightarrow> manifest \<Rightarrow> bool"
  for ci t0 i0 m0 where
  root: "closure_node ci t0 i0 m0 t0 i0 m0"
| child: "closure_node ci t0 i0 m0 t i m \<Longrightarrow> tree_at ci t bytes tree \<Longrightarrow> cm_tree link \<in> dirs_of (tn_entries tree) \<Longrightarrow>
    link \<in> set (mf_children m) \<Longrightarrow> claimed ci t0 m0 (cm_tree link) (cm_manifest link) = Some m' \<Longrightarrow>
    closure_node ci t0 i0 m0 (cm_tree link) (cm_manifest link) m'"

definition reachable_tree :: "'e closure_inputs \<Rightarrow> content_id \<Rightarrow> content_id \<Rightarrow> manifest \<Rightarrow> content_id \<Rightarrow> bool" where
  "reachable_tree ci t0 i0 m0 t \<longleftrightarrow> (\<exists>i m. closure_node ci t0 i0 m0 t i m)"

definition reachable_chunk :: "'e closure_inputs \<Rightarrow> content_id \<Rightarrow> content_id \<Rightarrow> manifest \<Rightarrow> content_id \<Rightarrow> bool" where
  "reachable_chunk ci t0 i0 m0 c \<longleftrightarrow>
    (\<exists>t bytes tree. reachable_tree ci t0 i0 m0 t \<and> tree_at ci t bytes tree \<and> c \<in> chunks_of (tn_entries tree))"

definition declares_chunk :: "manifest \<Rightarrow> content_id \<Rightarrow> bool" where
  "declares_chunk m c \<longleftrightarrow> (\<exists>e. fmlookup (entry_lookup m) c = Some e \<and> me_kind e = Chunk)"

text \<open>A tree and its manifest agree: the chunks of its files are declared, its directories are the linked ones.\<close>

definition node_agrees :: "'e closure_inputs \<Rightarrow> content_id \<Rightarrow> manifest \<Rightarrow> bool" where
  "node_agrees ci t m \<longleftrightarrow> (\<exists>bytes tree. tree_at ci t bytes tree
     \<and> (\<forall>c \<in> chunks_of (tn_entries tree). declares_chunk m c)
     \<and> cm_tree ` set (mf_children m) = dirs_of (tn_entries tree))"

definition entry_agrees :: "'e closure_inputs \<Rightarrow> content_id \<Rightarrow> content_id \<Rightarrow> manifest \<Rightarrow> manifest_entry \<Rightarrow> bool" where
  "entry_agrees ci t0 i0 m0 e \<longleftrightarrow>
    (let i = me_content_id e in
     (reachable_chunk ci t0 i0 m0 i \<or> reachable_tree ci t0 i0 m0 i)
     \<and> (reachable_chunk ci t0 i0 m0 i \<longrightarrow> me_kind e = Chunk)
     \<and> (reachable_tree ci t0 i0 m0 i \<longrightarrow> me_kind e = Tree
          \<and> (\<forall>bytes tree. tree_at ci i bytes tree \<longrightarrow> me_size e = word_of_nat (length bytes))))"

definition corresponds :: "'e closure_inputs \<Rightarrow> snapshot_id \<Rightarrow> content_id \<Rightarrow> content_id \<Rightarrow> manifest \<Rightarrow> bool" where
  "corresponds ci snap t0 i0 m0 \<longleftrightarrow>
    (\<forall>t i m. closure_node ci t0 i0 m0 t i m \<longrightarrow> manifest_good ci snap i m \<and> node_agrees ci t m
       \<and> (\<forall>link \<in> set (mf_children m). claimed ci t0 m0 (cm_tree link) (cm_manifest link) \<noteq> None)
       \<and> (\<forall>e \<in> set (mf_entries m). entry_agrees ci t0 i0 m0 e))
    \<and> (\<forall>t i m i' m'. closure_node ci t0 i0 m0 t i m \<longrightarrow> closure_node ci t0 i0 m0 t i' m' \<longrightarrow> i = i')"

section \<open>The steps of the walk\<close>

lemma tree_at_unique: "tree_at ci t bytes tree \<Longrightarrow> tree_at ci t bytes' tree' \<Longrightarrow> bytes' = bytes \<and> tree' = tree"
  by (auto simp: tree_at_def)

lemma load_closure_tree_Inr: "load_closure_tree ci t = Inr (bytes, tree) \<longleftrightarrow> tree_at ci t bytes tree"
  by (auto simp: load_closure_tree_def tree_at_def result_simps split: sum.splits option.splits if_splits)

lemma check_canonical_Inr: "check_canonical m = Inr u \<longleftrightarrow> entries_ascending (mf_entries m) \<and> children_ascending (mf_children m)"
  by (auto simp: check_canonical_def)

lemma check_chunk_Inr: "check_chunk m t c = Inr u \<longleftrightarrow> declares_chunk m c"
  by (auto simp: check_chunk_def declares_chunk_def split: option.splits)

lemma accept_child_Inr:
  "accept_child ci snap t link = Inr m \<longleftrightarrow> ci_manifest ci (cm_manifest link) = Some m \<and> manifest_good ci snap (cm_manifest link) m"
  by (auto simp: accept_child_def manifest_good_def check_canonical_Inr result_simps Let_def split: option.splits if_splits)

lemma entries_cons:
  "chunks_of (e # es) = (case en_content e of File _ _ ids \<Rightarrow> set ids | _ \<Rightarrow> {}) \<union> chunks_of es"
  "dirs_of (e # es) = (case en_content e of Dir d \<Rightarrow> {d} | _ \<Rightarrow> {}) \<union> dirs_of es"
  by (auto simp: chunks_of_def dirs_of_def split: entry_content.splits)

lemma scan_entries_Inr:
  "scan_entries m t es chunks dirs = Inr (chunks', dirs') \<longleftrightarrow>
    (\<forall>c \<in> chunks_of es. declares_chunk m c) \<and> fset chunks' = fset chunks \<union> chunks_of es \<and> fset dirs' = fset dirs \<union> dirs_of es"
proof (induction es arbitrary: chunks dirs)
  case Nil
  show ?case by (auto simp: chunks_of_def dirs_of_def fset_inject)
next
  case (Cons e es)
  show ?case
    by (cases "en_content e") (auto simp: Cons entries_cons result_simps check_chunk_Inr fset_of_list.rep_eq)
qed

text \<open>In a canonical manifest a directory has at most one link.\<close>

lemma link_lookup_iff:
  assumes "children_ascending (mf_children m)"
  shows "fmlookup (link_lookup m) d = Some link \<longleftrightarrow> link \<in> set (mf_children m) \<and> cm_tree link = d"
proof -
  let ?as = "rev (map (\<lambda>l. (cm_tree l, l)) (mf_children m))"
  have "sorted_wrt (\<lambda>a b. as_bytes (cm_tree a) < as_bytes (cm_tree b)) (mf_children m)"
    using assms successively_conv_sorted_wrt [of "\<lambda>a b. as_bytes (cm_tree a) < as_bytes (cm_tree b)" "mf_children m"]
    by (simp add: children_ascending_def transp_def) (meson less_trans)
  then have "distinct (map cm_tree (mf_children m))"
    by (auto simp: distinct_conv_nth sorted_wrt_iff_nth_less) (metis nat_neq_iff order_less_irrefl)
  then have "distinct (map fst ?as)" by (simp add: comp_def flip: rev_map)
  then have "map_of ?as d = Some link \<longleftrightarrow> (d, link) \<in> set ?as" by simp
  then show ?thesis by (auto simp: link_lookup_def fmlookup_of_list)
qed

text \<open>What linking the directories of one tree adds to the mapping and to the stack.\<close>

definition linked ::
  "'e closure_inputs \<Rightarrow> snapshot_id \<Rightarrow> manifest \<Rightarrow> content_id set \<Rightarrow> (content_id, content_id) fmap \<Rightarrow> (content_id \<times> manifest) list
    \<Rightarrow> (content_id, content_id) fmap \<Rightarrow> (content_id \<times> manifest) list \<Rightarrow> bool" where
  "linked ci snap m dirs mapping stack mapping' stack' \<longleftrightarrow>
    (\<forall>d i. fmlookup mapping d = Some i \<longrightarrow> fmlookup mapping' d = Some i)
    \<and> (\<forall>d \<in> dirs. \<exists>link \<in> set (mf_children m). cm_tree link = d \<and> fmlookup mapping' d = Some (cm_manifest link))
    \<and> (\<forall>d i. fmlookup mapping d = None \<longrightarrow> fmlookup mapping' d = Some i \<longrightarrow> d \<in> dirs
         \<and> (\<exists>c. ci_manifest ci i = Some c \<and> manifest_good ci snap i c \<and> (d, c) \<in> set stack'))
    \<and> set stack \<subseteq> set stack'
    \<and> (\<forall>d c. (d, c) \<in> set stack' \<longrightarrow> (d, c) \<in> set stack \<or>
         fmlookup mapping d = None \<and> (\<exists>i. fmlookup mapping' d = Some i \<and> ci_manifest ci i = Some c))"

lemma linked_Cons_new:
  assumes "linked ci snap m dirs (fmupd d (cm_manifest link) mapping) ((d, c) # stack) mapping' stack'"
    and "fmlookup mapping d = None" "link \<in> set (mf_children m)" "cm_tree link = d"
    and "ci_manifest ci (cm_manifest link) = Some c" "manifest_good ci snap (cm_manifest link) c"
  shows "linked ci snap m (insert d dirs) mapping stack mapping' stack'"
proof -
  have kept: "fmlookup mapping' d = Some (cm_manifest link)" using assms(1) by (simp add: linked_def)
  show ?thesis
    unfolding linked_def
  proof (intro conjI)
    show "\<forall>e i. fmlookup mapping e = Some i \<longrightarrow> fmlookup mapping' e = Some i"
    proof (intro allI impI)
      fix e i assume "fmlookup mapping e = Some i"
      with assms(2) have "fmlookup (fmupd d (cm_manifest link) mapping) e = Some i" by auto
      with assms(1) show "fmlookup mapping' e = Some i" unfolding linked_def by blast
    qed
    show "\<forall>e \<in> insert d dirs. \<exists>link \<in> set (mf_children m). cm_tree link = e \<and> fmlookup mapping' e = Some (cm_manifest link)"
      using assms kept by (auto simp: linked_def)
    show "\<forall>e i. fmlookup mapping e = None \<longrightarrow> fmlookup mapping' e = Some i \<longrightarrow> e \<in> insert d dirs
        \<and> (\<exists>c. ci_manifest ci i = Some c \<and> manifest_good ci snap i c \<and> (e, c) \<in> set stack')"
    proof (intro allI impI)
      fix e i assume "fmlookup mapping e = None" "fmlookup mapping' e = Some i"
      then show "e \<in> insert d dirs \<and> (\<exists>c. ci_manifest ci i = Some c \<and> manifest_good ci snap i c \<and> (e, c) \<in> set stack')"
        using assms kept by (cases "e = d") (auto simp: linked_def)
    qed
    show "set stack \<subseteq> set stack'" using assms(1) by (auto simp: linked_def)
    show "\<forall>e c'. (e, c') \<in> set stack' \<longrightarrow> (e, c') \<in> set stack \<or>
        fmlookup mapping e = None \<and> (\<exists>i. fmlookup mapping' e = Some i \<and> ci_manifest ci i = Some c')"
    proof (intro allI impI)
      fix e c' assume "(e, c') \<in> set stack'"
      then have "(e, c') \<in> set ((d, c) # stack) \<or> fmlookup (fmupd d (cm_manifest link) mapping) e = None
          \<and> (\<exists>i. fmlookup mapping' e = Some i \<and> ci_manifest ci i = Some c')"
        using assms(1) unfolding linked_def by blast
      then show "(e, c') \<in> set stack \<or>
          fmlookup mapping e = None \<and> (\<exists>i. fmlookup mapping' e = Some i \<and> ci_manifest ci i = Some c')"
        using assms(2,5) kept by (auto split: if_splits)
    qed
  qed
qed

lemma linked_Cons_old:
  assumes "linked ci snap m dirs mapping stack mapping' stack'"
    and "fmlookup mapping d = Some (cm_manifest link)" "link \<in> set (mf_children m)" "cm_tree link = d"
  shows "linked ci snap m (insert d dirs) mapping stack mapping' stack'"
  using assms unfolding linked_def by blast

lemma link_directories_linked:
  assumes "children_ascending (mf_children m)"
  shows "link_directories ci snap t m dirs mapping stack = Inr (mapping', stack') \<Longrightarrow>
    linked ci snap m (set dirs) mapping stack mapping' stack'"
proof (induction dirs arbitrary: mapping stack)
  case Nil
  then show ?case by (auto simp: linked_def)
next
  case (Cons d dirs)
  then obtain link where l: "fmlookup (link_lookup m) d = Some link" by (auto split: option.splits)
  then have link: "link \<in> set (mf_children m)" "cm_tree link = d" using link_lookup_iff [OF assms] by auto
  show ?case
  proof (cases "fmlookup mapping d")
    case None
    with Cons.prems l obtain c where c: "accept_child ci snap d link = Inr c"
      and rest: "link_directories ci snap t m dirs (fmupd d (cm_manifest link) mapping) ((d, c) # stack) = Inr (mapping', stack')"
      by (auto split: sum.splits)
    from linked_Cons_new [OF Cons.IH [OF rest] None link] c show ?thesis by (simp add: accept_child_Inr)
  next
    case (Some i)
    with Cons.prems l have "i = cm_manifest link" and rest: "link_directories ci snap t m dirs mapping stack = Inr (mapping', stack')"
      by (auto split: if_splits)
    with linked_Cons_old [OF Cons.IH [OF rest] _ link] Some show ?thesis by simp
  qed
qed

lemma link_directories_total:
  assumes "children_ascending (mf_children m)"
  shows "(\<And>d. d \<in> set dirs \<Longrightarrow> \<exists>link \<in> set (mf_children m). cm_tree link = d
      \<and> (fmlookup mapping d = Some (cm_manifest link)
         \<or> fmlookup mapping d = None \<and> (\<exists>c. accept_child ci snap d link = Inr c)))
    \<Longrightarrow> \<exists>r. link_directories ci snap t m dirs mapping stack = Inr r"
proof (induction dirs arbitrary: mapping stack)
  case (Cons d dirs)
  from Cons.prems [of d] obtain link where link: "link \<in> set (mf_children m)" "cm_tree link = d"
    and or: "fmlookup mapping d = Some (cm_manifest link) \<or> fmlookup mapping d = None \<and> (\<exists>c. accept_child ci snap d link = Inr c)"
    by auto
  have l: "fmlookup (link_lookup m) d = Some link" using link link_lookup_iff [OF assms] by blast
  have unique: "link' = link" if "link' \<in> set (mf_children m)" "cm_tree link' = d" for link'
    using that l link_lookup_iff [OF assms, of d link'] by simp
  from or show ?case
  proof
    assume "fmlookup mapping d = Some (cm_manifest link)"
    with l Cons.IH [of mapping stack] Cons.prems show ?thesis by simp
  next
    assume "fmlookup mapping d = None \<and> (\<exists>c. accept_child ci snap d link = Inr c)"
    then obtain c where c: "fmlookup mapping d = None" "accept_child ci snap d link = Inr c" by blast
    have "\<exists>r. link_directories ci snap t m dirs (fmupd d (cm_manifest link) mapping) ((d, c) # stack) = Inr r"
    proof (rule Cons.IH)
      fix e assume "e \<in> set dirs"
      with Cons.prems [of e] link show "\<exists>link' \<in> set (mf_children m). cm_tree link' = e
          \<and> (fmlookup (fmupd d (cm_manifest link) mapping) e = Some (cm_manifest link')
             \<or> fmlookup (fmupd d (cm_manifest link) mapping) e = None \<and> (\<exists>c. accept_child ci snap e link' = Inr c))"
        by (cases "e = d") auto
    qed
    with l c show ?thesis by simp
  qed
qed simp

section \<open>The invariant of the walk\<close>

text \<open>A tree the walk is done with.\<close>

definition processed :: "'e closure_inputs \<Rightarrow> closure_walk \<Rightarrow> content_id \<Rightarrow> manifest \<Rightarrow> bool" where
  "processed ci w t m \<longleftrightarrow> (\<exists>bytes tree. tree_at ci t bytes tree
     \<and> fmlookup (cw_tree_sizes w) t = Some (word_of_nat (length bytes))
     \<and> (\<forall>c \<in> chunks_of (tn_entries tree). declares_chunk m c) \<and> chunks_of (tn_entries tree) \<subseteq> fset (cw_chunks w)
     \<and> cm_tree ` set (mf_children m) = dirs_of (tn_entries tree)
     \<and> (\<forall>link \<in> set (mf_children m). fmlookup (cw_mapping w) (cm_tree link) = Some (cm_manifest link))
     \<and> m \<in> set (cw_visited w))"

text \<open>What holds of the trees in the mapping, of the stack, and of what the walk has collected.\<close>

definition mapping_ok :: "'e closure_inputs \<Rightarrow> snapshot_id \<Rightarrow> content_id \<Rightarrow> content_id \<Rightarrow> manifest \<Rightarrow> closure_walk \<Rightarrow> bool" where
  "mapping_ok ci snap t0 i0 m0 w \<longleftrightarrow> fmlookup (cw_mapping w) t0 = Some i0
     \<and> (\<forall>t i. fmlookup (cw_mapping w) t = Some i \<longrightarrow>
          (\<exists>m. claimed ci t0 m0 t i = Some m \<and> manifest_good ci snap i m \<and> closure_node ci t0 i0 m0 t i m
            \<and> ((t, m) \<in> set (cw_stack w) \<or> processed ci w t m)))"

definition collected_ok :: "'e closure_inputs \<Rightarrow> content_id \<Rightarrow> content_id \<Rightarrow> manifest \<Rightarrow> closure_walk \<Rightarrow> bool" where
  "collected_ok ci t0 i0 m0 w \<longleftrightarrow>
     (\<forall>t m. (t, m) \<in> set (cw_stack w) \<longrightarrow> (\<exists>i. fmlookup (cw_mapping w) t = Some i \<and> claimed ci t0 m0 t i = Some m))
     \<and> (\<forall>m \<in> set (cw_visited w). \<exists>t i. closure_node ci t0 i0 m0 t i m)
     \<and> (\<forall>t. t |\<in>| fmdom (cw_tree_sizes w) \<longrightarrow> reachable_tree ci t0 i0 m0 t)
     \<and> (\<forall>c. c |\<in>| cw_chunks w \<longrightarrow> reachable_chunk ci t0 i0 m0 c)"

definition walk_ok :: "'e closure_inputs \<Rightarrow> snapshot_id \<Rightarrow> content_id \<Rightarrow> content_id \<Rightarrow> manifest \<Rightarrow> closure_walk \<Rightarrow> bool" where
  "walk_ok ci snap t0 i0 m0 w \<longleftrightarrow> mapping_ok ci snap t0 i0 m0 w \<and> collected_ok ci t0 i0 m0 w"

lemma visit_Inr:
  fixes ci :: "'e closure_inputs"
  assumes "visit ci snap t m w = Inr w'"
  obtains bytes tree where "tree_at ci t bytes tree" "\<forall>c \<in> chunks_of (tn_entries tree). declares_chunk m c"
    "fset (cw_chunks w') = fset (cw_chunks w) \<union> chunks_of (tn_entries tree)"
    "cm_tree ` set (mf_children m) \<subseteq> dirs_of (tn_entries tree)"
    "cw_tree_sizes w' = fmupd t (word_of_nat (length bytes)) (cw_tree_sizes w)" "cw_visited w' = cw_visited w @ [m]"
    "children_ascending (mf_children m) \<Longrightarrow>
       linked ci snap m (dirs_of (tn_entries tree)) (cw_mapping w) (cw_stack w) (cw_mapping w') (cw_stack w')"
proof -
  from assms obtain bytes tree chunks dirs mapping stack where l: "load_closure_tree ci t = Inr (bytes, tree)"
    and sc: "scan_entries m t (tn_entries tree) (cw_chunks w) {||} = (Inr (chunks, dirs) :: 'e closure_error + _)"
    and ln: "\<forall>link \<in> set (mf_children m). check_link t dirs link = (Inr () :: 'e closure_error + unit)"
    and ld: "link_directories ci snap t m (sorted_list_of_fset dirs) (cw_mapping w) (cw_stack w) = Inr (mapping, stack)"
    and w': "w' = \<lparr>cw_mapping = mapping, cw_stack = stack, cw_tree_sizes = fmupd t (word_of_nat (length bytes)) (cw_tree_sizes w),
      cw_chunks = chunks, cw_visited = cw_visited w @ [m]\<rparr>"
    by (auto simp: visit_def result_simps)
  have dirs: "set (sorted_list_of_fset dirs) = dirs_of (tn_entries tree)" "fset dirs = dirs_of (tn_entries tree)"
    using sc by (simp_all add: scan_entries_Inr)
  have linked: "children_ascending (mf_children m) \<Longrightarrow>
      linked ci snap m (dirs_of (tn_entries tree)) (cw_mapping w) (cw_stack w) (cw_mapping w') (cw_stack w')"
    using link_directories_linked [OF _ ld] dirs by (simp add: w')
  show thesis
    by (rule that [of bytes tree])
       (use l sc ln dirs linked in \<open>auto simp: load_closure_tree_Inr scan_entries_Inr w' check_link_def split: if_splits\<close>)
qed

lemma processed_mono:
  assumes "processed ci w t m" "t \<noteq> t' \<or> (\<forall>bytes tree. tree_at ci t bytes tree \<longrightarrow> n = word_of_nat (length bytes))"
    and "cw_tree_sizes w' = fmupd t' n (cw_tree_sizes w)"
    and "fset (cw_chunks w) \<subseteq> fset (cw_chunks w')" "set (cw_visited w) \<subseteq> set (cw_visited w')"
    and "\<And>d i. fmlookup (cw_mapping w) d = Some i \<Longrightarrow> fmlookup (cw_mapping w') d = Some i"
  shows "processed ci w' t m"
proof -
  from assms(1) obtain bytes tree where p: "tree_at ci t bytes tree" "fmlookup (cw_tree_sizes w) t = Some (word_of_nat (length bytes))"
    "\<forall>c \<in> chunks_of (tn_entries tree). declares_chunk m c" "chunks_of (tn_entries tree) \<subseteq> fset (cw_chunks w)"
    "cm_tree ` set (mf_children m) = dirs_of (tn_entries tree)"
    "\<forall>link \<in> set (mf_children m). fmlookup (cw_mapping w) (cm_tree link) = Some (cm_manifest link)" "m \<in> set (cw_visited w)"
    by (auto simp: processed_def)
  have "fmlookup (cw_tree_sizes w') t = Some (word_of_nat (length bytes))" using p(1,2) assms(2,3) by auto
  moreover have "chunks_of (tn_entries tree) \<subseteq> fset (cw_chunks w')" using p(4) assms(4) by (rule order_trans)
  ultimately show ?thesis using p(1,3,5,6,7) assms(5,6) unfolding processed_def by blast
qed

text \<open>One turn, with what it read and what it linked.\<close>

definition turn ::
  "'e closure_inputs \<Rightarrow> snapshot_id \<Rightarrow> content_id \<Rightarrow> manifest \<Rightarrow> closure_walk \<Rightarrow> closure_walk \<Rightarrow> bytes \<Rightarrow> tree_node \<Rightarrow> bool" where
  "turn ci snap t m w w' bytes tree \<longleftrightarrow> tree_at ci t bytes tree \<and> (\<forall>c \<in> chunks_of (tn_entries tree). declares_chunk m c)
     \<and> fset (cw_chunks w') = fset (cw_chunks w) \<union> chunks_of (tn_entries tree)
     \<and> cm_tree ` set (mf_children m) \<subseteq> dirs_of (tn_entries tree)
     \<and> cw_tree_sizes w' = fmupd t (word_of_nat (length bytes)) (cw_tree_sizes w) \<and> cw_visited w' = cw_visited w @ [m]
     \<and> linked ci snap m (dirs_of (tn_entries tree)) (cw_mapping w) (tl (cw_stack w)) (cw_mapping w') (cw_stack w')"

lemma visit_turn:
  assumes "visit ci snap t m (w\<lparr>cw_stack := stack\<rparr>) = Inr w'" "cw_stack w = (t, m) # stack" "children_ascending (mf_children m)"
  shows "\<exists>bytes tree. turn ci snap t m w w' bytes tree"
  by (rule visit_Inr [OF assms(1)]) (use assms(2,3) in \<open>auto simp: turn_def\<close>)

lemma turn_processed:
  assumes "turn ci snap t m w w' bytes tree" "children_ascending (mf_children m)"
  shows "processed ci w' t m"
proof -
  let ?dirs = "dirs_of (tn_entries tree)"
  have sub: "cm_tree ` set (mf_children m) \<subseteq> ?dirs"
    and links: "\<And>d. d \<in> ?dirs \<Longrightarrow> \<exists>link \<in> set (mf_children m). cm_tree link = d \<and> fmlookup (cw_mapping w') d = Some (cm_manifest link)"
    using assms(1) by (auto simp: turn_def linked_def)
  have "fmlookup (cw_mapping w') (cm_tree link) = Some (cm_manifest link)" if l: "link \<in> set (mf_children m)" for link
  proof -
    from links [of "cm_tree link"] sub l obtain link' where "link' \<in> set (mf_children m)" "cm_tree link' = cm_tree link"
      "fmlookup (cw_mapping w') (cm_tree link) = Some (cm_manifest link')" by blast
    moreover from this l link_lookup_iff [OF assms(2), of "cm_tree link"] have "link' = link" by (metis option.inject)
    ultimately show ?thesis by simp
  qed
  moreover have "cm_tree ` set (mf_children m) = ?dirs" using sub links by blast
  ultimately show ?thesis using assms(1) unfolding processed_def turn_def by auto
qed

lemma turn_mono:
  assumes "turn ci snap t m w w' bytes tree"
  shows "fmlookup (cw_mapping w) d = Some i \<Longrightarrow> fmlookup (cw_mapping w') d = Some i"
    and "processed ci w d m' \<Longrightarrow> processed ci w' d m'"
    and "(d, m') \<in> set (tl (cw_stack w)) \<Longrightarrow> (d, m') \<in> set (cw_stack w')"
proof -
  show keep: "fmlookup (cw_mapping w) d = Some i \<Longrightarrow> fmlookup (cw_mapping w') d = Some i" for d i
    using assms unfolding turn_def linked_def by blast
  show "(d, m') \<in> set (tl (cw_stack w)) \<Longrightarrow> (d, m') \<in> set (cw_stack w')"
    using assms unfolding turn_def linked_def by blast
  assume p: "processed ci w d m'"
  show "processed ci w' d m'"
    by (rule processed_mono [OF p, of t "word_of_nat (length bytes)"])
       (use assms keep tree_at_unique [of ci t bytes tree] in \<open>auto simp: turn_def\<close>)
qed

lemma turn_new:
  assumes "turn ci snap t m w w' bytes tree" "fmlookup (cw_mapping w) d = None" "fmlookup (cw_mapping w') d = Some i"
  shows "\<exists>c link. ci_manifest ci i = Some c \<and> manifest_good ci snap i c \<and> (d, c) \<in> set (cw_stack w') \<and> d \<in> dirs_of (tn_entries tree)
    \<and> link \<in> set (mf_children m) \<and> cm_tree link = d \<and> cm_manifest link = i"
  using assms unfolding turn_def linked_def by (metis option.inject)

lemma turn_mapping_ok:
  assumes ok: "mapping_ok ci snap t0 i0 m0 w" and tn: "turn ci snap t m w w' bytes tree"
    and asc: "children_ascending (mf_children m)" and stack: "cw_stack w = (t, m) # stack"
    and node: "closure_node ci t0 i0 m0 t it m"
  shows "mapping_ok ci snap t0 i0 m0 w'"
  unfolding mapping_ok_def
proof (intro conjI allI impI)
  show "fmlookup (cw_mapping w') t0 = Some i0" using ok turn_mono(1) [OF tn] by (simp add: mapping_ok_def)
  fix d i assume mapped: "fmlookup (cw_mapping w') d = Some i"
  show "\<exists>m. claimed ci t0 m0 d i = Some m \<and> manifest_good ci snap i m \<and> closure_node ci t0 i0 m0 d i m
      \<and> ((d, m) \<in> set (cw_stack w') \<or> processed ci w' d m)"
  proof (cases "fmlookup (cw_mapping w) d")
    case None
    from turn_new [OF tn None mapped] obtain c link where c: "ci_manifest ci i = Some c" "manifest_good ci snap i c"
      "(d, c) \<in> set (cw_stack w')" "d \<in> dirs_of (tn_entries tree)" "link \<in> set (mf_children m)" "cm_tree link = d" "cm_manifest link = i"
      by blast
    have "d \<noteq> t0" using None ok by (auto simp: mapping_ok_def)
    then have "claimed ci t0 m0 d i = Some c" using c(1) by (simp add: claimed_def)
    moreover have "closure_node ci t0 i0 m0 (cm_tree link) (cm_manifest link) c"
      using node tn c calculation by (intro closure_node.child) (auto simp: turn_def)
    ultimately show ?thesis using c by blast
  next
    case (Some j)
    with mapped turn_mono(1) [OF tn Some] have "fmlookup (cw_mapping w) d = Some i" by simp
    with ok obtain m' where m': "claimed ci t0 m0 d i = Some m'" "manifest_good ci snap i m'" "closure_node ci t0 i0 m0 d i m'"
      "(d, m') \<in> set (cw_stack w) \<or> processed ci w d m'" unfolding mapping_ok_def by blast
    have "(d, m') \<in> set (cw_stack w') \<or> processed ci w' d m'"
      using m'(4) stack turn_mono(2,3) [OF tn, of d m'] turn_processed [OF tn asc] by auto
    with m' show ?thesis by blast
  qed
qed

lemma turn_collected_ok:
  assumes ok: "collected_ok ci t0 i0 m0 w" and tn: "turn ci snap t m w w' bytes tree" and stack: "cw_stack w = (t, m) # stack"
    and t0: "fmlookup (cw_mapping w) t0 = Some i0" and node: "closure_node ci t0 i0 m0 t it m"
  shows "collected_ok ci t0 i0 m0 w'"
  unfolding collected_ok_def
proof (intro conjI allI impI ballI)
  fix d c assume d: "(d, c) \<in> set (cw_stack w')"
  have "\<forall>d c. (d, c) \<in> set (cw_stack w') \<longrightarrow> (d, c) \<in> set stack \<or>
      fmlookup (cw_mapping w) d = None \<and> (\<exists>i. fmlookup (cw_mapping w') d = Some i \<and> ci_manifest ci i = Some c)"
    using tn stack by (simp add: turn_def linked_def)
  with d consider "(d, c) \<in> set stack" | i where "fmlookup (cw_mapping w) d = None" "fmlookup (cw_mapping w') d = Some i"
      "ci_manifest ci i = Some c" by blast
  then show "\<exists>i. fmlookup (cw_mapping w') d = Some i \<and> claimed ci t0 m0 d i = Some c"
  proof cases
    case 1
    then have "(d, c) \<in> set (cw_stack w)" by (simp add: stack)
    with ok obtain i where "fmlookup (cw_mapping w) d = Some i" "claimed ci t0 m0 d i = Some c" unfolding collected_ok_def by blast
    with turn_mono(1) [OF tn] show ?thesis by blast
  next
    case 2
    with t0 show ?thesis by (auto simp: claimed_def)
  qed
next
  fix m' assume "m' \<in> set (cw_visited w')"
  with tn have "m' \<in> set (cw_visited w) \<or> m' = m" by (auto simp: turn_def)
  with ok node show "\<exists>t i. closure_node ci t0 i0 m0 t i m'" unfolding collected_ok_def by blast
next
  fix d assume "d |\<in>| fmdom (cw_tree_sizes w')"
  with tn have "d |\<in>| fmdom (cw_tree_sizes w) \<or> d = t" by (auto simp: turn_def)
  with ok node show "reachable_tree ci t0 i0 m0 d" unfolding collected_ok_def reachable_tree_def by blast
next
  fix c assume "c |\<in>| cw_chunks w'"
  with tn have "c |\<in>| cw_chunks w \<or> c \<in> chunks_of (tn_entries tree)" and at: "tree_at ci t bytes tree"
    by (auto simp: turn_def)
  moreover have "reachable_tree ci t0 i0 m0 t" using node unfolding reachable_tree_def by blast
  ultimately show "reachable_chunk ci t0 i0 m0 c"
    using ok unfolding collected_ok_def reachable_chunk_def by blast
qed

section \<open>The whole walk\<close>

lemma top_node:
  assumes "walk_ok ci snap t0 i0 m0 w" "cw_stack w = (t, m) # stack"
  shows "\<exists>i. fmlookup (cw_mapping w) t = Some i \<and> closure_node ci t0 i0 m0 t i m \<and> manifest_good ci snap i m"
proof -
  have "(t, m) \<in> set (cw_stack w)" by (simp add: assms(2))
  with assms(1) obtain i where i: "fmlookup (cw_mapping w) t = Some i" "claimed ci t0 m0 t i = Some m"
    unfolding walk_ok_def collected_ok_def by blast
  with assms(1) show ?thesis unfolding walk_ok_def mapping_ok_def by fastforce
qed

lemma visit_ok:
  assumes ok: "walk_ok ci snap t0 i0 m0 w" and stack: "cw_stack w = (t, m) # stack"
    and v: "visit ci snap t m (w\<lparr>cw_stack := stack\<rparr>) = Inr w'"
  shows "walk_ok ci snap t0 i0 m0 w'"
proof -
  from top_node [OF ok stack] obtain i where node: "closure_node ci t0 i0 m0 t i m" and good: "manifest_good ci snap i m" by blast
  then have asc: "children_ascending (mf_children m)" by (simp add: manifest_good_def)
  from visit_turn [OF v stack asc] obtain bytes tree where tn: "turn ci snap t m w w' bytes tree" by blast
  show ?thesis
    using ok turn_mapping_ok [OF _ tn asc stack node] turn_collected_ok [OF _ tn stack _ node]
    by (auto simp: walk_ok_def mapping_ok_def)
qed

lemma walk_result:
  assumes "walk_ok ci snap t0 i0 m0 w" "walk_closure ci snap w = Inr w'"
  shows "walk_ok ci snap t0 i0 m0 w' \<and> cw_stack w' = []"
  using assms
proof (induction ci snap w rule: walk_closure.induct)
  case (1 ci snap w)
  show ?case
  proof (cases "cw_stack w")
    case Nil
    with "1.prems" show ?thesis by (simp add: walk_closure.simps [of ci snap w])
  next
    case (Cons p stack)
    obtain t m where p: "p = (t, m)" by fastforce
    with Cons "1.prems"(2) obtain w1 where v: "visit ci snap t m (w\<lparr>cw_stack := stack\<rparr>) = Inr w1" and rest: "walk_closure ci snap w1 = Inr w'"
      by (auto simp: walk_closure.simps [of ci snap w] split: sum.splits)
    have "walk_ok ci snap t0 i0 m0 w1" using visit_ok [OF "1.prems"(1) _ v] Cons p by simp
    with "1.IH" [OF Cons p [symmetric] v] rest show ?thesis by blast
  qed
qed

lemma visit_total:
  fixes ci :: "'e closure_inputs"
  assumes corr: "corresponds ci snap t0 i0 m0" and ok: "walk_ok ci snap t0 i0 m0 w" and stack: "cw_stack w = (t, m) # stack"
  shows "\<exists>w'. visit ci snap t m (w\<lparr>cw_stack := stack\<rparr>) = Inr w'"
proof -
  from top_node [OF ok stack] obtain i where node: "closure_node ci t0 i0 m0 t i m" by blast
  with corr have asc: "children_ascending (mf_children m)" and agrees: "node_agrees ci t m"
    and claims: "\<And>link. link \<in> set (mf_children m) \<Longrightarrow> claimed ci t0 m0 (cm_tree link) (cm_manifest link) \<noteq> None"
    unfolding corresponds_def manifest_good_def by blast+
  from agrees obtain bytes tree where at: "tree_at ci t bytes tree" and chunks: "\<forall>c \<in> chunks_of (tn_entries tree). declares_chunk m c"
    and dirs: "cm_tree ` set (mf_children m) = dirs_of (tn_entries tree)" unfolding node_agrees_def by blast
  let ?scan = "scan_entries m t (tn_entries tree) (cw_chunks w) {||} :: 'e closure_error + _"
  have "finite (chunks_of (tn_entries tree))" "finite (dirs_of (tn_entries tree))" by (simp_all add: finite_subset [OF subset_UNIV finite_ids])
  then obtain ch ds where cd: "fset ch = fset (cw_chunks w) \<union> chunks_of (tn_entries tree)" "fset ds = dirs_of (tn_entries tree)"
    by (metis finite_UnI finite_fset fset_cases mem_Collect_eq)
  then have scan: "?scan = Inr (ch, ds)" using chunks by (simp add: scan_entries_Inr)
  have "\<exists>r. link_directories ci snap t m (sorted_list_of_fset ds) (cw_mapping w) stack = Inr r"
  proof (rule link_directories_total [OF asc])
    fix d assume "d \<in> set (sorted_list_of_fset ds)"
    then have "d \<in> cm_tree ` set (mf_children m)" using cd(2) dirs by simp
    then obtain link where link: "link \<in> set (mf_children m)" "cm_tree link = d" by blast
    from claims [OF link(1)] obtain c where c: "claimed ci t0 m0 (cm_tree link) (cm_manifest link) = Some c" by blast
    have child: "closure_node ci t0 i0 m0 (cm_tree link) (cm_manifest link) c"
      using node at link c dirs by (intro closure_node.child) auto
    have "fmlookup (cw_mapping w) d = Some (cm_manifest link)
        \<or> fmlookup (cw_mapping w) d = None \<and> (\<exists>c. accept_child ci snap d link = Inr c)"
    proof (cases "fmlookup (cw_mapping w) d")
      case None
      then have "d \<noteq> t0" using ok by (auto simp: walk_ok_def mapping_ok_def)
      with c link(2) have "ci_manifest ci (cm_manifest link) = Some c" by (simp add: claimed_def)
      moreover have "manifest_good ci snap (cm_manifest link) c" using corr child unfolding corresponds_def by blast
      ultimately show ?thesis using None by (auto simp: accept_child_Inr)
    next
      case (Some e)
      with ok obtain me where "closure_node ci t0 i0 m0 d e me" unfolding walk_ok_def mapping_ok_def by blast
      with corr child link(2) have "e = cm_manifest link" unfolding corresponds_def by blast
      with Some show ?thesis by simp
    qed
    with link show "\<exists>link \<in> set (mf_children m). cm_tree link = d \<and> (fmlookup (cw_mapping w) d = Some (cm_manifest link)
        \<or> fmlookup (cw_mapping w) d = None \<and> (\<exists>c. accept_child ci snap d link = Inr c))" by blast
  qed
  then obtain mapping' stack' where ld:
    "link_directories ci snap t m (sorted_list_of_fset ds) (cw_mapping w) stack = Inr (mapping', stack')" by auto
  have "check_each (check_link t ds) (mf_children m) = (Inr () :: 'e closure_error + unit)"
    using cd dirs by (auto simp: check_each_Inr check_link_def)
  with at scan ld show ?thesis by (simp add: visit_def flip: load_closure_tree_Inr)
qed

lemma walk_total:
  assumes "corresponds ci snap t0 i0 m0" "walk_ok ci snap t0 i0 m0 w"
  shows "\<exists>w'. walk_closure ci snap w = Inr w'"
  using assms
proof (induction ci snap w rule: walk_closure.induct)
  case (1 ci snap w)
  show ?case
  proof (cases "cw_stack w")
    case (Cons p stack)
    obtain t m where p: "p = (t, m)" by fastforce
    from visit_total [OF "1.prems"] Cons p obtain w1 where v: "visit ci snap t m (w\<lparr>cw_stack := stack\<rparr>) = Inr w1" by blast
    have "walk_ok ci snap t0 i0 m0 w1" using visit_ok [OF "1.prems"(2) _ v] Cons p by simp
    with "1.IH" [OF Cons p [symmetric] v "1.prems"(1)] Cons p v show ?thesis by (simp add: walk_closure.simps [of ci snap w])
  qed (simp add: walk_closure.simps [of ci snap w])
qed

lemma walk_start_ok:
  assumes "manifest_good ci snap i0 m0"
  shows "walk_ok ci snap t0 i0 m0 (walk_start t0 i0 m0)"
  using assms closure_node.root [of ci t0 i0 m0]
  by (auto simp: walk_ok_def mapping_ok_def collected_ok_def walk_start_def claimed_def)

text \<open>A finished walk has every pair of the joint closure in its mapping, and has processed it.\<close>

lemma finished_node:
  assumes ok: "walk_ok ci snap t0 i0 m0 w" and finished: "cw_stack w = []" and node: "closure_node ci t0 i0 m0 t i m"
  shows "fmlookup (cw_mapping w) t = Some i \<and> processed ci w t m \<and> manifest_good ci snap i m"
proof -
  have mapped: "processed ci w t m \<and> manifest_good ci snap i m"
    if "fmlookup (cw_mapping w) t = Some i" "claimed ci t0 m0 t i = Some m" for t i m
    using that ok finished unfolding walk_ok_def mapping_ok_def by fastforce
  have "fmlookup (cw_mapping w) t = Some i \<and> claimed ci t0 m0 t i = Some m"
    using node
  proof (induction rule: closure_node.induct)
    case root
    then show ?case using ok by (simp add: walk_ok_def mapping_ok_def claimed_def)
  next
    case (child t i m bytes tree link m')
    then have "processed ci w t m" using mapped by blast
    then have "fmlookup (cw_mapping w) (cm_tree link) = Some (cm_manifest link)"
      using child.hyps unfolding processed_def by blast
    with child.hyps show ?case by blast
  qed
  with mapped show ?thesis by blast
qed

lemma finished_reachable:
  assumes ok: "walk_ok ci snap t0 i0 m0 w" and finished: "cw_stack w = []"
  shows "reachable_tree ci t0 i0 m0 t \<longleftrightarrow> t |\<in>| fmdom (cw_tree_sizes w)"
    and "reachable_chunk ci t0 i0 m0 c \<longleftrightarrow> c |\<in>| cw_chunks w"
proof -
  have p: "\<exists>m. processed ci w t m" if "reachable_tree ci t0 i0 m0 t" for t
    using that finished_node [OF ok finished] unfolding reachable_tree_def by blast
  show "reachable_tree ci t0 i0 m0 t \<longleftrightarrow> t |\<in>| fmdom (cw_tree_sizes w)"
  proof
    assume "reachable_tree ci t0 i0 m0 t"
    with p obtain m where "processed ci w t m" by blast
    then show "t |\<in>| fmdom (cw_tree_sizes w)" by (auto simp: processed_def intro: fmdomI)
  qed (use ok in \<open>auto simp: walk_ok_def collected_ok_def\<close>)
  show "reachable_chunk ci t0 i0 m0 c \<longleftrightarrow> c |\<in>| cw_chunks w"
  proof
    assume "reachable_chunk ci t0 i0 m0 c"
    then obtain t bytes tree where t: "reachable_tree ci t0 i0 m0 t" "tree_at ci t bytes tree" "c \<in> chunks_of (tn_entries tree)"
      unfolding reachable_chunk_def by blast
    from p [OF t(1)] obtain m bytes' tree' where "tree_at ci t bytes' tree'" "chunks_of (tn_entries tree') \<subseteq> fset (cw_chunks w)"
      unfolding processed_def by blast
    with t(2,3) tree_at_unique [of ci t bytes tree bytes' tree'] show "c |\<in>| cw_chunks w" by blast
  qed (use ok in \<open>auto simp: walk_ok_def collected_ok_def\<close>)
qed

lemma check_declared_Inr:
  assumes ok: "walk_ok ci snap t0 i0 m0 w" and finished: "cw_stack w = []"
  shows "check_declared w e = Inr u \<longleftrightarrow> entry_agrees ci t0 i0 m0 e"
proof -
  let ?i = "me_content_id e"
  have size: "fmlookup (cw_tree_sizes w) t = Some (word_of_nat (length bytes))"
    if "t |\<in>| fmdom (cw_tree_sizes w)" "tree_at ci t bytes tree" for t bytes tree
  proof -
    from that(1) finished_reachable(1) [OF ok finished] obtain i m where "closure_node ci t0 i0 m0 t i m"
      unfolding reachable_tree_def by blast
    with finished_node [OF ok finished] obtain bytes' tree' where "tree_at ci t bytes' tree'"
      "fmlookup (cw_tree_sizes w) t = Some (word_of_nat (length bytes'))" unfolding processed_def by blast
    with that(2) tree_at_unique [of ci t bytes tree] show ?thesis by blast
  qed
  have loaded: "\<exists>bytes tree. tree_at ci t bytes tree" if "t |\<in>| fmdom (cw_tree_sizes w)" for t
    using that finished_reachable(1) [OF ok finished] finished_node [OF ok finished]
    unfolding reachable_tree_def processed_def by blast
  show ?thesis
  proof (cases "?i |\<in>| fmdom (cw_tree_sizes w)")
    case True
    then obtain bytes tree where at: "tree_at ci ?i bytes tree" using loaded by blast
    have "(\<forall>b tr. tree_at ci ?i b tr \<longrightarrow> me_size e = word_of_nat (length b)) \<longleftrightarrow> me_size e = word_of_nat (length bytes)"
      using at tree_at_unique [OF at] by blast
    with True size [OF True at] show ?thesis
      by (auto simp: check_declared_def entry_agrees_def Let_def finished_reachable [OF ok finished])
  next
    case False
    then show ?thesis by (auto simp: check_declared_def entry_agrees_def Let_def finished_reachable [OF ok finished])
  qed
qed

lemma finished_corresponds:
  assumes ok: "walk_ok ci snap t0 i0 m0 w" and finished: "cw_stack w = []"
  shows "(\<forall>m \<in> set (cw_visited w). \<forall>e \<in> set (mf_entries m). entry_agrees ci t0 i0 m0 e) \<longleftrightarrow> corresponds ci snap t0 i0 m0"
proof
  assume entries: "\<forall>m \<in> set (cw_visited w). \<forall>e \<in> set (mf_entries m). entry_agrees ci t0 i0 m0 e"
  show "corresponds ci snap t0 i0 m0"
    unfolding corresponds_def
  proof (intro conjI allI impI)
    fix t i m assume node: "closure_node ci t0 i0 m0 t i m"
    then have p: "processed ci w t m" "manifest_good ci snap i m" using finished_node [OF ok finished] by blast+
    show "manifest_good ci snap i m" by fact
    show "node_agrees ci t m" using p(1) unfolding processed_def node_agrees_def by blast
    have "fmlookup (cw_mapping w) (cm_tree link) = Some (cm_manifest link)" if "link \<in> set (mf_children m)" for link
      using p(1) that unfolding processed_def by blast
    then show "\<forall>link \<in> set (mf_children m). claimed ci t0 m0 (cm_tree link) (cm_manifest link) \<noteq> None"
      using ok unfolding walk_ok_def mapping_ok_def by blast
    show "\<forall>e \<in> set (mf_entries m). entry_agrees ci t0 i0 m0 e" using entries p(1) unfolding processed_def by blast
  next
    fix t i m i' m' assume "closure_node ci t0 i0 m0 t i m" "closure_node ci t0 i0 m0 t i' m'"
    then have "fmlookup (cw_mapping w) t = Some i" "fmlookup (cw_mapping w) t = Some i'" using finished_node [OF ok finished] by blast+
    then show "i = i'" by simp
  qed
next
  assume "corresponds ci snap t0 i0 m0"
  with ok show "\<forall>m \<in> set (cw_visited w). \<forall>e \<in> set (mf_entries m). entry_agrees ci t0 i0 m0 e"
    unfolding corresponds_def walk_ok_def collected_ok_def by blast
qed

lemma verify_corresponds:
  "verify_snapshot_manifest ci s root_id root = Inr () \<longleftrightarrow>
    corresponds ci (snapshot_id_of (ci_derive ci) s) (sn_tree s) root_id root"
proof -
  let ?snap = "snapshot_id_of (ci_derive ci) s" and ?t0 = "sn_tree s"
  have good: "corresponds ci ?snap ?t0 root_id root \<Longrightarrow> manifest_good ci ?snap root_id root"
    unfolding corresponds_def using closure_node.root by blast
  have "verify_snapshot_manifest ci s root_id root = Inr () \<longleftrightarrow> manifest_good ci ?snap root_id root
      \<and> (\<exists>w. walk_closure ci ?snap (walk_start ?t0 root_id root) = Inr w
           \<and> (\<forall>m \<in> set (cw_visited w). \<forall>e \<in> set (mf_entries m). check_declared w e = (Inr () :: 'a closure_error + unit)))"
    by (auto simp: verify_snapshot_manifest_def manifest_good_def check_canonical_Inr result_simps Let_def split: if_splits)
  also have "\<dots> \<longleftrightarrow> corresponds ci ?snap ?t0 root_id root"
    using walk_result [OF walk_start_ok, of ci ?snap root_id root] walk_total [OF _ walk_start_ok, of ci ?snap ?t0 root_id root]
      check_declared_Inr finished_corresponds good by (metis (no_types, lifting))
  finally show ?thesis .
qed

text \<open>
  C3. The closure verifier accepts a snapshot with its root manifest exactly when the two closures
  correspond: every tree reachable from the snapshot through directories is stored intact and declared by
  exactly one manifest, which is canonical, bound to its id and to the snapshot and within the limits;
  its links are exactly the directories of the tree, its entries declare every chunk of the tree's files;
  and no entry declares anything else, or with another kind or, for a tree, another size.
\<close>

theorem closure_verdict:
  "verify_snapshot_manifest ci s root_id root = Inr () \<longleftrightarrow>
    corresponds ci (snapshot_id_of (ci_derive ci) s) (sn_tree s) root_id root"
  by (rule verify_corresponds)

end
