(* ===== verification/Wyrd_Heads.thy ===== *)
theory Wyrd_Heads
  imports Wyrd_Correspond Wyrd_Drive
begin

text \<open>
  What the head gate gives the mounted drive: paths of a verified head resolve without meeting a missing or
  damaged tree, the chunks of its files can be fetched, and for a head that is rejected as incomplete, when
  the fetch plan asks for what is missing.
\<close>

section \<open>Serving a verified head\<close>

definition reads_store :: "'e closure_inputs \<Rightarrow> ('s, 'e) backing \<Rightarrow> 's drive_view \<Rightarrow> bool" where
  "reads_store ci bk v \<longleftrightarrow> \<not> sh_poisoned (dv_store v) \<and> (\<forall>i. os_get (bk_ops bk) i (sh_store (dv_store v)) = ci_get ci i)"

fun node_served :: "'e closure_inputs \<Rightarrow> content_id \<Rightarrow> content_id \<Rightarrow> manifest \<Rightarrow> drive_node \<Rightarrow> bool" where
  "node_served ci t0 i0 m0 (FileNode _ _ chunks) = (\<forall>c \<in> set chunks. reachable_chunk ci t0 i0 m0 c)"
| "node_served ci t0 i0 m0 (DirNode subtree) = reachable_tree ci t0 i0 m0 subtree"
| "node_served ci t0 i0 m0 (SymlinkNode _) = True"
| "node_served ci t0 i0 m0 _ = False"

lemma loads_tree:
  assumes "reads_store ci bk v" "tree_at ci t bytes tree"
  shows "view_load_tree bk v t = Inr tree"
  using assms by (simp add: view_load_tree_def stored_bytes_def store_read_def reads_store_def tree_at_def)

lemma reachable_loads:
  assumes "corresponds ci snap t0 i0 m0" "reachable_tree ci t0 i0 m0 t"
  shows "\<exists>bytes tree. tree_at ci t bytes tree \<and> (\<forall>d \<in> dirs_of (tn_entries tree). reachable_tree ci t0 i0 m0 d)
    \<and> (\<forall>c \<in> chunks_of (tn_entries tree). reachable_chunk ci t0 i0 m0 c)"
proof -
  from assms(2) obtain i m where node: "closure_node ci t0 i0 m0 t i m" unfolding reachable_tree_def by blast
  with assms(1) have "node_agrees ci t m"
    and claims: "\<And>link. link \<in> set (mf_children m) \<Longrightarrow> claimed ci t0 m0 (cm_tree link) (cm_manifest link) \<noteq> None"
    unfolding corresponds_def by blast+
  then obtain bytes tree where at: "tree_at ci t bytes tree" and dirs: "cm_tree ` set (mf_children m) = dirs_of (tn_entries tree)"
    unfolding node_agrees_def by blast
  have "reachable_tree ci t0 i0 m0 d" if "d \<in> dirs_of (tn_entries tree)" for d
  proof -
    from that have "d \<in> cm_tree ` set (mf_children m)" by (simp add: dirs)
    then obtain link where link: "link \<in> set (mf_children m)" "cm_tree link = d" by blast
    from claims [OF link(1)] obtain c where c: "claimed ci t0 m0 (cm_tree link) (cm_manifest link) = Some c" by blast
    have "closure_node ci t0 i0 m0 (cm_tree link) (cm_manifest link) c"
      by (rule closure_node.child [OF node at _ link(1) c]) (simp add: link that)
    then show ?thesis using link(2) unfolding reachable_tree_def by blast
  qed
  moreover have "reachable_chunk ci t0 i0 m0 c" if "c \<in> chunks_of (tn_entries tree)" for c
    using assms(2) at that unfolding reachable_chunk_def by blast
  ultimately show ?thesis using at by blast
qed

lemma decoded_tree_get:
  assumes "tree_at ci t bytes tree" "tree_get tree name = Some entry"
  shows "entry \<in> set (tn_entries tree)"
proof -
  have "tree_valid tree" using assms(1) tree_codec.decode_sound by (auto simp: tree_at_def)
  with assms(2) tree_get_Some [of tree name entry] show ?thesis by (simp add: tree_valid_def)
qed

lemma resolve_reachable:
  assumes corr: "corresponds ci snap t0 i0 m0" and reads: "reads_store ci bk v"
  shows "reachable_tree ci t0 i0 m0 t \<Longrightarrow>
    (case resolve_one bk v t components of
       Inl e \<Rightarrow> e = VNotADirectory | Inr None \<Rightarrow> True | Inr (Some node) \<Rightarrow> node_served ci t0 i0 m0 node)"
proof (induction components arbitrary: t)
  case Nil
  from reachable_loads [OF corr Nil] obtain bytes tree where "tree_at ci t bytes tree" by blast
  with loads_tree [OF reads] Nil show ?case by simp
next
  case (Cons first remaining)
  from reachable_loads [OF corr Cons.prems] obtain bytes tree where at: "tree_at ci t bytes tree"
    and dirs: "\<forall>d \<in> dirs_of (tn_entries tree). reachable_tree ci t0 i0 m0 d"
    and chunks: "\<forall>c \<in> chunks_of (tn_entries tree). reachable_chunk ci t0 i0 m0 c" by blast
  show ?case
  proof (cases "tree_get tree first")
    case None
    with loads_tree [OF reads at] show ?thesis by simp
  next
    case (Some entry)
    note entry = decoded_tree_get [OF at Some]
    show ?thesis
    proof (cases "en_content entry")
      case (File sz executable ids)
      with entry chunks have "\<forall>c \<in> set ids. reachable_chunk ci t0 i0 m0 c" unfolding chunks_of_def by blast
      with Some File loads_tree [OF reads at] show ?thesis by simp
    next
      case (Dir subtree)
      with entry dirs have sub: "reachable_tree ci t0 i0 m0 subtree" unfolding dirs_of_def by blast
      with Cons.IH [OF sub] Some Dir loads_tree [OF reads at] show ?thesis by simp
    next
      case (Symlink target)
      with Some loads_tree [OF reads at] show ?thesis by simp
    qed
  qed
qed

section \<open>The manifests of a verified head are the recorded ones\<close>

lemma runtime_inputs_simps [simp]:
  "ci_derive (runtime_inputs dk get failure st limits) = dk" "ci_get (runtime_inputs dk get failure st limits) = get"
  "ci_manifest (runtime_inputs dk get failure st limits) i = map_option mr_manifest (fmlookup (rt_manifests st) i)"
  by (simp_all add: runtime_inputs_def manifest_record_of_def)

definition recorded :: "runtime_state \<Rightarrow> manifest \<Rightarrow> bool" where
  "recorded st m \<longleftrightarrow> (\<exists>i r. fmlookup (rt_manifests st) i = Some r \<and> mr_manifest r = m)"

lemma closure_node_recorded:
  assumes "closure_node (runtime_inputs dk get failure st limits) t0 i0 m0 t i m" "recorded st m0"
  shows "recorded st m"
  using assms
proof (induction rule: closure_node.induct)
  case (child t i m bytes tree link m')
  then show ?case by (cases "cm_tree link = t0") (auto simp: claimed_def recorded_def)
qed simp

lemma root_manifest_recorded: "root_manifest_record st snap = Some r \<Longrightarrow> recorded st (mr_manifest r)"
  by (auto simp: root_manifest_record_def manifest_record_of_def recorded_def Let_def bind_eq_Some_conv)

lemma entry_lookup_in: "fmlookup (entry_lookup m) c = Some e \<Longrightarrow> e \<in> set (mf_entries m) \<and> me_content_id e = c"
  by (auto simp: entry_lookup_def fmlookup_of_list dest!: map_of_SomeD)

lemma reachable_chunk_recorded:
  assumes corr: "corresponds (runtime_inputs dk get failure st limits) snap t0 i0 m0" and root: "recorded st m0"
    and c: "reachable_chunk (runtime_inputs dk get failure st limits) t0 i0 m0 c"
  shows "\<exists>e. e \<in> set (recorded_entries st) \<and> me_content_id e = c \<and> me_kind e = Chunk"
proof -
  let ?ci = "runtime_inputs dk get failure st limits"
  from c obtain t bytes tree i m where node: "closure_node ?ci t0 i0 m0 t i m" and at: "tree_at ?ci t bytes tree"
    and cc: "c \<in> chunks_of (tn_entries tree)" unfolding reachable_chunk_def reachable_tree_def by blast
  from corr node have "node_agrees ?ci t m" unfolding corresponds_def by blast
  then obtain bytes' tree' where at': "tree_at ?ci t bytes' tree'" and decl: "\<forall>c \<in> chunks_of (tn_entries tree'). declares_chunk m c"
    unfolding node_agrees_def by blast
  have "declares_chunk m c" using decl cc tree_at_unique [OF at at'] by simp
  then obtain e where e: "e \<in> set (mf_entries m)" "me_content_id e = c" "me_kind e = Chunk"
    using entry_lookup_in unfolding declares_chunk_def by blast
  have "recorded st m" using closure_node_recorded [OF node root] .
  then have "e \<in> set (recorded_entries st)" using e(1) unfolding recorded_def in_recorded_entries by blast
  with e show ?thesis by blast
qed

lemma verified_head:
  assumes "verify_head_closure dk get failure st limits s = Inr ()"
  shows "\<exists>i0 m0. recorded st m0 \<and> corresponds (runtime_inputs dk get failure st limits) (snapshot_id_of dk s) (sn_tree s) i0 m0"
proof -
  from assms obtain r where r: "root_manifest_record st (snapshot_id_of dk s) = Some r"
    and v: "verify_snapshot_manifest (runtime_inputs dk get failure st limits) s (mr_manifest_id r) (mr_manifest r) = Inr ()"
    by (auto simp: verify_head_closure_def split: option.splits)
  from v have "corresponds (runtime_inputs dk get failure st limits) (snapshot_id_of dk s) (sn_tree s) (mr_manifest_id r) (mr_manifest r)"
    by (simp add: verify_corresponds)
  with root_manifest_recorded [OF r] show ?thesis by blast
qed

text \<open>
  C4. A head that passes the closure gate can be served: resolving any path below it over the same store
  never meets a missing, rejected or damaged tree, it can only find nothing or run into something that is
  not a directory; and every chunk of every file found is held locally, is not asked for, or is in the
  fetch plan.
\<close>

theorem verified_head_served:
  assumes verified: "verify_head_closure dk get failure st limits s = Inr ()"
    and store: "\<not> sh_poisoned (dv_store v)" "\<And>i. os_get (bk_ops bk) i (sh_store (dv_store v)) = get i"
  shows "(\<forall>e. resolve_one bk v (sn_tree s) components = Inl e \<longrightarrow> e = VNotADirectory)
    \<and> (\<forall>sz executable chunks c. resolve_one bk v (sn_tree s) components = Inr (Some (FileNode sz executable chunks)) \<longrightarrow>
         c \<in> set chunks \<longrightarrow> is_local st c \<or> materialization_of st c = MRemoteOnly
           \<or> c |\<in>| fmdom (rc_pending_objects (runtime_reconcile_of st)))"
proof -
  let ?ci = "runtime_inputs dk get failure st limits"
  from verified_head [OF verified] obtain i0 m0 where root: "recorded st m0"
    and corr: "corresponds ?ci (snapshot_id_of dk s) (sn_tree s) i0 m0" by blast
  have reads: "reads_store ?ci bk v" using store by (simp add: reads_store_def)
  have "reachable_tree ?ci (sn_tree s) i0 m0 (sn_tree s)" unfolding reachable_tree_def using closure_node.root by blast
  note served = resolve_reachable [OF corr reads this, of components]
  have "is_local st c \<or> materialization_of st c = MRemoteOnly \<or> c |\<in>| fmdom (rc_pending_objects (runtime_reconcile_of st))"
    if "reachable_chunk ?ci (sn_tree s) i0 m0 c" for c
    using reachable_chunk_recorded [OF corr root that]
    by (auto simp: in_pending_objects wanted_def is_local_def)
  with served show ?thesis by (auto split: sum.splits option.splits) blast
qed

text \<open>A head with one file of one chunk, hashed by length, over a store that holds its tree.\<close>

definition head_kdf :: kdf where
  "head_kdf = (\<lambda>context data. of_nat (length data))"

definition head_tree :: tree_node where
  "head_tree = \<lparr>tn_entries = [\<lparr>en_name = Component [0x61], en_content = File 3 False [Ident 9]\<rparr>]\<rparr>"

definition head_snapshot :: snapshot where
  "head_snapshot = \<lparr>sn_parents = [], sn_tree = tree_content_id head_kdf head_tree, sn_author = Ident 2, sn_membership = Ident 3,
     sn_epoch = 1, sn_flags = 0, sn_timestamp = 5, sn_signature = 0\<rparr>"

definition head_manifest :: manifest where
  "head_manifest = \<lparr>mf_snapshot = snapshot_id_of head_kdf head_snapshot,
     mf_entries = [\<lparr>me_content_id = Ident 9, me_kind = Chunk, me_version = 0, me_storage_id = Ident 8,
       me_encryption_epoch = 1, me_size = 3, me_transport = Ident 7\<rparr>], mf_children = []\<rparr>"

definition gate_runtime :: "manifest \<Rightarrow> runtime_state" where
  "gate_runtime m = snd (record_manifest head_kdf
     \<lparr>mr_is_root = True, mr_manifest_id = manifest_identity head_kdf m, mr_representations = fmempty,
      mr_transport = Ident 5, mr_manifest = m\<rparr> (runtime_new (Ident 0)))"

definition head_runtime :: runtime_state where
  "head_runtime = gate_runtime head_manifest"

definition head_get :: "content_id \<Rightarrow> unit + bytes option" where
  "head_get i = Inr (if i = tree_content_id head_kdf head_tree then Some (tree_encode head_tree) else None)"

lemma head_tree_valid: "tree_valid head_tree"
  by (simp add: tree_valid_def head_tree_def entry_valid_def component_valid_def component_new_def U32_MAX_def ascii_def)

lemma head_tree_id: "tree_content_id head_kdf head_tree \<noteq> Ident 9"
  by (simp add: tree_content_id_def content_derive_def head_kdf_def head_tree_def tree_encode_def entry_bytes_def length_u32_le
      U32_MAX_def ids_bytes_def)

lemma gate_root:
  assumes "mf_snapshot m = snapshot_id_of head_kdf head_snapshot" "mf_children m = []"
  shows "root_manifest_record (gate_runtime m) (snapshot_id_of head_kdf head_snapshot) =
   Some \<lparr>mr_is_root = True, mr_manifest_id = manifest_identity head_kdf m, mr_representations = fmempty,
      mr_transport = Ident 5, mr_manifest = m\<rparr>"
  by (simp add: root_manifest_record_def gate_runtime_def record_manifest_def insert_manifest_def runtime_new_def assms
      transport_is_represented_def manifest_identity_def Let_def sorted_list_of_fset.rep_eq manifest_record_of_def)

lemma head_root: "root_manifest_record head_runtime (snapshot_id_of head_kdf head_snapshot) =
   Some \<lparr>mr_is_root = True, mr_manifest_id = manifest_identity head_kdf head_manifest, mr_representations = fmempty,
      mr_transport = Ident 5, mr_manifest = head_manifest\<rparr>"
  unfolding head_runtime_def by (rule gate_root) (simp_all add: head_manifest_def)

lemma head_verified: "verify_head_closure head_kdf head_get (\<lambda>_. Transient) head_runtime LIMITS_V0 head_snapshot = Inr ()"
proof -
  let ?ci = "runtime_inputs head_kdf head_get (\<lambda>_. Transient) head_runtime LIMITS_V0"
  let ?i = "manifest_identity head_kdf head_manifest" and ?t = "tree_content_id head_kdf head_tree"
  have at: "tree_at ?ci ?t (tree_encode head_tree) head_tree"
    using tree_codec.decode_encode [OF head_tree_valid]
    by (simp add: tree_at_def head_get_def tree_content_id_def check_tree_def result_simps runtime_inputs_def)
       (simp add: LIMITS_V0_def head_tree_def)
  have no_children: "mf_children head_manifest = []" by (simp add: head_manifest_def)
  have only: "t = ?t \<and> i = ?i \<and> m = head_manifest" if "closure_node ?ci ?t ?i head_manifest t i m" for t i m
    using that by (induction rule: closure_node.induct) (auto simp: no_children)
  have node: "closure_node ?ci ?t ?i head_manifest t i m \<longleftrightarrow> t = ?t \<and> i = ?i \<and> m = head_manifest" for t i m
    using only closure_node.root by blast
  have content: "chunks_of (tn_entries head_tree) = {Ident 9}" "dirs_of (tn_entries head_tree) = {}"
    by (auto simp: head_tree_def chunks_of_def dirs_of_def)
  have tree: "reachable_tree ?ci ?t ?i head_manifest t \<longleftrightarrow> t = ?t" for t by (auto simp: reachable_tree_def node)
  have chunk: "reachable_chunk ?ci ?t ?i head_manifest c \<longleftrightarrow> c = Ident 9" for c
    using at content tree_at_unique [OF at] by (auto simp: reachable_chunk_def tree)
  have "node_agrees ?ci ?t head_manifest"
    using at content unfolding node_agrees_def
    by (intro exI [of _ "tree_encode head_tree"] exI [of _ head_tree])
       (simp add: no_children declares_chunk_def entry_lookup_def, simp add: head_manifest_def fmlookup_of_list)
  moreover have "manifest_good ?ci (snapshot_id_of head_kdf head_snapshot) ?i head_manifest"
    by (simp add: manifest_good_def head_manifest_def entries_ascending_def children_ascending_def check_manifest_def result_simps
        runtime_inputs_def LIMITS_V0_def)
  moreover have "\<forall>e \<in> set (mf_entries head_manifest). entry_agrees ?ci ?t ?i head_manifest e"
    using head_tree_id by (simp add: entry_agrees_def tree chunk Let_def) (simp add: head_manifest_def)
  ultimately have "corresponds ?ci (snapshot_id_of head_kdf head_snapshot) ?t ?i head_manifest"
    by (simp add: corresponds_def node no_children)
  then show ?thesis
    using verify_corresponds [of ?ci head_snapshot ?i head_manifest]
    by (simp add: verify_head_closure_def head_root) (simp add: head_snapshot_def)
qed

definition head_backing :: "(unit, unit) backing" where
  "head_backing = \<lparr>bk_ops = \<lparr>os_insert = (\<lambda>k d s. (Inl (), s)), os_insert_verified = (\<lambda>k i d s. (Inl (), s)),
      os_get = (\<lambda>i s. head_get i), os_has = (\<lambda>i s. Inl ())\<rparr>, bk_errors = default_store_error, bk_derive = head_kdf\<rparr>"

definition head_view :: "unit drive_view" where
  "head_view = drive_new () (\<lambda>_. Available) [head_snapshot]"

lemma head_resolves:
  "resolve_one head_backing head_view (sn_tree head_snapshot) [Component [0x61]] = Inr (Some (FileNode 3 False [Ident 9]))"
proof -
  have "tree_decode (tree_encode head_tree) = Inr head_tree" by (rule tree_codec.decode_encode [OF head_tree_valid])
  then have "view_load_tree head_backing head_view (tree_content_id head_kdf head_tree) = Inr head_tree"
    by (simp add: view_load_tree_def stored_bytes_def store_read_def result_simps head_view_def drive_new_def drive_shared_def
        shared_new_def head_backing_def head_get_def tree_content_id_def)
  moreover have "tree_get head_tree (Component [0x61]) = Some \<lparr>en_name = Component [0x61], en_content = File 3 False [Ident 9]\<rparr>"
    using tree_get_Some [of head_tree "Component [0x61]"] head_tree_valid by (simp add: tree_valid_def) (simp add: head_tree_def)
  ultimately show ?thesis by (simp add: head_snapshot_def result_simps)
qed

theorem verified_head_served_witness:
  "verify_head_closure head_kdf head_get (\<lambda>_. Transient) head_runtime LIMITS_V0 head_snapshot = Inr ()
   \<and> resolve_one head_backing head_view (sn_tree head_snapshot) [Component [0x61]] = Inr (Some (FileNode 3 False [Ident 9]))
   \<and> (is_local head_runtime (Ident 9) \<or> materialization_of head_runtime (Ident 9) = MRemoteOnly
     \<or> Ident 9 |\<in>| fmdom (rc_pending_objects (runtime_reconcile_of head_runtime)))"
proof -
  have "\<not> sh_poisoned (dv_store head_view)" "os_get (bk_ops head_backing) i (sh_store (dv_store head_view)) = head_get i" for i
    by (simp_all add: head_view_def drive_new_def drive_shared_def shared_new_def head_backing_def)
  from verified_head_served [OF head_verified this, of "[Component [0x61]]"] show ?thesis
    unfolding head_resolves using head_verified by fastforce
qed

section \<open>A head that is still incomplete\<close>

lemma is_pending_class: "is_pending e \<longleftrightarrow> rejection_class_of e = Some Incomplete"
  by (cases e) auto

text \<open>What a pending verdict of the walk points at: a tree that is not stored or a link with no record.\<close>

definition missing_at :: "'e closure_inputs \<Rightarrow> content_id \<Rightarrow> manifest \<Rightarrow> 'e closure_error \<Rightarrow> bool" where
  "missing_at ci t m e \<longleftrightarrow> e = TreeUnavailable t \<and> ci_get ci t = Inr None
     \<or> (\<exists>link \<in> set (mf_children m). e = MissingChildManifestRecord (cm_tree link) (cm_manifest link)
          \<and> ci_manifest ci (cm_manifest link) = None)"

lemma map_err_Inl: "map_err f r = Inl e \<longleftrightarrow> (\<exists>x. r = Inl x \<and> e = f x)"
  by (cases r) (auto simp: map_err_def)

lemma load_pending: "load_closure_tree ci t = Inl e \<Longrightarrow> is_pending e \<Longrightarrow> e = TreeUnavailable t \<and> ci_get ci t = Inr None"
  by (auto simp: load_closure_tree_def result_simps map_err_Inl split: sum.splits option.splits if_splits)

lemma check_each_Inl: "check_each f xs = Inl e \<Longrightarrow> \<exists>x \<in> set xs. f x = Inl e"
  by (induction xs) (auto simp: result_simps)

lemma check_chunk_not_pending: "check_chunk m t c = Inl e \<Longrightarrow> \<not> is_pending e"
  by (auto simp: check_chunk_def split: option.splits if_splits)

lemma scan_not_pending: "scan_entries m t es chunks dirs = Inl e \<Longrightarrow> \<not> is_pending e"
proof (induction es arbitrary: chunks dirs)
  case (Cons entry es)
  then show ?case
    by (cases "en_content entry") (auto simp: result_simps dest!: check_each_Inl check_chunk_not_pending)
qed simp

lemma accept_child_pending:
  "accept_child ci snap d link = Inl e \<Longrightarrow> is_pending e \<Longrightarrow>
   e = MissingChildManifestRecord d (cm_manifest link) \<and> ci_manifest ci (cm_manifest link) = None"
  by (auto simp: accept_child_def check_canonical_def result_simps map_err_Inl Let_def split: option.splits if_splits)

lemma link_pending:
  assumes "children_ascending (mf_children m)"
  shows "link_directories ci snap t m dirs mapping stack = Inl e \<Longrightarrow> is_pending e \<Longrightarrow> missing_at ci t m e"
proof (induction dirs arbitrary: mapping stack)
  case (Cons d dirs)
  from Cons.prems obtain link where l: "fmlookup (link_lookup m) d = Some link" by (auto split: option.splits)
  then have link: "link \<in> set (mf_children m)" "cm_tree link = d" using link_lookup_iff [OF assms] by auto
  show ?case
  proof (cases "fmlookup mapping d")
    case None
    show ?thesis
    proof (cases "accept_child ci snap d link")
      case (Inl e')
      with Cons.prems l None accept_child_pending [OF Inl] link show ?thesis by (auto simp: missing_at_def)
    next
      case (Inr c)
      with Cons.prems l None Cons.IH show ?thesis by simp
    qed
  qed (use Cons l in \<open>auto split: if_splits\<close>)
qed simp

lemma visit_pending:
  assumes asc: "children_ascending (mf_children m)" and v: "visit ci snap t m w = Inl e" and p: "is_pending e"
  shows "missing_at ci t m e"
proof -
  from v consider "load_closure_tree ci t = Inl e"
    | es chunks where "scan_entries m t es chunks {||} = Inl e"
    | dirs where "check_each (check_link t dirs) (mf_children m) = Inl e"
    | dirs mapping stack where "link_directories ci snap t m dirs mapping stack = Inl e"
    unfolding visit_def by (auto simp: result_simps)
  then show ?thesis
  proof cases
    case 1
    with load_pending [OF 1 p] show ?thesis by (simp add: missing_at_def)
  next
    case 2
    with scan_not_pending p show ?thesis by blast
  next
    case 3
    with p show ?thesis by (auto simp: check_link_def dest!: check_each_Inl split: if_splits)
  next
    case 4
    with link_pending [OF asc] p show ?thesis by blast
  qed
qed

lemma walk_pending:
  assumes "walk_ok ci snap t0 i0 m0 w" "walk_closure ci snap w = Inl e" "is_pending e"
  shows "\<exists>t i m. closure_node ci t0 i0 m0 t i m \<and> missing_at ci t m e"
  using assms
proof (induction ci snap w rule: walk_closure.induct)
  case (1 ci snap w)
  show ?case
  proof (cases "cw_stack w")
    case Nil
    with "1.prems" show ?thesis by (simp add: walk_closure.simps [of ci snap w])
  next
    case (Cons p stack)
    obtain t m where p: "p = (t, m)" by fastforce
    note stack = Cons [unfolded p]
    from top_node [OF "1.prems"(1) stack] obtain i where node: "closure_node ci t0 i0 m0 t i m" and "manifest_good ci snap i m"
      by blast
    then have asc: "children_ascending (mf_children m)" by (simp add: manifest_good_def)
    show ?thesis
    proof (cases "visit ci snap t m (w\<lparr>cw_stack := stack\<rparr>)")
      case (Inl e')
      with "1.prems"(2) stack have "e' = e" by (simp add: walk_closure.simps [of ci snap w])
      with visit_pending [OF asc] Inl "1.prems"(3) node show ?thesis by blast
    next
      case (Inr w1)
      with "1.prems"(2) stack have "walk_closure ci snap w1 = Inl e" by (simp add: walk_closure.simps [of ci snap w])
      with "1.IH" [OF Cons p [symmetric] Inr] visit_ok [OF "1.prems"(1) stack Inr] "1.prems"(3) show ?thesis by blast
    qed
  qed
qed

lemma verify_pending:
  assumes v: "verify_snapshot_manifest ci s root_id root = Inl e" and p: "is_pending e"
  shows "\<exists>t i m. closure_node ci (sn_tree s) root_id root t i m \<and> missing_at ci t m e"
proof -
  let ?snap = "snapshot_id_of (ci_derive ci) s"
  have declared: "check_declared w x = Inl e \<Longrightarrow> False" for w x
    using p by (auto simp: check_declared_def Let_def split: if_splits option.splits)
  have "\<not> is_pending (ClosureIngest x)" "check_canonical root \<noteq> Inl e" for x
    using p by (auto simp: check_canonical_def split: if_splits)
  then have good: "manifest_good ci ?snap root_id root" and walk: "walk_closure ci ?snap (walk_start (sn_tree s) root_id root) = Inl e"
    using v p
    by (auto simp: verify_snapshot_manifest_def manifest_good_def check_canonical_Inr result_simps map_err_Inl Let_def
        split: if_splits dest!: check_each_Inl declared)
  from walk_pending [OF walk_start_ok [OF good] walk p] show ?thesis .
qed

lemma no_root_indexed:
  assumes reach: "(runtime_step dk)\<^sup>*\<^sup>* (runtime_new drive) st" and none: "root_manifest_record st snap = None"
  shows "fmlookup (rt_root_manifests_by_snapshot st) snap = None"
proof (rule ccontr)
  have ok: "manifests_ok dk st" using reachable_ok [OF reach] by (simp add: runtime_ok_def)
  assume "fmlookup (rt_root_manifests_by_snapshot st) snap \<noteq> None"
  then obtain ids where ids: "fmlookup (rt_root_manifests_by_snapshot st) snap = Some ids" by blast
  with ok have "ids \<noteq> {||}" unfolding manifests_ok_def by blast
  then obtain i where "i |\<in>| ids" by auto
  with ids root_index [OF ok] have "root_of st snap i" by blast
  with root_manifest_record_cases [OF ok, of snap] none show False by auto
qed

text \<open>
  C11. A verdict of the head gate that counts as incomplete names something that is absent in the head's closure, and
  whether the fetch plan asks for it is decided as follows.  A missing root record is planned exactly when the head is
  announced.  A missing record of a child manifest is always planned.  A missing tree is planned exactly when
  the device does not claim to hold it and some recorded manifest maps it as a tree or as content to be cached or
  pinned, so for a tree that no recorded manifest maps the verdict stays and nothing is fetched.
\<close>

theorem incomplete_head_planned:
  assumes reach: "(runtime_step dk)\<^sup>*\<^sup>* (runtime_new drive) st"
    and verdict: "verify_head_closure dk get failure st limits s = Inl e" "rejection_class_of e = Some Incomplete"
  shows "(e = RootManifestMissing (snapshot_id_of dk s) \<and> root_manifest_record st (snapshot_id_of dk s) = None
      \<and> (snapshot_id_of dk s |\<in>| rc_pending_snapshots (runtime_reconcile_of st)
          \<longleftrightarrow> snapshot_id_of dk s |\<in>| fmdom (rt_announcements st)))
    \<or> (\<exists>root t i m. root_manifest_record st (snapshot_id_of dk s) = Some root
      \<and> closure_node (runtime_inputs dk get failure st limits) (sn_tree s) (mr_manifest_id root) (mr_manifest root) t i m
      \<and> ((\<exists>link \<in> set (mf_children m). e = MissingChildManifestRecord (cm_tree link) (cm_manifest link)
            \<and> fmlookup (rt_manifests st) (cm_manifest link) = None
            \<and> cm_manifest link |\<in>| fmdom (rc_pending_manifests (runtime_reconcile_of st)))
        \<or> (e = TreeUnavailable t \<and> get t = Inr None
          \<and> (t |\<in>| fmdom (rc_pending_objects (runtime_reconcile_of st)) \<longleftrightarrow>
              (\<exists>j r x. fmlookup (rt_manifests st) j = Some r \<and> x \<in> set (mf_entries (mr_manifest r)) \<and> me_content_id x = t
                \<and> t |\<notin>| rt_local_objects st
                \<and> (me_kind x = Tree \<or> fmlookup (rt_materialization st) t \<in> {Some MCached, Some MPinned}))))))"
proof (cases "root_manifest_record st (snapshot_id_of dk s)")
  case None
  let ?snap = "snapshot_id_of dk s"
  have "fmlookup (rt_root_manifests_by_snapshot st) ?snap = None" using no_root_indexed [OF reach None] .
  with None verdict(1) show ?thesis by (auto simp: verify_head_closure_def runtime_reconcile_of_def Let_def)
next
  case (Some root)
  let ?ci = "runtime_inputs dk get failure st limits"
  from Some verdict(1) have "verify_snapshot_manifest ?ci s (mr_manifest_id root) (mr_manifest root) = Inl e"
    by (simp add: verify_head_closure_def)
  moreover have "is_pending e" using verdict(2) by (simp add: is_pending_class)
  ultimately obtain t i m where node: "closure_node ?ci (sn_tree s) (mr_manifest_id root) (mr_manifest root) t i m"
    and missing: "missing_at ?ci t m e" using verify_pending by blast
  have rec: "recorded st m" using closure_node_recorded [OF node root_manifest_recorded [OF Some]] .
  note object = in_pending_objects [of t st, unfolded in_recorded_entries wanted_iff]
  from missing consider "e = TreeUnavailable t" "get t = Inr None"
    | link where "link \<in> set (mf_children m)" "e = MissingChildManifestRecord (cm_tree link) (cm_manifest link)"
      "fmlookup (rt_manifests st) (cm_manifest link) = None"
    by (auto simp: missing_at_def)
  then show ?thesis
  proof cases
    case 1
    with Some node object show ?thesis by blast
  next
    case 2
    then have "link \<in> set (recorded_children st)" using rec unfolding recorded_def in_recorded_children by blast
    with 2 have "cm_manifest link |\<in>| fmdom (rc_pending_manifests (runtime_reconcile_of st))" by (auto simp: in_pending_manifests)
    with 2 Some node show ?thesis by blast
  qed
qed

text \<open>An announced head with no record, and heads whose tree is missing, mapped by the root manifest or not.\<close>

definition announced_runtime :: runtime_state where
  "announced_runtime = snd (record_announcement
     \<lparr>ann_snapshot = snapshot_id_of head_kdf head_snapshot, ann_author = Ident 2, ann_epoch = 1, ann_membership = Ident 3,
      ann_body_root = Ident 4, ann_root_manifest = Ident 5, ann_root_manifest_transport = Ident 6, ann_node_addr = None,
      ann_signature = 0\<rparr> (runtime_new (Ident 0)))"

definition mapped_manifest :: manifest where
  "mapped_manifest = \<lparr>mf_snapshot = snapshot_id_of head_kdf head_snapshot,
     mf_entries = [\<lparr>me_content_id = sn_tree head_snapshot, me_kind = Tree, me_version = 0, me_storage_id = Ident 8,
       me_encryption_epoch = 1, me_size = 3, me_transport = Ident 7\<rparr>], mf_children = []\<rparr>"

definition bare_get :: "content_id \<Rightarrow> unit + bytes option" where
  "bare_get i = Inr None"

lemma bare_verdict:
  assumes "m \<in> {head_manifest, mapped_manifest}"
  shows "verify_head_closure head_kdf bare_get (\<lambda>_. Transient) (gate_runtime m) LIMITS_V0 head_snapshot
    = Inl (TreeUnavailable (sn_tree head_snapshot))"
proof -
  have "mf_snapshot m = snapshot_id_of head_kdf head_snapshot" "mf_children m = []"
    using assms by (auto simp: head_manifest_def mapped_manifest_def)
  note gate_root [OF this] and this
  moreover have "entries_ascending (mf_entries m)" "children_ascending (mf_children m)"
    "check_manifest LIMITS_V0 m = (Inr () :: ingest_error + unit)"
    using assms by (auto simp: head_manifest_def mapped_manifest_def entries_ascending_def children_ascending_def check_manifest_def
        result_simps LIMITS_V0_def)
  ultimately show ?thesis
    by (simp add: verify_head_closure_def verify_snapshot_manifest_def check_canonical_def result_simps Let_def walk_start_def
        walk_closure.simps visit_def load_closure_tree_def bare_get_def runtime_inputs_def)
qed

lemma gate_fields:
  assumes "mf_children m = []"
  shows "rt_manifests (gate_runtime m) = fmupd (manifest_identity head_kdf m)
      \<lparr>mr_is_root = True, mr_manifest_id = manifest_identity head_kdf m, mr_representations = fmempty,
       mr_transport = Ident 5, mr_manifest = m\<rparr> fmempty"
    "rt_local_objects (gate_runtime m) = {||}" "rt_materialization (gate_runtime m) = fmempty"
  by (simp_all add: gate_runtime_def record_manifest_def insert_manifest_def runtime_new_def assms
      transport_is_represented_def manifest_identity_def Let_def)

lemma gate_reach: "(runtime_step head_kdf)\<^sup>*\<^sup>* (runtime_new (Ident 0)) (gate_runtime m)"
  unfolding gate_runtime_def by (intro r_into_rtranclp runtime_step.intros)

theorem incomplete_head_planned_witness:
  "verify_head_closure head_kdf head_get (\<lambda>_. Transient) announced_runtime LIMITS_V0 head_snapshot
     = Inl (RootManifestMissing (snapshot_id_of head_kdf head_snapshot))
   \<and> snapshot_id_of head_kdf head_snapshot |\<in>| rc_pending_snapshots (runtime_reconcile_of announced_runtime)
   \<and> verify_head_closure head_kdf bare_get (\<lambda>_. Transient) (gate_runtime mapped_manifest) LIMITS_V0 head_snapshot
     = Inl (TreeUnavailable (sn_tree head_snapshot))
   \<and> sn_tree head_snapshot |\<in>| fmdom (rc_pending_objects (runtime_reconcile_of (gate_runtime mapped_manifest)))
   \<and> verify_head_closure head_kdf bare_get (\<lambda>_. Transient) (gate_runtime head_manifest) LIMITS_V0 head_snapshot
     = Inl (TreeUnavailable (sn_tree head_snapshot))
   \<and> sn_tree head_snapshot |\<notin>| fmdom (rc_pending_objects (runtime_reconcile_of (gate_runtime head_manifest)))"
proof -
  have none: "root_manifest_record announced_runtime (snapshot_id_of head_kdf head_snapshot) = None"
    and dom: "snapshot_id_of head_kdf head_snapshot |\<in>| fmdom (rt_announcements announced_runtime)"
    by (simp_all add: announced_runtime_def record_announcement_def insert_announcement_def runtime_new_def
        root_manifest_record_def)
  have v: "verify_head_closure head_kdf head_get (\<lambda>_. Transient) announced_runtime LIMITS_V0 head_snapshot
     = Inl (RootManifestMissing (snapshot_id_of head_kdf head_snapshot))"
    by (simp add: verify_head_closure_def none)
  have reach: "(runtime_step head_kdf)\<^sup>*\<^sup>* (runtime_new (Ident 0)) announced_runtime"
    unfolding announced_runtime_def by (intro r_into_rtranclp runtime_step.intros)
  note bare = bare_verdict [of mapped_manifest] bare_verdict [of head_manifest]
  have other: "sn_tree head_snapshot \<noteq> Ident 9" using head_tree_id by (simp add: head_snapshot_def)
  have "sn_tree head_snapshot |\<in>| fmdom (rc_pending_objects (runtime_reconcile_of (gate_runtime mapped_manifest)))"
    using incomplete_head_planned [OF gate_reach bare(1)] gate_fields [of mapped_manifest]
    by (auto simp: mapped_manifest_def)
  moreover have "sn_tree head_snapshot |\<notin>| fmdom (rc_pending_objects (runtime_reconcile_of (gate_runtime head_manifest)))"
    using incomplete_head_planned [OF gate_reach bare(2)] gate_fields [of head_manifest] other
    by (auto simp: head_manifest_def split: if_splits)
  ultimately show ?thesis using incomplete_head_planned [OF reach v] v bare none dom by simp
qed

end
