(* ===== verification/Spec2Isabelle.thy ===== *)
theory Spec2Isabelle
  imports Wyrd_Eligibility Wyrd_Files Wyrd_Serving Wyrd_Confinement
    Wyrd_Rename Wyrd_Keyring Wyrd_Inbox Wyrd_Heads
begin

text \<open>
  A verification development of Wyrd, an end-to-end encrypted shared drive whose members write
  signed snapshots of a directory tree and agree on the membership by a signed transition log.

  \<^bold>\<open>The program and its parts.\<close>  A device keeps objects (chunks, trees, snapshots) in a
  content-addressed store.  A write cuts a file into chunks, stores them, and rebuilds the trees
  from the changed entry to a new root; the author signs a snapshot of that root, binding it to a
  membership transition and an epoch.  Peers exchange transitions and snapshots in any order.
  Each peer classifies its log (which transitions are canonical, contested, voided, invalid) and
  its snapshot graph (which snapshots are authorized and live), and mounts the eligible heads as one
  namespace, where paths on which heads differ are merged or served as conflicts.  Announcements, transitions and
  epoch capabilities travel as sealed control messages; what arrives passes an inbox, is recorded in the runtime
  state, and drives a fetch plan; a head is installed once its trees and manifests have been verified against each other.

  \<^bold>\<open>Theories and sources\<close> (paths under \<open>src/crates\<close>).
  \<^item> \<open>Wyrd_Prelude\<close>: machine words, results, little and big endian codecs, UTF-8, the locale
    \<open>wire_item\<close> of self-delimiting encodings.
  \<^item> \<open>Wyrd_Identity\<close>: \<open>wyrd-format/src/{identity,signing,envelope}.rs\<close>.  One phantom-typed \<open>ident\<close>
    for the eight identifier types; the keyed hash is the parameter \<open>kdf\<close>.
  \<^item> \<open>Wyrd_Snapshot\<close>, \<open>Wyrd_Transition\<close>, \<open>Wyrd_Tree\<close>, \<open>Wyrd_Manifest\<close>: the record, constructor,
    encoder and decoder of \<open>wyrd-format/src/{snapshot,membership,tree,manifest}.rs\<close>.
  \<^item> \<open>Wyrd_Store\<close>: \<open>store.rs\<close>; a store is a record of operations, the locale \<open>object_store\<close> is its contract,
    interpreted on the memory store and on the lock-guarded shared store.
  \<^item> \<open>Wyrd_Chunk\<close>: \<open>chunk.rs\<close>; the FastCDC cutter is a parameter whose documented tiling of the data is
    the predicate \<open>tiles\<close>.
  \<^item> \<open>Wyrd_Mutation\<close>: \<open>mutation.rs\<close>, the six tree operations over any store; \<open>Wyrd_Paths\<close>,
    \<open>Wyrd_Refinement\<close>, \<open>Wyrd_Namespace\<close>, \<open>Wyrd_Operations\<close>, \<open>Wyrd_Filesystem\<close>: the abstract
    namespace (paths to nodes), its update functions, and the simulation between the two.  \<open>Wyrd_Rename\<close>: renames that
    succeed, and the rename of a directory onto its parent.
  \<^item> \<open>Wyrd_Members\<close>, \<open>Wyrd_Chain\<close>: \<open>wyrd-sync/src/membership/{state,validate,chain}.rs\<close>; the signature scheme is
    the parameter \<open>crypto\<close>.  \<open>Wyrd_Links\<close>, \<open>Wyrd_Walk\<close>: the invariants of link validation and of the
    canonicality walk.  \<open>Wyrd_Log\<close>: \<open>membership/mod.rs\<close>, the log with its cached analysis.
    \<open>Wyrd_Membership\<close>: the properties; \<open>Wyrd_Sample\<close>: concrete logs.
  \<^item> \<open>Wyrd_Authorization\<close>: \<open>wyrd-sync/src/authorization\<close>; \<open>Wyrd_Lineage\<close>, \<open>Wyrd_Eligibility\<close>: its fixed points and
    properties.
  \<^item> \<open>Wyrd_Drive\<close>: the view types of \<open>wyrd-namespace/src/view.rs\<close> and \<open>wyrd-fuse/src/view/{drive,merge,grammar}.rs\<close>;
    \<open>Wyrd_Reading\<close>, \<open>Wyrd_Files\<close>, \<open>Wyrd_Serving\<close>: reads, the way from a write to a read, and what heads
    that differ show.  \<open>Wyrd_Confine\<close>: the symlink resolver of \<open>view.rs\<close>; \<open>Wyrd_Confinement\<close>: what its
    verdicts mean.
  \<^item> \<open>Wyrd_Crypto\<close>, \<open>Wyrd_Capability\<close>, \<open>Wyrd_Keyring\<close>: \<open>wyrd-sync/src/keys/{mod,aead,epoch,owner_proof}.rs\<close> and
    \<open>keys/capability\<close>: epoch keys, capability documents and their authorization, the keyring.
  \<^item> \<open>Wyrd_Control\<close>, \<open>Wyrd_Sealed\<close>: \<open>control/{message,mod,rotation,bootstrap,nip46}.rs\<close>: control messages, the sealed forms
    and the inbox.  \<open>Wyrd_Delivery\<close>: from sealing to opening; \<open>Wyrd_Inbox\<close>: runs of an inbox.
  \<^item> \<open>Wyrd_Ingest\<close>: \<open>ingest.rs\<close>, the ceilings on what a peer may send.
  \<^item> \<open>Wyrd_Runtime\<close>: \<open>runtime/mod.rs\<close> and \<open>runtime/state\<close>, every operation on the runtime state.  \<open>Wyrd_Outbox\<close>: the three
    outboxes as instances of the locale \<open>outbox\<close>; \<open>Wyrd_Records\<close>: the invariant of all reachable states; \<open>Wyrd_Plan\<close>:
    the fetch plan.
  \<^item> \<open>Wyrd_Closure\<close>: \<open>closure.rs\<close>, the verifier of a snapshot against its manifest hierarchy and the head gate.
    \<open>Wyrd_Correspond\<close>: the relation it decides; \<open>Wyrd_Heads\<close>: what its verdicts mean for serving and for fetching.
  \<^item> This theory: two peers, across the log, the graph and the view.

  \<^bold>\<open>How state and effects are modelled.\<close>  Structs are records and enums datatypes under the source's
  names; strings are byte lists that a decoder checks to be UTF-8; \<open>u8\<close>, \<open>u32\<close>, \<open>u64\<close> are words; a
  \<open>BTreeMap\<close> is a finite map read in key order.  Errors are the left of a sum.  Operations on a store are
  functions from a state to a result and a state, so that what a failing operation has already written
  is visible.  Loops are recursions: structural where the code iterates a list, with a measure for the
  fixed points, and with fuel in three places where the code recurses on data: the link closure and the
  canonicality walk, where the number of observed transitions bounds the fuel, and the symlink resolver,
  where it is two more than the component limit.  In all three the fuel is proved never to run out.  The worklist
  of the closure verifier ends by a measure: every push enters a new tree into a mapping over finitely many
  identifiers.  Random draws are arguments, and the 4096 verdicts an inbox keeps are the source's constant.

  \<^bold>\<open>What the lemmas show.\<close>  Codecs: decoding succeeds exactly on canonical bytes.  Membership: the
  analysis always ends, the canonical list is a chain of validly signed steps, forks are resolved only by an
  explicit unique resolution, identities are used once, and neither order nor caching shows.  Authorization:
  the live view is the greatest fixed point of the lineage rule, and everything below an eligible head is
  authorized.  Mutations: each operation implements its update of the namespace and only adds objects to
  the store.  Serving: reads return exactly the bytes written, no head wins silently, head order does not
  show, and symlink confinement decides containment and always ends.  Deliveries: what is sealed opens, for the
  device it is meant for, to what was sealed, and an inbox accepts a message at most once.  Runtime state: reachable
  states are well formed, the outboxes do not depend on the order of their facts, the fetch plan is exactly what is
  recorded and not held, and what arrives is exactly what leaves it.  Heads: the verifier accepts exactly the
  snapshots whose trees and manifests correspond, a head it accepts can be served, and an incomplete head is
  planned under conditions that are stated exactly.

  \<^bold>\<open>Assumptions.\<close>  The hash, the signature scheme, the sealing (curve, key derivation and AEAD) and the chunker are
  parameters.  Where a theorem needs it, hypotheses say that no two payloads at hand derive the same identifier,
  that the chunker tiles its input, that a signature made by a key verifies under it, that both sides of an
  agreement derive the same secret, and that opening inverts sealing.

  \<^bold>\<open>Not modelled.\<close>  The file store and the durable fact log (file-system calls, crash ordering and replay), key
  files and device secrets, the network transports and bulk transfer, the asynchronous runtime and the engine
  over it, the FUSE callback layer, process supervision and the command line: their behaviour is that of
  operating-system services, of threads and channels, and of third-party crates.
\<close>

section \<open>Two peers\<close>

text \<open>
  What a peer does with its membership log and its snapshot graph, in the order it happens:
  observing a transition, observing a snapshot, and reading the log, which fills its cache.
\<close>

datatype event = Heard membership_transition | Received snapshot | Asked

record peer =
  pr_log :: membership_log
  pr_dag :: snapshot_dag

fun peer_step :: "crypto \<Rightarrow> event \<Rightarrow> peer \<Rightarrow> peer" where
  "peer_step cr (Heard t) p = p\<lparr>pr_log := snd (log_observe cr t (pr_log p))\<rparr>"
| "peer_step cr (Received s) p = p\<lparr>pr_dag := snd (dag_observe (cr_derive_key cr) s (pr_dag p))\<rparr>"
| "peer_step cr Asked p = p\<lparr>pr_log := snd (with_analysis cr (pr_log p) (\<lambda>_. ()))\<rparr>"

definition peer_after :: "crypto \<Rightarrow> drive_id \<Rightarrow> event list \<Rightarrow> peer" where
  "peer_after cr drive es = fold (peer_step cr) es \<lparr>pr_log = log_new drive, pr_dag = dag_new drive\<rparr>"

definition transitions_in :: "event list \<Rightarrow> membership_transition set" where
  "transitions_in es = {t. Heard t \<in> set es}"

definition snapshots_in :: "event list \<Rightarrow> snapshot set" where
  "snapshots_in es = {s. Received s \<in> set es}"

lemma peer_after_simps [simp]:
  "peer_after cr drive [] = \<lparr>pr_log = log_new drive, pr_dag = dag_new drive\<rparr>"
  "peer_after cr drive (es @ [e]) = peer_step cr e (peer_after cr drive es)"
  by (simp_all add: peer_after_def)

lemma events_in_simps [simp]:
  "transitions_in [] = {}" "snapshots_in [] = {}"
  "transitions_in (es @ [e]) = (case e of Heard t \<Rightarrow> insert t (transitions_in es) | _ \<Rightarrow> transitions_in es)"
  "snapshots_in (es @ [e]) = (case e of Received s \<Rightarrow> insert s (snapshots_in es) | _ \<Rightarrow> snapshots_in es)"
  by (auto simp: transitions_in_def snapshots_in_def split: event.splits)

text \<open>A map that holds exactly the elements of a set, each under its own identifier.\<close>

definition keyed :: "('a \<Rightarrow> 'i) \<Rightarrow> ('i, 'a) fmap \<Rightarrow> 'a set \<Rightarrow> bool" where
  "keyed f m S \<longleftrightarrow> (\<forall>i x. fmlookup m i = Some x \<longleftrightarrow> x \<in> S \<and> f x = i)"

lemma keyed_upd: "inj_on f (insert x S) \<Longrightarrow> keyed f m S \<Longrightarrow> keyed f (fmupd (f x) x m) (insert x S)"
  by (auto simp: keyed_def inj_on_def)

lemma keyed_unique: "keyed f m S \<Longrightarrow> keyed f m' S \<Longrightarrow> m = m'"
  unfolding keyed_def by (intro fmap_ext) (metis option.exhaust)

lemma peer_log:
  "log_reach cr drive (pr_log (peer_after cr drive es))"
proof (induction es rule: rev_induct)
  case (snoc e es)
  then show ?case by (cases e) (auto intro: log_reach.intros)
qed (simp add: log_reach.new)

lemma peer_holds:
  "inj_on (transition_id_of (cr_derive_key cr)) (transitions_in es) \<Longrightarrow>
    keyed (transition_id_of (cr_derive_key cr)) (ml_transitions (pr_log (peer_after cr drive es))) (transitions_in es)"
  "inj_on (snapshot_id_of (cr_derive_key cr)) (snapshots_in es) \<Longrightarrow>
    keyed (snapshot_id_of (cr_derive_key cr)) (dg_snapshots (pr_dag (peer_after cr drive es))) (snapshots_in es)"
  "dg_drive (pr_dag (peer_after cr drive es)) = drive"
proof (induction es rule: rev_induct)
  case (snoc e es)
  { case 1
    with snoc show ?case
      by (cases e) (auto simp: log_observe_def with_analysis_def Let_def intro!: keyed_upd intro: inj_on_subset) }
  { case 2
    with snoc show ?case
      by (cases e) (auto simp: dag_observe_def Let_def intro!: keyed_upd intro: inj_on_subset) }
  { case 3
    with snoc show ?case by (cases e) (auto simp: dag_observe_def Let_def) }
qed (simp_all add: keyed_def log_new_def dag_new_def)

text \<open>The classification reads the log and never its cache.\<close>

lemma classify_uncached:
  assumes "log_reach cr drive log" "log_reach cr drive log'" "ml_transitions log = ml_transitions log'"
  shows "dag_classify cr log dag = dag_classify cr log' dag"
proof -
  have "uncached log = uncached log'"
    using assms(3) log_reach_inv [OF assms(1)] log_reach_inv [OF assms(2)] by (simp add: uncached_def)
  then have served: "served cr log = served cr log'" by (simp add: served_def)
  have trans: "log_transition log = log_transition log'" using assms(3) by (simp add: log_transition_def fun_eq_iff)
  note reads = read_value [OF assms(1)] read_value [OF assms(2)]
  have state: "log_state_of cr log = log_state_of cr log'" by (simp add: fun_eq_iff log_state_of_def reads served)
  have known: "log_known_state cr log = log_known_state cr log'" unfolding log_known_state_def reads served trans ..
  have pre: "preverdict cr d log = preverdict cr d log'" for d
    by (intro ext) (unfold preverdict_def trans log_members_of_def log_readers_of_def state, rule refl)
  have "judged cr log dag k = judged cr log' dag k" for k
    unfolding judged_def known log_statuses_def reads served pre log_owners_of_def state ..
  then show ?thesis by (simp add: dag_classify_def classify_at_epoch_def engine_of_def known)
qed

text \<open>
  C8. Peers converge. Two peers of a drive that have observed the same transitions and the same
  snapshots, in whatever orders and with whatever repeats and reads in between, classify every
  snapshot alike, hold the same eligible heads in the same order, and serve every path of a drive
  mounted over those heads alike.  The derived identifiers must not collide on what was observed.
\<close>

theorem peers_converge:
  assumes "transitions_in es = transitions_in fs" "snapshots_in es = snapshots_in fs"
    and "inj_on (transition_id_of (cr_derive_key cr)) (transitions_in es)"
    and "inj_on (snapshot_id_of (cr_derive_key cr)) (snapshots_in es)"
    and "p = peer_after cr drive es" "q = peer_after cr drive fs"
  shows "dag_classify cr (pr_log p) (pr_dag p) = dag_classify cr (pr_log q) (pr_dag q)
    \<and> eligible_head_bodies cr (pr_log p) (pr_dag p) = eligible_head_bodies cr (pr_log q) (pr_dag q)
    \<and> lookup bk (drive_new s m (eligible_head_bodies cr (pr_log p) (pr_dag p))) path
      = lookup bk (drive_new s m (eligible_head_bodies cr (pr_log q) (pr_dag q))) path"
proof -
  have "ml_transitions (pr_log p) = ml_transitions (pr_log q)"
    using peer_holds(1) [of cr es drive] peer_holds(1) [of cr fs drive] assms by (auto intro: keyed_unique)
  from classify_uncached [OF _ _ this] have c: "dag_classify cr (pr_log p) dag = dag_classify cr (pr_log q) dag" for dag
    using peer_log unfolding assms(5,6) by blast
  have "dg_snapshots (pr_dag p) = dg_snapshots (pr_dag q)"
    using peer_holds(2) [of cr es drive] peer_holds(2) [of cr fs drive] assms by (auto intro: keyed_unique)
  moreover have "dg_drive (pr_dag p) = dg_drive (pr_dag q)" by (simp add: assms(5,6) peer_holds(3))
  ultimately have "pr_dag p = pr_dag q" by simp
  with c show ?thesis by (simp add: eligible_head_bodies_def eligible_heads_def)
qed

theorem peers_converge_witness:
  "dag_classify sample_cr
      (pr_log (peer_after sample_cr (Ident 9) [Heard sample_genesis, Asked, Received (sample_snapshot [] 311 1 0), Heard (sample_step 2 (Ident 311) [] 1)]))
      (pr_dag (peer_after sample_cr (Ident 9) [Heard sample_genesis, Asked, Received (sample_snapshot [] 311 1 0), Heard (sample_step 2 (Ident 311) [] 1)]))
    = dag_classify sample_cr
      (pr_log (peer_after sample_cr (Ident 9) [Received (sample_snapshot [] 311 1 0), Heard (sample_step 2 (Ident 311) [] 1), Heard sample_genesis]))
      (pr_dag (peer_after sample_cr (Ident 9) [Received (sample_snapshot [] 311 1 0), Heard (sample_step 2 (Ident 311) [] 1), Heard sample_genesis]))"
proof -
  let ?t = "sample_step 2 (Ident 311) [] 1" and ?s = "sample_snapshot [] 311 1 0"
  have "transitions_in [Heard sample_genesis, Asked, Received ?s, Heard ?t] = {sample_genesis, ?t}"
    "transitions_in [Received ?s, Heard ?t, Heard sample_genesis] = {sample_genesis, ?t}"
    "snapshots_in [Heard sample_genesis, Asked, Received ?s, Heard ?t] = {?s}"
    "snapshots_in [Received ?s, Heard ?t, Heard sample_genesis] = {?s}"
    by (auto simp: transitions_in_def snapshots_in_def)
  moreover have "inj_on (transition_id_of (cr_derive_key sample_cr)) {sample_genesis, ?t}"
    by (auto simp: sample_ids sample_cr_def)
  ultimately show ?thesis
    by (intro conjunct1 [OF peers_converge [OF _ _ _ _ refl refl]]) simp_all
qed

end
